(* ===== verification/Prelude.thy ===== *)
theory Prelude
  imports Main "HOL-Library.Word" "HOL-Library.Sublist"
begin

text \<open>
  Shared types, the outcome type of C++ code that may report an error, throw or hit a failed
  assertion, little-endian byte strings, and generic list lemmas. Every component theory imports
  this one. The named collection \<open>outcome_simps\<close> holds the rewrite rules of the outcome type and
  \<open>le_simps\<close> those of little-endian encodings.
\<close>

unbundle bit_operations_syntax

named_theorems outcome_simps \<open>rewrite rules for outcomes\<close>
named_theorems le_simps \<open>rewrite rules for little-endian byte strings\<close>

section \<open>Machine types\<close>

type_synonym byte = "8 word"
type_synonym uint32 = "32 word"
type_synonym uint64 = "64 word"
type_synonym valtype = "byte list"

lemma unat_byte_lt [simp]: "unat (b :: byte) < 256"
proof -
  have "unat b < 2 ^ LENGTH(8)" by (rule unsigned_less)
  then show ?thesis by simp
qed

lemma unat_of_nat_byte [le_simps]: "unat (of_nat n :: byte) = n mod 256"
  by (simp add: unsigned_of_nat take_bit_eq_mod)

lemma of_nat_mod_byte [le_simps]: "(of_nat (n mod 256) :: byte) = of_nat n"
  by (simp add: unat_of_nat_byte word_unat_eq_iff)

subsection \<open>Bits of a byte and of an integer\<close>

lemma bit7_iff: "bit (b :: byte) 7 \<longleftrightarrow> 128 \<le> unat b"
proof -
  have "bit b 7 \<longleftrightarrow> bit (unat b) 7"
    by (simp add: bit_unsigned_iff)
  also have "\<dots> \<longleftrightarrow> odd (unat b div 128)"
    by (simp add: bit_iff_odd)
  also have "\<dots> \<longleftrightarrow> 128 \<le> unat b"
  proof (cases "unat b < 128")
    case False
    then have "unat b div 128 = 1" using unat_byte_lt [of b] by (intro div_nat_eqI) auto
    with False show ?thesis by simp
  qed simp
  finally show ?thesis .
qed

lemma and_80_eq_0_iff: "(b :: byte) AND 0x80 = 0 \<longleftrightarrow> unat b < 128"
proof -
  have "b AND 2 ^ 7 = 0 \<longleftrightarrow> \<not> bit b 7"
    by (rule and_exp_eq_0_iff_not_bit)
  then show ?thesis by (simp add: bit7_iff not_le)
qed

lemma unat_and_7f: "unat ((b :: byte) AND 0x7f) = unat b mod 128"
proof -
  have "b AND 0x7f = take_bit 7 b"
    unfolding take_bit_eq_mask by (simp add: mask_eq_exp_minus_1)
  moreover have "unat (take_bit 7 b) = take_bit 7 (unat b)"
    by (rule unsigned_take_bit_eq)
  ultimately show ?thesis by (simp add: take_bit_eq_mod [of 7 "unat b"])
qed

lemma and_7f_eq_0_iff: "(b :: byte) AND 0x7f = 0 \<longleftrightarrow> unat b mod 128 = 0"
  by (metis unat_and_7f unat_eq_zero)

lemma unat_or_80: "unat b < 128 \<Longrightarrow> unat ((b :: byte) OR 0x80) = unat b + 128"
proof -
  assume a: "unat b < 128"
  then have "b AND 0x80 = 0" by (simp add: and_80_eq_0_iff)
  then have "b + 0x80 = b OR 0x80" by (rule disjunctive_add_eq_or)
  moreover have "unat (b + 0x80) = unat b + 128"
    using a by (simp add: unat_word_ariths)
  ultimately show ?thesis by simp
qed

lemma or_push_bit_add:
  fixes r x :: int
  assumes "0 \<le> r" "r < 2 ^ n"
  shows "r OR push_bit n x = r + 2 ^ n * x"
proof -
  have r: "take_bit n r = r" using assms by (simp add: take_bit_int_eq_self)
  have "r AND push_bit n x = 0"
    by (subst r [symmetric]) (simp add: bit_eq_iff bit_simps)
  then have "r + push_bit n x = r OR push_bit n x" by (rule disjunctive_add_eq_or)
  then show ?thesis by (simp add: push_bit_eq_mult mult.commute)
qed

lemma and_not_bit_sub:
  fixes r :: int
  assumes "2 ^ n \<le> r" "r < 2 ^ Suc n"
  shows "r AND NOT (2 ^ n) = r - 2 ^ n"
proof -
  have "(r - 2 ^ n) div 2 ^ n = 0" using assms by (intro div_pos_pos_trivial) auto
  then have "r div 2 ^ n = 1" using assms by (subst div_pos_geq) auto
  then have "bit r n" by (simp add: bit_iff_odd)
  then have "NOT r AND 2 ^ n = 0"
    by (simp add: and_exp_eq_0_iff_not_bit bit_not_int_iff)
  then show ?thesis by (rule disjunctive_diff_eq_and_not [symmetric])
qed

section \<open>Outcomes of C++ code\<close>

text \<open>
  \<open>Ok\<close> is normal return, \<open>Fail\<close> an error code reported through the function's own error channel,
  \<open>Throw\<close> a C++ exception, \<open>Abort\<close> a failed assertion or an operation the C++ standard leaves
  undefined (signed overflow, a read outside an array). Only exceptions can be caught.
\<close>

datatype cxx_exception = scriptnum_error | out_of_range | runtime_error | ios_failure

datatype ('e, 'a) outcome = Ok 'a | Fail 'e | Throw cxx_exception | Abort

fun bindO :: "('e, 'a) outcome \<Rightarrow> ('a \<Rightarrow> ('e, 'b) outcome) \<Rightarrow> ('e, 'b) outcome" where
  "bindO (Ok x) f = f x"
| "bindO (Fail e) f = Fail e"
| "bindO (Throw x) f = Throw x"
| "bindO Abort f = Abort"

fun outcome_all :: "('a \<Rightarrow> bool) \<Rightarrow> ('e, 'a) outcome \<Rightarrow> bool" where
  "outcome_all P (Ok x) = P x"
| "outcome_all P (Fail e) = True"
| "outcome_all P (Throw x) = (x = scriptnum_error)"
| "outcome_all P Abort = False"

text \<open>
  \<open>outcome_all P\<close> is the contract the script interpreter is held to: no failed assertion and no
  undefined operation, no exception but \<open>scriptnum_error\<close>, and \<open>P\<close> of every normal result.
\<close>

lemma bindO_eq_Ok [outcome_simps]: "bindO m f = Ok y \<longleftrightarrow> (\<exists>x. m = Ok x \<and> f x = Ok y)"
  by (cases m) auto

lemma bindO_assoc [outcome_simps]: "bindO (bindO m f) g = bindO m (\<lambda>x. bindO (f x) g)"
  by (cases m) auto

lemma outcome_all_bind:
  assumes "outcome_all Q m" "\<And>x. m = Ok x \<Longrightarrow> Q x \<Longrightarrow> outcome_all P (f x)"
  shows "outcome_all P (bindO m f)"
  using assms by (cases m) auto

lemma outcome_all_mono: "outcome_all Q m \<Longrightarrow> (\<And>x. Q x \<Longrightarrow> P x) \<Longrightarrow> outcome_all P m"
  by (cases m) auto

lemma outcome_all_OkD: "outcome_all P m \<Longrightarrow> m = Ok x \<Longrightarrow> P x"
  by simp

section \<open>Little-endian byte strings\<close>

text \<open>
  \<open>le_encode k n\<close> is the memory image of the \<open>k\<close>-byte unsigned integer \<open>n\<close> (reduced modulo
  \<open>256 ^ k\<close>) on the little-endian targets the program supports; \<open>le_decode\<close> reads one back.
\<close>

fun le_encode :: "nat \<Rightarrow> nat \<Rightarrow> byte list" where
  "le_encode 0 n = []"
| "le_encode (Suc k) n = of_nat n # le_encode k (n div 256)"

fun le_decode :: "byte list \<Rightarrow> nat" where
  "le_decode [] = 0"
| "le_decode (b # bs) = unat b + 256 * le_decode bs"

lemma length_le_encode [simp]: "length (le_encode k n) = k"
  by (induction k arbitrary: n) auto

lemma le_decode_encode [le_simps]: "le_decode (le_encode k n) = n mod 256 ^ k"
proof (induction k arbitrary: n)
  case (Suc k)
  have "n mod 256 + 256 * (n div 256 mod 256 ^ k) = n mod (256 * 256 ^ k)"
    by (metis add.commute mod_mult2_eq)
  with Suc show ?case by (simp add: unat_of_nat_byte)
qed simp

lemma le_decode_lt: "le_decode bs < 256 ^ length bs"
proof (induction bs)
  case (Cons b bs)
  have "unat b + 256 * le_decode bs < 256 + 256 * le_decode bs" by simp
  also have "\<dots> = 256 * Suc (le_decode bs)" by simp
  also have "\<dots> \<le> 256 * 256 ^ length bs" using Cons by (intro mult_le_mono2) simp
  finally show ?case by simp
qed simp

lemma le_encode_decode [le_simps]: "le_encode (length bs) (le_decode bs) = bs"
proof (induction bs)
  case (Cons b bs)
  have "unat (of_nat (unat b + 256 * le_decode bs) :: byte) = unat b"
    by (simp add: unat_of_nat_byte del: of_nat_add of_nat_mult)
  then have "of_nat (unat b + 256 * le_decode bs) = (b :: byte)"
    by (simp only: word_unat_eq_iff)
  moreover have "(unat b + 256 * le_decode bs) div 256 = le_decode bs"
    by simp
  ultimately show ?case using Cons by simp
qed simp

lemma le_decode_append:
  "le_decode (xs @ ys) = le_decode xs + 256 ^ length xs * le_decode ys"
  by (induction xs) (auto simp: algebra_simps)

definition be_encode :: "nat \<Rightarrow> nat \<Rightarrow> byte list" where
  "be_encode k n = rev (le_encode k n)"

definition be_decode :: "byte list \<Rightarrow> nat" where
  "be_decode bs = le_decode (rev bs)"

lemma length_be_encode [simp]: "length (be_encode k n) = k"
  by (simp add: be_encode_def)

lemma be_decode_encode [le_simps]: "be_decode (be_encode k n) = n mod 256 ^ k"
  by (simp add: be_decode_def be_encode_def le_decode_encode)

section \<open>Lists\<close>

lemma append_eq_drop: "xs = ys @ zs \<Longrightarrow> zs = drop (length ys) xs"
  by simp

lemma suffix_length_lt: "suffix ys xs \<Longrightarrow> ys \<noteq> xs \<Longrightarrow> length ys < length xs"
  by (auto simp: suffix_def)

end
