(* ===== verification/ScriptNum.thy ===== *)
theory ScriptNum
  imports Prelude
begin

text \<open>
  Script numbers, \<open>CScriptNum\<close> of \<open>src/script/script.h\<close>: the sign-magnitude byte encoding
  (\<open>serialize\<close>, \<open>set_vch\<close>), the checked constructor from stack elements, the checked arithmetic
  and the clamp \<open>getint\<close>. The member \<open>m_value\<close> is an \<open>int64_t\<close>; it is an \<open>int\<close> here, with every
  assertion and every signed overflow of the source an \<open>Abort\<close>. The lemmas show that the encoding
  and the decoder are inverse to each other and that numbers read from the stack stay so small that
  no arithmetic on them can abort.
\<close>

section \<open>Definitions\<close>

type_synonym CScriptNum = int

definition int64_min :: int where "int64_min = - (2 ^ 63)"
definition int64_max :: int where "int64_max = 2 ^ 63 - 1"
definition int32_min :: int where "int32_min = - (2 ^ 31)"
definition int32_max :: int where "int32_max = 2 ^ 31 - 1"

definition nMaxNumSize :: nat where "nMaxNumSize = 4"

text \<open>The loop of \<open>serialize\<close>: the bytes of the magnitude, least significant first.\<close>

fun magnitude_bytes :: "nat \<Rightarrow> valtype" where
  "magnitude_bytes absvalue =
     (if absvalue = 0 then [] else of_nat absvalue # magnitude_bytes (absvalue div 256))"

declare magnitude_bytes.simps [simp del]

text \<open>
  Negating the least \<open>int64_t\<close> is undefined. The numbers of the interpreter are far from it, and the operators
  of \<open>CScript\<close> that take an arbitrary \<open>int64_t\<close> test for it before they call \<open>serialize\<close>.
\<close>

definition serialize :: "int \<Rightarrow> valtype" where
  "serialize v =
     (if v = 0 then []
      else let neg = v < 0;
               absvalue = nat (if neg then - v else v);
               result = magnitude_bytes absvalue
           in if last result AND 0x80 \<noteq> 0 then result @ [if neg then 0x80 else 0]
              else if neg then butlast result @ [last result OR 0x80]
              else result)"

definition getvch :: "CScriptNum \<Rightarrow> valtype" where
  "getvch n = serialize n"

text \<open>The loop of \<open>set_vch\<close>: or-ing in byte \<open>i\<close> shifted left by \<open>8 * i\<close>.\<close>

fun set_vch_loop :: "nat \<Rightarrow> valtype \<Rightarrow> int \<Rightarrow> int" where
  "set_vch_loop i [] result = result"
| "set_vch_loop i (b # bs) result = set_vch_loop (Suc i) bs (result OR push_bit (8 * i) (uint b))"

definition set_vch :: "valtype \<Rightarrow> int" where
  "set_vch vch =
     (if vch = [] then 0
      else let result = set_vch_loop 0 vch 0
           in if last vch AND 0x80 \<noteq> 0
              then - (result AND NOT (push_bit (8 * (length vch - 1)) 0x80))
              else result)"

text \<open>The test of the checked constructor for an encoding that wastes a byte.\<close>

definition not_minimal :: "valtype \<Rightarrow> bool" where
  "not_minimal vch =
     (0 < length vch \<and> last vch AND 0x7f = 0 \<and>
      (length vch \<le> 1 \<or> vch ! (length vch - 2) AND 0x80 = 0))"

definition CScriptNum_of_vch :: "valtype \<Rightarrow> bool \<Rightarrow> ('e, CScriptNum) outcome" where
  "CScriptNum_of_vch vch fRequireMinimal =
     (if length vch > nMaxNumSize then Throw scriptnum_error
      else if fRequireMinimal \<and> not_minimal vch then Throw scriptnum_error
      else Ok (set_vch vch))"

text \<open>\<open>operator+\<close> and \<open>operator-\<close> compute on \<open>int64_t\<close> unchecked: overflow is undefined.\<close>

definition num_plus :: "CScriptNum \<Rightarrow> CScriptNum \<Rightarrow> ('e, CScriptNum) outcome" where
  "num_plus a b = (if int64_min \<le> a + b \<and> a + b \<le> int64_max then Ok (a + b) else Abort)"

definition num_minus :: "CScriptNum \<Rightarrow> CScriptNum \<Rightarrow> ('e, CScriptNum) outcome" where
  "num_minus a b = (if int64_min \<le> a - b \<and> a - b \<le> int64_max then Ok (a - b) else Abort)"

text \<open>\<open>operator+=\<close>, \<open>operator-=\<close> and unary minus assert that they do not overflow.\<close>

definition num_plus_assign :: "CScriptNum \<Rightarrow> CScriptNum \<Rightarrow> ('e, CScriptNum) outcome" where
  "num_plus_assign m rhs =
     (if rhs = 0 \<or> (rhs > 0 \<and> m \<le> int64_max - rhs) \<or> (rhs < 0 \<and> m \<ge> int64_min - rhs)
      then Ok (m + rhs) else Abort)"

definition num_minus_assign :: "CScriptNum \<Rightarrow> CScriptNum \<Rightarrow> ('e, CScriptNum) outcome" where
  "num_minus_assign m rhs =
     (if rhs = 0 \<or> (rhs > 0 \<and> m \<ge> int64_min + rhs) \<or> (rhs < 0 \<and> m \<le> int64_max + rhs)
      then Ok (m - rhs) else Abort)"

definition num_uminus :: "CScriptNum \<Rightarrow> ('e, CScriptNum) outcome" where
  "num_uminus m = (if m \<noteq> int64_min then Ok (- m) else Abort)"

definition getint :: "CScriptNum \<Rightarrow> int" where
  "getint m = (if m > int32_max then int32_max else if m < int32_min then int32_min else m)"

section \<open>The byte encoding\<close>

lemma set_vch_loop_eq:
  assumes "0 \<le> r" "r < 2 ^ (8 * i)"
  shows "set_vch_loop i bs r = r + 2 ^ (8 * i) * int (le_decode bs)"
  using assms
proof (induction bs arbitrary: i r)
  case (Cons b bs)
  let ?r = "r + 2 ^ (8 * i) * uint b"
  have eq: "r OR push_bit (8 * i) (uint b) = ?r"
    using Cons.prems by (rule or_push_bit_add)
  have b: "uint b < 256" using uint_lt2p [of b] by simp
  have "?r < 2 ^ (8 * i) + 2 ^ (8 * i) * uint b" using Cons.prems by simp
  also have "\<dots> = 2 ^ (8 * i) * (1 + uint b)" by (simp add: algebra_simps)
  also have "\<dots> \<le> 2 ^ (8 * i) * 256" using b by (intro mult_left_mono) auto
  also have "\<dots> = 2 ^ (8 * Suc i)" by (simp add: power_add)
  finally have lt: "?r < 2 ^ (8 * Suc i)" .
  have "0 \<le> ?r" using Cons.prems by simp
  from Cons.IH [OF this lt] show ?case
    unfolding set_vch_loop.simps eq by (simp add: power_add algebra_simps)
qed simp

lemma set_vch_loop_0: "set_vch_loop 0 bs 0 = int (le_decode bs)"
  using set_vch_loop_eq [of 0 0 bs] by simp

lemma le_decode_last:
  "bs \<noteq> [] \<Longrightarrow> le_decode bs = le_decode (butlast bs) + 256 ^ (length bs - 1) * unat (last bs)"
  using le_decode_append [of "butlast bs" "[last bs]"] by simp

text \<open>The decoder, as an equation: the last byte holds the sign in its top bit.\<close>

definition vch_magnitude :: "valtype \<Rightarrow> nat" where
  "vch_magnitude vch =
     le_decode (butlast vch) + 256 ^ (length vch - 1) * (unat (last vch) mod 128)"

lemma le_decode_magnitude:
  assumes "vch \<noteq> []"
  shows "le_decode vch =
           vch_magnitude vch + (if unat (last vch) < 128 then 0 else 2 ^ (8 * (length vch - 1) + 7))"
proof (cases "unat (last vch) < 128")
  case True
  with assms show ?thesis by (simp add: le_decode_last vch_magnitude_def)
next
  case False
  then have "(unat (last vch) - 128) mod 128 = unat (last vch) - 128"
    using unat_byte_lt [of "last vch"] by (intro mod_less) linarith
  then have "unat (last vch) mod 128 + 128 = unat (last vch)"
    using False by (simp add: le_mod_geq)
  then have "256 ^ (length vch - 1) * unat (last vch) =
      256 ^ (length vch - 1) * (unat (last vch) mod 128) + 256 ^ (length vch - 1) * 128"
    by (metis distrib_left)
  moreover have "(2 :: nat) ^ (8 * (length vch - 1) + 7) = 256 ^ (length vch - 1) * 128"
    by (simp add: power_add power_mult)
  ultimately show ?thesis
    using False le_decode_last [OF assms] by (simp add: vch_magnitude_def)
qed

lemma set_vch_eq:
  assumes "vch \<noteq> []"
  shows "set_vch vch =
           (if unat (last vch) < 128 then int (vch_magnitude vch) else - int (vch_magnitude vch))"
proof (cases "unat (last vch) < 128")
  case True
  with assms show ?thesis
    by (simp add: set_vch_def set_vch_loop_0 and_80_eq_0_iff le_decode_magnitude)
next
  case False
  let ?n = "8 * (length vch - 1) + 7"
  have dec: "le_decode vch = vch_magnitude vch + 2 ^ ?n"
    using False le_decode_magnitude [OF assms] by simp
  have ge: "2 ^ ?n \<le> int (le_decode vch)" by (simp add: dec)
  have "Suc ?n = 8 * length vch" using assms by (cases vch) auto
  then have "le_decode vch < 2 ^ Suc ?n"
    using le_decode_lt [of vch] by (simp only: power_mult) simp
  then have lt: "int (le_decode vch) < 2 ^ Suc ?n" by simp
  have "push_bit (8 * (length vch - 1)) (0x80 :: int) = 2 ^ ?n"
    by (simp add: push_bit_eq_mult power_add)
  then have "set_vch vch = - (int (le_decode vch) AND NOT (2 ^ ?n))"
    using False assms(1) by (simp only: set_vch_def set_vch_loop_0 and_80_eq_0_iff Let_def if_False if_True simp_thms)
  also have "\<dots> = - (int (le_decode vch) - 2 ^ ?n)"
    by (simp only: and_not_bit_sub [OF ge lt])
  also have "\<dots> = - int (vch_magnitude vch)" by (simp add: dec)
  finally show ?thesis using False by simp
qed

text \<open>The magnitude loop writes the little-endian digits, without a leading zero byte.\<close>

lemma magnitude_bytes_0 [simp]: "magnitude_bytes 0 = []"
  by (simp add: magnitude_bytes.simps)

lemma le_decode_magnitude_bytes [simp]: "le_decode (magnitude_bytes n) = n"
proof (induction n rule: magnitude_bytes.induct)
  case (1 n)
  then show ?case
    by (cases "n = 0") (simp_all add: magnitude_bytes.simps [of n] unat_of_nat_byte)
qed

lemma magnitude_bytes_Nil_iff [simp]: "magnitude_bytes n = [] \<longleftrightarrow> n = 0"
  by (simp add: magnitude_bytes.simps [of n])

lemma last_magnitude_bytes: "n \<noteq> 0 \<Longrightarrow> last (magnitude_bytes n) \<noteq> 0"
proof (induction n rule: magnitude_bytes.induct)
  case (1 n)
  show ?case
  proof (cases "n div 256 = 0")
    case True
    then have "n mod 256 = n" by (simp add: div_eq_0_iff)
    then have "unat (of_nat n :: byte) \<noteq> 0" using 1(2) by (simp add: unat_of_nat_byte)
    then have "(of_nat n :: byte) \<noteq> 0" by (metis unat_0)
    with True 1(2) show ?thesis by (simp add: magnitude_bytes.simps [of n])
  next
    case False
    with 1 show ?thesis by (simp add: magnitude_bytes.simps [of n])
  qed
qed

lemma magnitude_bytes_le_decode: "bs = [] \<or> last bs \<noteq> 0 \<Longrightarrow> magnitude_bytes (le_decode bs) = bs"
proof (induction bs)
  case (Cons b bs)
  have b: "of_nat (le_decode (b # bs)) = b"
    using le_encode_decode [of "b # bs"] by simp
  have bs: "le_decode (b # bs) div 256 = le_decode bs" by simp
  show ?case
  proof (cases "bs = []")
    case True
    with Cons.prems have "unat b \<noteq> 0" by (simp add: unat_eq_zero)
    with True show ?thesis by (simp add: magnitude_bytes.simps [of "unat b"] magnitude_bytes.simps [of 0])
  next
    case False
    with Cons.prems have IH: "magnitude_bytes (le_decode bs) = bs" using Cons.IH by simp
    with False have "le_decode bs \<noteq> 0" by (metis magnitude_bytes_Nil_iff)
    then have "le_decode (b # bs) \<noteq> 0" by simp
    then show ?thesis
      by (subst magnitude_bytes.simps) (simp only: b bs IH if_False)
  qed
qed (simp add: magnitude_bytes.simps)

lemma length_magnitude_bytes: "n < 256 ^ k \<Longrightarrow> length (magnitude_bytes n) \<le> k"
proof (induction k arbitrary: n)
  case (Suc k)
  then have "n div 256 < 256 ^ k" by (simp add: less_mult_imp_div_less mult.commute)
  with Suc.IH show ?case by (simp add: magnitude_bytes.simps [of n])
qed (simp add: magnitude_bytes.simps)

lemma vch_magnitude_snoc:
  "vch_magnitude (bs @ [b]) = le_decode bs + 256 ^ length bs * (unat b mod 128)"
  by (simp add: vch_magnitude_def)

lemma set_vch_snoc:
  "set_vch (bs @ [b]) =
     (let m = int (le_decode bs + 256 ^ length bs * (unat b mod 128))
      in if unat b < 128 then m else - m)"
  by (simp add: set_vch_eq vch_magnitude_snoc Let_def)

section \<open>Encoding and decoding are inverse\<close>

lemma magnitude_bytes_snoc:
  assumes "n \<noteq> 0"
  obtains bs b where "magnitude_bytes n = bs @ [b]" "unat b \<noteq> 0"
    "n = le_decode bs + 256 ^ length bs * unat b"
proof -
  let ?r = "magnitude_bytes n"
  have ne: "?r \<noteq> []" using assms by simp
  have "?r = butlast ?r @ [last ?r]" using ne by simp
  moreover have "unat (last ?r) \<noteq> 0" using last_magnitude_bytes [OF assms] by (simp add: unat_eq_zero)
  moreover have "n = le_decode (butlast ?r) + 256 ^ length (butlast ?r) * unat (last ?r)"
    using le_decode_last [OF ne] by simp
  ultimately show ?thesis by (rule that)
qed

lemma serialize_snoc:
  assumes "v \<noteq> 0" "magnitude_bytes (nat \<bar>v\<bar>) = bs @ [b]"
  shows "serialize v =
     (if unat b < 128 then bs @ [if v < 0 then b OR 0x80 else b]
      else bs @ [b, if v < 0 then 0x80 else 0])"
  using assms by (cases "v < 0") (auto simp: serialize_def Let_def and_80_eq_0_iff abs_if)

lemma serialize_cases:
  assumes "v \<noteq> 0"
  obtains (short) bs b where "serialize v = bs @ [if v < 0 then b OR 0x80 else b]"
      "unat b \<noteq> 0" "unat b < 128" "nat \<bar>v\<bar> = le_decode bs + 256 ^ length bs * unat b"
      "magnitude_bytes (nat \<bar>v\<bar>) = bs @ [b]"
    | (long) bs b where "serialize v = bs @ [b, if v < 0 then 0x80 else 0]"
      "128 \<le> unat b" "nat \<bar>v\<bar> = le_decode (bs @ [b])"
      "magnitude_bytes (nat \<bar>v\<bar>) = bs @ [b]"
proof -
  from assms have "nat \<bar>v\<bar> \<noteq> 0" by simp
  then obtain bs b where r: "magnitude_bytes (nat \<bar>v\<bar>) = bs @ [b]" "unat b \<noteq> 0"
    and n: "nat \<bar>v\<bar> = le_decode bs + 256 ^ length bs * unat b"
    by (rule magnitude_bytes_snoc)
  show ?thesis
  proof (cases "unat b < 128")
    case True
    with serialize_snoc [OF assms r(1)] n r show ?thesis by (intro short [of bs b]) auto
  next
    case False
    with serialize_snoc [OF assms r(1)] n r show ?thesis
      by (intro long [of bs b]) (auto simp: le_decode_append)
  qed
qed

lemma set_vch_serialize [simp]: "set_vch (serialize v) = v"
proof (cases "v = 0")
  case False
  then show ?thesis
  proof (cases rule: serialize_cases)
    case (short bs b)
    have "int (le_decode bs + 256 ^ length bs * unat b) = \<bar>v\<bar>"
      unfolding short(4) [symmetric] by simp
    with short show ?thesis
      by (simp add: set_vch_snoc unat_or_80 Let_def mod_add_self2 del: of_nat_add of_nat_mult split: if_split)
  next
    case (long bs b)
    have "int (le_decode (bs @ [b])) = \<bar>v\<bar>"
      unfolding long(3) [symmetric] by simp
    moreover have "serialize v = (bs @ [b]) @ [if v < 0 then 0x80 else 0]" using long by simp
    ultimately show ?thesis
      by (simp only: set_vch_snoc Let_def) (simp split: if_split)
  qed
qed (simp add: serialize_def set_vch_def)

lemma serialize_minimal: "\<not> not_minimal (serialize v)"
proof (cases "v = 0")
  case False
  then show ?thesis
  proof (cases rule: serialize_cases)
    case (short bs b)
    then show ?thesis
      by (auto simp: not_minimal_def and_7f_eq_0_iff unat_or_80)
  next
    case (long bs b)
    then show ?thesis by (auto simp: not_minimal_def nth_append and_80_eq_0_iff)
  qed
qed (simp add: serialize_def not_minimal_def)

lemma length_serialize:
  assumes "\<bar>v\<bar> < 2 ^ (8 * k + 7)"
  shows "length (serialize v) \<le> Suc k"
proof (cases "v = 0")
  case False
  have lt: "nat \<bar>v\<bar> < 128 * 256 ^ k"
    using assms by (simp add: power_add power_mult nat_less_iff)
  then have "length (magnitude_bytes (nat \<bar>v\<bar>)) \<le> Suc k"
    by (intro length_magnitude_bytes) simp
  from False show ?thesis
  proof (cases rule: serialize_cases)
    case (short bs b)
    with \<open>length (magnitude_bytes (nat \<bar>v\<bar>)) \<le> Suc k\<close> show ?thesis by simp
  next
    case (long bs b)
    have "128 * 256 ^ length bs \<le> nat \<bar>v\<bar>"
      using long by (simp add: le_decode_append trans_le_add2)
    also note lt
    finally have "(256 :: nat) ^ length bs < 256 ^ k" by simp
    then have "length bs < k" by simp
    with long show ?thesis by simp
  qed
qed (simp add: serialize_def)

lemma minimal_cases:
  assumes "\<not> not_minimal vch" "vch \<noteq> []"
  obtains (short) bs b where "vch = bs @ [b]" "unat b mod 128 \<noteq> 0"
    | (long) bs c b where "vch = bs @ [c, b]" "unat b mod 128 = 0" "128 \<le> unat c"
proof (cases "unat (last vch) mod 128 = 0")
  case False
  with assms(2) show ?thesis by (intro short [of "butlast vch" "last vch"]) auto
next
  case True
  obtain ws b where vch: "vch = ws @ [b]" using assms(2) by (cases vch rule: rev_cases) auto
  with True assms(1) have ws: "ws \<noteq> []" "128 \<le> unat (last ws)"
    by (auto simp: not_minimal_def and_7f_eq_0_iff and_80_eq_0_iff nth_append last_conv_nth)
  with vch True show ?thesis
    by (intro long [of "butlast ws" "last ws" b]) auto
qed

lemma serialize_signed:
  assumes "m \<noteq> 0" "magnitude_bytes m = bs @ [c]"
  shows "serialize (if neg then - int m else int m) =
     (if unat c < 128 then bs @ [if neg then c OR 0x80 else c]
      else bs @ [c, if neg then 0x80 else 0])"
  using serialize_snoc [of "if neg then - int m else int m" bs c] assms by (cases neg) auto

lemma byte_of_mod_128: "(if unat b < 128 then of_nat (unat b mod 128)
    else of_nat (unat b mod 128) OR 0x80) = (b :: byte)"
proof (cases "unat b < 128")
  case False
  define c :: byte where "c = of_nat (unat b mod 128)"
  have "unat b - 128 < 128" using unat_byte_lt [of b] by linarith
  with False have m: "unat b mod 128 = unat b - 128" by (simp add: le_mod_geq)
  have c: "unat c = unat b mod 128"
    unfolding c_def by (simp add: unat_of_nat_byte del: of_nat_mod)
  then have "unat (c OR 0x80) = unat c + 128" by (simp add: unat_or_80)
  with c m False have "unat (c OR 0x80) = unat b" by simp
  with False show ?thesis by (simp add: word_unat_eq_iff c_def)
qed simp

lemma serialize_set_vch:
  assumes "\<not> not_minimal vch"
  shows "serialize (set_vch vch) = vch"
proof (cases "vch = []")
  case False
  with assms show ?thesis
  proof (cases rule: minimal_cases)
    case (short bs b)
    define c :: byte where "c = of_nat (unat b mod 128)"
    define m where "m = le_decode bs + 256 ^ length bs * (unat b mod 128)"
    have c: "unat c = unat b mod 128"
      unfolding c_def by (simp add: unat_of_nat_byte del: of_nat_mod)
    then have "c \<noteq> 0" using short(2) by (metis unat_0)
    moreover have "le_decode (bs @ [c]) = m" by (simp add: le_decode_append c m_def)
    ultimately have mb: "magnitude_bytes m = bs @ [c]"
      using magnitude_bytes_le_decode [of "bs @ [c]"] by simp
    have "m \<noteq> 0" using short(2) by (simp add: m_def)
    moreover have "set_vch vch = (if \<not> unat b < 128 then - int m else int m)"
      using short(1) by (simp only: set_vch_snoc Let_def m_def if_not_P if_P) simp
    ultimately have "serialize (set_vch vch) = bs @ [if \<not> unat b < 128 then c OR 0x80 else c]"
      using serialize_signed [of m bs c "\<not> unat b < 128"] mb c by simp
    moreover have "(if \<not> unat b < 128 then c OR 0x80 else c) = b"
      unfolding c_def using byte_of_mod_128 [of b] by argo
    ultimately show ?thesis using short(1) by simp
  next
    case (long bs c b)
    define m where "m = le_decode (bs @ [c])"
    have "c \<noteq> 0" using long(3) by auto
    then have mb: "magnitude_bytes m = bs @ [c]"
      unfolding m_def by (intro magnitude_bytes_le_decode) simp
    then have "m \<noteq> 0" by (metis magnitude_bytes_Nil_iff snoc_eq_iff_butlast)
    moreover have "set_vch vch = (if \<not> unat b < 128 then - int m else int m)"
      using long set_vch_snoc [of "bs @ [c]" b] by (simp add: Let_def m_def)
    ultimately have "serialize (set_vch vch) = bs @ [c, if \<not> unat b < 128 then 0x80 else 0]"
      using serialize_signed [of m bs c "\<not> unat b < 128"] mb long(3) by simp
    moreover have "(if \<not> unat b < 128 then 0x80 else 0) = b"
      using byte_of_mod_128 [of b] unfolding long(2) by (simp split: if_splits)
    ultimately show ?thesis using long(1) by simp
  qed
qed (simp add: set_vch_def serialize_def)

lemma vch_magnitude_lt: "vch \<noteq> [] \<Longrightarrow> vch_magnitude vch < 2 ^ (8 * length vch - 1)"
proof -
  assume "vch \<noteq> []"
  then obtain bs b where vch: "vch = bs @ [b]" by (cases vch rule: rev_cases) auto
  have "vch_magnitude vch < 256 ^ length bs + 256 ^ length bs * (unat b mod 128)"
    using le_decode_lt [of bs] by (simp add: vch vch_magnitude_snoc)
  also have "\<dots> = 256 ^ length bs * (1 + unat b mod 128)" by simp
  also have "\<dots> \<le> 256 ^ length bs * 128"
    by (intro mult_le_mono2) (simp add: Suc_leI)
  also have "\<dots> = 2 ^ (8 * length vch - 1)"
    by (simp add: vch power_add power_mult)
  finally show ?thesis .
qed

lemma set_vch_abs_lt: "length vch \<le> 4 \<Longrightarrow> \<bar>set_vch vch\<bar> < 2 ^ 31"
proof (cases "vch = []")
  case False
  assume "length vch \<le> 4"
  have "vch_magnitude vch < 2 ^ (8 * length vch - 1)" using False by (rule vch_magnitude_lt)
  also have "\<dots> \<le> 2 ^ 31" using \<open>length vch \<le> 4\<close> by (intro power_increasing) auto
  finally have "vch_magnitude vch < 2 ^ 31" .
  then show ?thesis using set_vch_eq [OF False] by simp
qed (simp add: set_vch_def)

section \<open>The checked constructor and the arithmetic\<close>

lemma CScriptNum_of_vch_range:
  "CScriptNum_of_vch vch f = Ok n \<Longrightarrow> \<bar>n\<bar> < 2 ^ 31"
  by (auto simp: CScriptNum_of_vch_def nMaxNumSize_def set_vch_abs_lt [simplified] split: if_splits)

lemma CScriptNum_of_vch_outcome: "outcome_all (\<lambda>n. \<bar>n\<bar> < 2 ^ 31) (CScriptNum_of_vch vch f)"
  by (auto simp: CScriptNum_of_vch_def nMaxNumSize_def set_vch_abs_lt [simplified])

lemma getint_small: "\<bar>n\<bar> < 2 ^ 31 \<Longrightarrow> getint n = n"
  by (auto simp: getint_def int32_max_def int32_min_def)

lemmas num_defs = num_plus_def num_minus_def num_plus_assign_def num_minus_assign_def num_uminus_def
  int64_min_def int64_max_def

text \<open>Arithmetic on two numbers read from the stack is exact: it neither wraps nor aborts.\<close>

lemma num_ops_exact:
  assumes "\<bar>a\<bar> < 2 ^ 31" "\<bar>b\<bar> < 2 ^ 31"
  shows "num_plus a b = Ok (a + b)" "num_minus a b = Ok (a - b)"
    "num_plus_assign a b = Ok (a + b)" "num_minus_assign a b = Ok (a - b)"
    "num_uminus a = Ok (- a)"
  using assms by (auto simp: num_defs)

lemma CScriptNum_of_getvch:
  assumes "\<bar>n\<bar> < 2 ^ 31"
  shows "CScriptNum_of_vch (getvch n) fRequireMinimal = Ok n"
proof -
  have "length (serialize n) \<le> Suc 3"
    using assms by (intro length_serialize) simp
  then show ?thesis
    by (simp add: CScriptNum_of_vch_def getvch_def nMaxNumSize_def serialize_minimal)
qed

section \<open>Properties\<close>

text \<open>
  Every number in the operand range of the numeric opcodes, from \<open>-2^31 + 1\<close> to
  \<open>2^31 - 1\<close>, survives being written to the stack with \<open>getvch\<close> and read back with the checked
  constructor, with or without the minimal-encoding rule.
\<close>

theorem scriptnum_roundtrip:
  assumes "\<bar>n\<bar> < 2 ^ 31"
  shows "CScriptNum_of_vch (getvch n) fRequireMinimal = Ok n"
  using assms by (rule CScriptNum_of_getvch)

theorem scriptnum_roundtrip_witness:
  "CScriptNum_of_vch (getvch (- 1000)) True = (Ok (- 1000) :: (unit, int) outcome)"
  using scriptnum_roundtrip [of "- 1000" True] by simp

text \<open>
  C17: Under the minimal-encoding rule the encoding of a number is unique: a byte string is
  accepted only if it is exactly the one \<open>getvch\<close> writes for the number it stands for, and that
  number is then within the operand range. Longer strings and wasteful encodings throw
  \<open>scriptnum_error\<close>.
\<close>

theorem scriptnum_canonical:
  "(CScriptNum_of_vch vch True = (Ok n :: ('e, int) outcome)) =
     (length vch \<le> nMaxNumSize \<and> \<bar>n\<bar> < 2 ^ 31 \<and> getvch n = vch)"
  (is "?L = ?R")
proof
  assume ?L
  then have "length vch \<le> nMaxNumSize" "\<not> not_minimal vch" "n = set_vch vch"
    by (auto simp: CScriptNum_of_vch_def split: if_splits)
  with CScriptNum_of_vch_range [OF \<open>?L\<close>] show ?R
    by (simp add: getvch_def serialize_set_vch)
next
  assume ?R
  then show ?L
    using serialize_minimal [of n] by (auto simp: CScriptNum_of_vch_def getvch_def)
qed

end
