(* ===== verification/Script.thy ===== *)
theory Script
  imports ScriptNum
begin

text \<open>
  Serialized scripts, \<open>src/script/script.h\<close> and \<open>src/script/script.cpp\<close>: the opcodes, appending
  opcodes, numbers and data (\<open>operator<<\<close>), the instruction decoder \<open>GetOp2\<close>, and the scans built on
  it (\<open>FindAndDelete\<close>, \<open>Find\<close>, \<open>GetSigOpCount\<close>, \<open>IsPushOnly\<close> and the pattern tests). A script is a
  list of bytes and an iterator into it is the suffix it points to, so that \<open>pc < end()\<close> is
  \<open>pc \<noteq> []\<close>. The lemmas show that the decoder consumes a non-empty prefix and never reads past the
  end, that it inverts \<open>operator<<\<close>, and what the scans count and delete.
\<close>

section \<open>Opcodes\<close>

text \<open>
  The enumeration \<open>opcodetype\<close> is the byte it is read from, as a number: every byte of a script is
  cast to it, those without an enumerator too.
\<close>

type_synonym opcodetype = nat

abbreviation (input) OP_0 :: opcodetype where "OP_0 \<equiv> 0x00"
abbreviation (input) OP_FALSE :: opcodetype where "OP_FALSE \<equiv> OP_0"
abbreviation (input) OP_PUSHDATA1 :: opcodetype where "OP_PUSHDATA1 \<equiv> 0x4c"
abbreviation (input) OP_PUSHDATA2 :: opcodetype where "OP_PUSHDATA2 \<equiv> 0x4d"
abbreviation (input) OP_PUSHDATA4 :: opcodetype where "OP_PUSHDATA4 \<equiv> 0x4e"
abbreviation (input) OP_1NEGATE :: opcodetype where "OP_1NEGATE \<equiv> 0x4f"
abbreviation (input) OP_RESERVED :: opcodetype where "OP_RESERVED \<equiv> 0x50"
abbreviation (input) OP_1 :: opcodetype where "OP_1 \<equiv> 0x51"
abbreviation (input) OP_TRUE :: opcodetype where "OP_TRUE \<equiv> OP_1"
abbreviation (input) OP_2 :: opcodetype where "OP_2 \<equiv> 0x52"
abbreviation (input) OP_3 :: opcodetype where "OP_3 \<equiv> 0x53"
abbreviation (input) OP_4 :: opcodetype where "OP_4 \<equiv> 0x54"
abbreviation (input) OP_5 :: opcodetype where "OP_5 \<equiv> 0x55"
abbreviation (input) OP_6 :: opcodetype where "OP_6 \<equiv> 0x56"
abbreviation (input) OP_7 :: opcodetype where "OP_7 \<equiv> 0x57"
abbreviation (input) OP_8 :: opcodetype where "OP_8 \<equiv> 0x58"
abbreviation (input) OP_9 :: opcodetype where "OP_9 \<equiv> 0x59"
abbreviation (input) OP_10 :: opcodetype where "OP_10 \<equiv> 0x5a"
abbreviation (input) OP_11 :: opcodetype where "OP_11 \<equiv> 0x5b"
abbreviation (input) OP_12 :: opcodetype where "OP_12 \<equiv> 0x5c"
abbreviation (input) OP_13 :: opcodetype where "OP_13 \<equiv> 0x5d"
abbreviation (input) OP_14 :: opcodetype where "OP_14 \<equiv> 0x5e"
abbreviation (input) OP_15 :: opcodetype where "OP_15 \<equiv> 0x5f"
abbreviation (input) OP_16 :: opcodetype where "OP_16 \<equiv> 0x60"
abbreviation (input) OP_NOP :: opcodetype where "OP_NOP \<equiv> 0x61"
abbreviation (input) OP_VER :: opcodetype where "OP_VER \<equiv> 0x62"
abbreviation (input) OP_IF :: opcodetype where "OP_IF \<equiv> 0x63"
abbreviation (input) OP_NOTIF :: opcodetype where "OP_NOTIF \<equiv> 0x64"
abbreviation (input) OP_VERIF :: opcodetype where "OP_VERIF \<equiv> 0x65"
abbreviation (input) OP_VERNOTIF :: opcodetype where "OP_VERNOTIF \<equiv> 0x66"
abbreviation (input) OP_ELSE :: opcodetype where "OP_ELSE \<equiv> 0x67"
abbreviation (input) OP_ENDIF :: opcodetype where "OP_ENDIF \<equiv> 0x68"
abbreviation (input) OP_VERIFY :: opcodetype where "OP_VERIFY \<equiv> 0x69"
abbreviation (input) OP_RETURN :: opcodetype where "OP_RETURN \<equiv> 0x6a"
abbreviation (input) OP_TOALTSTACK :: opcodetype where "OP_TOALTSTACK \<equiv> 0x6b"
abbreviation (input) OP_FROMALTSTACK :: opcodetype where "OP_FROMALTSTACK \<equiv> 0x6c"
abbreviation (input) OP_2DROP :: opcodetype where "OP_2DROP \<equiv> 0x6d"
abbreviation (input) OP_2DUP :: opcodetype where "OP_2DUP \<equiv> 0x6e"
abbreviation (input) OP_3DUP :: opcodetype where "OP_3DUP \<equiv> 0x6f"
abbreviation (input) OP_2OVER :: opcodetype where "OP_2OVER \<equiv> 0x70"
abbreviation (input) OP_2ROT :: opcodetype where "OP_2ROT \<equiv> 0x71"
abbreviation (input) OP_2SWAP :: opcodetype where "OP_2SWAP \<equiv> 0x72"
abbreviation (input) OP_IFDUP :: opcodetype where "OP_IFDUP \<equiv> 0x73"
abbreviation (input) OP_DEPTH :: opcodetype where "OP_DEPTH \<equiv> 0x74"
abbreviation (input) OP_DROP :: opcodetype where "OP_DROP \<equiv> 0x75"
abbreviation (input) OP_DUP :: opcodetype where "OP_DUP \<equiv> 0x76"
abbreviation (input) OP_NIP :: opcodetype where "OP_NIP \<equiv> 0x77"
abbreviation (input) OP_OVER :: opcodetype where "OP_OVER \<equiv> 0x78"
abbreviation (input) OP_PICK :: opcodetype where "OP_PICK \<equiv> 0x79"
abbreviation (input) OP_ROLL :: opcodetype where "OP_ROLL \<equiv> 0x7a"
abbreviation (input) OP_ROT :: opcodetype where "OP_ROT \<equiv> 0x7b"
abbreviation (input) OP_SWAP :: opcodetype where "OP_SWAP \<equiv> 0x7c"
abbreviation (input) OP_TUCK :: opcodetype where "OP_TUCK \<equiv> 0x7d"
abbreviation (input) OP_CAT :: opcodetype where "OP_CAT \<equiv> 0x7e"
abbreviation (input) OP_SUBSTR :: opcodetype where "OP_SUBSTR \<equiv> 0x7f"
abbreviation (input) OP_LEFT :: opcodetype where "OP_LEFT \<equiv> 0x80"
abbreviation (input) OP_RIGHT :: opcodetype where "OP_RIGHT \<equiv> 0x81"
abbreviation (input) OP_SIZE :: opcodetype where "OP_SIZE \<equiv> 0x82"
abbreviation (input) OP_INVERT :: opcodetype where "OP_INVERT \<equiv> 0x83"
abbreviation (input) OP_AND :: opcodetype where "OP_AND \<equiv> 0x84"
abbreviation (input) OP_OR :: opcodetype where "OP_OR \<equiv> 0x85"
abbreviation (input) OP_XOR :: opcodetype where "OP_XOR \<equiv> 0x86"
abbreviation (input) OP_EQUAL :: opcodetype where "OP_EQUAL \<equiv> 0x87"
abbreviation (input) OP_EQUALVERIFY :: opcodetype where "OP_EQUALVERIFY \<equiv> 0x88"
abbreviation (input) OP_RESERVED1 :: opcodetype where "OP_RESERVED1 \<equiv> 0x89"
abbreviation (input) OP_RESERVED2 :: opcodetype where "OP_RESERVED2 \<equiv> 0x8a"
abbreviation (input) OP_1ADD :: opcodetype where "OP_1ADD \<equiv> 0x8b"
abbreviation (input) OP_1SUB :: opcodetype where "OP_1SUB \<equiv> 0x8c"
abbreviation (input) OP_2MUL :: opcodetype where "OP_2MUL \<equiv> 0x8d"
abbreviation (input) OP_2DIV :: opcodetype where "OP_2DIV \<equiv> 0x8e"
abbreviation (input) OP_NEGATE :: opcodetype where "OP_NEGATE \<equiv> 0x8f"
abbreviation (input) OP_ABS :: opcodetype where "OP_ABS \<equiv> 0x90"
abbreviation (input) OP_NOT :: opcodetype where "OP_NOT \<equiv> 0x91"
abbreviation (input) OP_0NOTEQUAL :: opcodetype where "OP_0NOTEQUAL \<equiv> 0x92"
abbreviation (input) OP_ADD :: opcodetype where "OP_ADD \<equiv> 0x93"
abbreviation (input) OP_SUB :: opcodetype where "OP_SUB \<equiv> 0x94"
abbreviation (input) OP_MUL :: opcodetype where "OP_MUL \<equiv> 0x95"
abbreviation (input) OP_DIV :: opcodetype where "OP_DIV \<equiv> 0x96"
abbreviation (input) OP_MOD :: opcodetype where "OP_MOD \<equiv> 0x97"
abbreviation (input) OP_LSHIFT :: opcodetype where "OP_LSHIFT \<equiv> 0x98"
abbreviation (input) OP_RSHIFT :: opcodetype where "OP_RSHIFT \<equiv> 0x99"
abbreviation (input) OP_BOOLAND :: opcodetype where "OP_BOOLAND \<equiv> 0x9a"
abbreviation (input) OP_BOOLOR :: opcodetype where "OP_BOOLOR \<equiv> 0x9b"
abbreviation (input) OP_NUMEQUAL :: opcodetype where "OP_NUMEQUAL \<equiv> 0x9c"
abbreviation (input) OP_NUMEQUALVERIFY :: opcodetype where "OP_NUMEQUALVERIFY \<equiv> 0x9d"
abbreviation (input) OP_NUMNOTEQUAL :: opcodetype where "OP_NUMNOTEQUAL \<equiv> 0x9e"
abbreviation (input) OP_LESSTHAN :: opcodetype where "OP_LESSTHAN \<equiv> 0x9f"
abbreviation (input) OP_GREATERTHAN :: opcodetype where "OP_GREATERTHAN \<equiv> 0xa0"
abbreviation (input) OP_LESSTHANOREQUAL :: opcodetype where "OP_LESSTHANOREQUAL \<equiv> 0xa1"
abbreviation (input) OP_GREATERTHANOREQUAL :: opcodetype where "OP_GREATERTHANOREQUAL \<equiv> 0xa2"
abbreviation (input) OP_MIN :: opcodetype where "OP_MIN \<equiv> 0xa3"
abbreviation (input) OP_MAX :: opcodetype where "OP_MAX \<equiv> 0xa4"
abbreviation (input) OP_WITHIN :: opcodetype where "OP_WITHIN \<equiv> 0xa5"
abbreviation (input) OP_RIPEMD160 :: opcodetype where "OP_RIPEMD160 \<equiv> 0xa6"
abbreviation (input) OP_SHA1 :: opcodetype where "OP_SHA1 \<equiv> 0xa7"
abbreviation (input) OP_SHA256 :: opcodetype where "OP_SHA256 \<equiv> 0xa8"
abbreviation (input) OP_HASH160 :: opcodetype where "OP_HASH160 \<equiv> 0xa9"
abbreviation (input) OP_HASH256 :: opcodetype where "OP_HASH256 \<equiv> 0xaa"
abbreviation (input) OP_CODESEPARATOR :: opcodetype where "OP_CODESEPARATOR \<equiv> 0xab"
abbreviation (input) OP_CHECKSIG :: opcodetype where "OP_CHECKSIG \<equiv> 0xac"
abbreviation (input) OP_CHECKSIGVERIFY :: opcodetype where "OP_CHECKSIGVERIFY \<equiv> 0xad"
abbreviation (input) OP_CHECKMULTISIG :: opcodetype where "OP_CHECKMULTISIG \<equiv> 0xae"
abbreviation (input) OP_CHECKMULTISIGVERIFY :: opcodetype where "OP_CHECKMULTISIGVERIFY \<equiv> 0xaf"
abbreviation (input) OP_NOP1 :: opcodetype where "OP_NOP1 \<equiv> 0xb0"
abbreviation (input) OP_NOP2 :: opcodetype where "OP_NOP2 \<equiv> 0xb1"
abbreviation (input) OP_NOP3 :: opcodetype where "OP_NOP3 \<equiv> 0xb2"
abbreviation (input) OP_NOP4 :: opcodetype where "OP_NOP4 \<equiv> 0xb3"
abbreviation (input) OP_NOP5 :: opcodetype where "OP_NOP5 \<equiv> 0xb4"
abbreviation (input) OP_NOP6 :: opcodetype where "OP_NOP6 \<equiv> 0xb5"
abbreviation (input) OP_NOP7 :: opcodetype where "OP_NOP7 \<equiv> 0xb6"
abbreviation (input) OP_NOP8 :: opcodetype where "OP_NOP8 \<equiv> 0xb7"
abbreviation (input) OP_NOP9 :: opcodetype where "OP_NOP9 \<equiv> 0xb8"
abbreviation (input) OP_NOP10 :: opcodetype where "OP_NOP10 \<equiv> 0xb9"
abbreviation (input) OP_ZEROCOINMINT :: opcodetype where "OP_ZEROCOINMINT \<equiv> 0xc1"
abbreviation (input) OP_ZEROCOINSPEND :: opcodetype where "OP_ZEROCOINSPEND \<equiv> 0xc2"
abbreviation (input) OP_SMALLINTEGER :: opcodetype where "OP_SMALLINTEGER \<equiv> 0xfa"
abbreviation (input) OP_PUBKEYS :: opcodetype where "OP_PUBKEYS \<equiv> 0xfb"
abbreviation (input) OP_PUBKEYHASH :: opcodetype where "OP_PUBKEYHASH \<equiv> 0xfd"
abbreviation (input) OP_PUBKEY :: opcodetype where "OP_PUBKEY \<equiv> 0xfe"
abbreviation (input) OP_INVALIDOPCODE :: opcodetype where "OP_INVALIDOPCODE \<equiv> 0xff"

text \<open>\<open>GetOpName\<close>, its switch as a table in the order of the cases.\<close>

definition op_names_low :: "(opcodetype \<times> string) list" where
  "op_names_low = [
    (OP_0, ''0''), (OP_PUSHDATA1, ''OP_PUSHDATA1''), (OP_PUSHDATA2, ''OP_PUSHDATA2''),
    (OP_PUSHDATA4, ''OP_PUSHDATA4''), (OP_1NEGATE, ''-1''), (OP_RESERVED, ''OP_RESERVED''),
    (OP_1, ''1''), (OP_2, ''2''), (OP_3, ''3''), (OP_4, ''4''), (OP_5, ''5''), (OP_6, ''6''),
    (OP_7, ''7''), (OP_8, ''8''), (OP_9, ''9''), (OP_10, ''10''), (OP_11, ''11''),
    (OP_12, ''12''), (OP_13, ''13''), (OP_14, ''14''), (OP_15, ''15''), (OP_16, ''16''),
    (OP_NOP, ''OP_NOP''), (OP_VER, ''OP_VER''), (OP_IF, ''OP_IF''), (OP_NOTIF, ''OP_NOTIF''),
    (OP_VERIF, ''OP_VERIF''), (OP_VERNOTIF, ''OP_VERNOTIF''), (OP_ELSE, ''OP_ELSE''),
    (OP_ENDIF, ''OP_ENDIF''), (OP_VERIFY, ''OP_VERIFY''), (OP_RETURN, ''OP_RETURN''),
    (OP_TOALTSTACK, ''OP_TOALTSTACK''), (OP_FROMALTSTACK, ''OP_FROMALTSTACK''),
    (OP_2DROP, ''OP_2DROP''), (OP_2DUP, ''OP_2DUP''), (OP_3DUP, ''OP_3DUP''),
    (OP_2OVER, ''OP_2OVER''), (OP_2ROT, ''OP_2ROT''), (OP_2SWAP, ''OP_2SWAP''),
    (OP_IFDUP, ''OP_IFDUP''), (OP_DEPTH, ''OP_DEPTH''), (OP_DROP, ''OP_DROP''),
    (OP_DUP, ''OP_DUP''), (OP_NIP, ''OP_NIP''), (OP_OVER, ''OP_OVER''), (OP_PICK, ''OP_PICK''),
    (OP_ROLL, ''OP_ROLL''), (OP_ROT, ''OP_ROT''), (OP_SWAP, ''OP_SWAP''), (OP_TUCK, ''OP_TUCK''),
    (OP_CAT, ''OP_CAT''), (OP_SUBSTR, ''OP_SUBSTR''), (OP_LEFT, ''OP_LEFT''),
    (OP_RIGHT, ''OP_RIGHT''), (OP_SIZE, ''OP_SIZE''), (OP_INVERT, ''OP_INVERT''),
    (OP_AND, ''OP_AND''), (OP_OR, ''OP_OR''), (OP_XOR, ''OP_XOR''), (OP_EQUAL, ''OP_EQUAL''),
    (OP_EQUALVERIFY, ''OP_EQUALVERIFY''), (OP_RESERVED1, ''OP_RESERVED1''),
    (OP_RESERVED2, ''OP_RESERVED2'')]"

definition op_names_high :: "(opcodetype \<times> string) list" where
  "op_names_high = [
    (OP_1ADD, ''OP_1ADD''), (OP_1SUB, ''OP_1SUB''), (OP_2MUL, ''OP_2MUL''),
    (OP_2DIV, ''OP_2DIV''), (OP_NEGATE, ''OP_NEGATE''), (OP_ABS, ''OP_ABS''),
    (OP_NOT, ''OP_NOT''), (OP_0NOTEQUAL, ''OP_0NOTEQUAL''), (OP_ADD, ''OP_ADD''),
    (OP_SUB, ''OP_SUB''), (OP_MUL, ''OP_MUL''), (OP_DIV, ''OP_DIV''), (OP_MOD, ''OP_MOD''),
    (OP_LSHIFT, ''OP_LSHIFT''), (OP_RSHIFT, ''OP_RSHIFT''), (OP_BOOLAND, ''OP_BOOLAND''),
    (OP_BOOLOR, ''OP_BOOLOR''), (OP_NUMEQUAL, ''OP_NUMEQUAL''),
    (OP_NUMEQUALVERIFY, ''OP_NUMEQUALVERIFY''), (OP_NUMNOTEQUAL, ''OP_NUMNOTEQUAL''),
    (OP_LESSTHAN, ''OP_LESSTHAN''), (OP_GREATERTHAN, ''OP_GREATERTHAN''),
    (OP_LESSTHANOREQUAL, ''OP_LESSTHANOREQUAL''),
    (OP_GREATERTHANOREQUAL, ''OP_GREATERTHANOREQUAL''), (OP_MIN, ''OP_MIN''),
    (OP_MAX, ''OP_MAX''), (OP_WITHIN, ''OP_WITHIN''), (OP_RIPEMD160, ''OP_RIPEMD160''),
    (OP_SHA1, ''OP_SHA1''), (OP_SHA256, ''OP_SHA256''), (OP_HASH160, ''OP_HASH160''),
    (OP_HASH256, ''OP_HASH256''), (OP_CODESEPARATOR, ''OP_CODESEPARATOR''),
    (OP_CHECKSIG, ''OP_CHECKSIG''), (OP_CHECKSIGVERIFY, ''OP_CHECKSIGVERIFY''),
    (OP_CHECKMULTISIG, ''OP_CHECKMULTISIG''),
    (OP_CHECKMULTISIGVERIFY, ''OP_CHECKMULTISIGVERIFY''), (OP_NOP1, ''OP_NOP1''),
    (OP_NOP2, ''OP_NOP2''), (OP_NOP3, ''OP_NOP3''), (OP_NOP4, ''OP_NOP4''),
    (OP_NOP5, ''OP_NOP5''), (OP_NOP6, ''OP_NOP6''), (OP_NOP7, ''OP_NOP7''),
    (OP_NOP8, ''OP_NOP8''), (OP_NOP9, ''OP_NOP9''), (OP_NOP10, ''OP_NOP10''),
    (OP_ZEROCOINMINT, ''OP_ZEROCOINMINT''), (OP_ZEROCOINSPEND, ''OP_ZEROCOINSPEND''),
    (OP_INVALIDOPCODE, ''OP_INVALIDOPCODE'')]"

definition GetOpName :: "opcodetype \<Rightarrow> string" where
  "GetOpName opcode =
     (case map_of (op_names_low @ op_names_high) opcode of
        Some name \<Rightarrow> name
      | None \<Rightarrow> ''OP_UNKNOWN'')"

section \<open>Building scripts\<close>

definition push_opcode :: "byte list \<Rightarrow> opcodetype \<Rightarrow> byte list" where
  "push_opcode s opcode = s @ [of_nat opcode]"

definition push_data :: "byte list \<Rightarrow> valtype \<Rightarrow> byte list" where
  "push_data s b =
     (if length b < OP_PUSHDATA1 then s @ [of_nat (length b)] @ b
      else if length b \<le> 0xff then s @ [of_nat OP_PUSHDATA1, of_nat (length b)] @ b
      else if length b \<le> 0xffff then s @ [of_nat OP_PUSHDATA2] @ le_encode 2 (length b) @ b
      else s @ [of_nat OP_PUSHDATA4] @ le_encode 4 (length b) @ b)"

text \<open>\<open>serialize\<close> negates a negative number, which is undefined for the least \<open>int64_t\<close>.\<close>

definition push_int64 :: "byte list \<Rightarrow> int \<Rightarrow> (unit, byte list) outcome" where
  "push_int64 s n =
     (if n = -1 \<or> (n \<ge> 1 \<and> n \<le> 16) then Ok (s @ [of_int (n + (int OP_1 - 1))])
      else if n = 0 then Ok (s @ [of_nat OP_0])
      else if n = int64_min then Abort
      else Ok (push_data s (serialize n)))"

definition push_scriptnum :: "byte list \<Rightarrow> CScriptNum \<Rightarrow> (unit, byte list) outcome" where
  "push_scriptnum s b = (if b = int64_min then Abort else Ok (push_data s (getvch b)))"

section \<open>Reading instructions\<close>

text \<open>The operand size of a push instruction and the iterator behind it; \<open>None\<close> where it is cut off.\<close>

definition read_push_size :: "opcodetype \<Rightarrow> byte list \<Rightarrow> (nat \<times> byte list) option" where
  "read_push_size opcode pc =
     (if opcode < OP_PUSHDATA1 then Some (opcode, pc)
      else if opcode = OP_PUSHDATA1 then
        (if length pc < 1 then None else Some (le_decode (take 1 pc), drop 1 pc))
      else if opcode = OP_PUSHDATA2 then
        (if length pc < 2 then None else Some (le_decode (take 2 pc), drop 2 pc))
      else
        (if length pc < 4 then None else Some (le_decode (take 4 pc), drop 4 pc)))"

text \<open>
  \<open>GetOp2\<close> returns its result, \<open>opcodeRet\<close>, \<open>*pvchRet\<close> and the moved iterator. The iterator moves
  on failure too.
\<close>

fun GetOp2 :: "byte list \<Rightarrow> bool \<times> opcodetype \<times> valtype \<times> byte list" where
  "GetOp2 [] = (False, OP_INVALIDOPCODE, [], [])"
| "GetOp2 (b # pc) =
     (let opcode = unat b
      in if opcode \<le> OP_PUSHDATA4 then
           (case read_push_size opcode pc of
              None \<Rightarrow> (False, OP_INVALIDOPCODE, [], pc)
            | Some (nSize, pc') \<Rightarrow>
                if length pc' mod 2 ^ 32 < nSize then (False, OP_INVALIDOPCODE, [], pc')
                else (True, opcode, take nSize pc', drop nSize pc'))
         else (True, opcode, [], pc))"

definition DecodeOP_N :: "opcodetype \<Rightarrow> ('e, int) outcome" where
  "DecodeOP_N opcode =
     (if opcode = OP_0 then Ok 0
      else if opcode \<ge> OP_1 \<and> opcode \<le> OP_16 then Ok (int opcode - (int OP_1 - 1))
      else Abort)"

definition EncodeOP_N :: "int \<Rightarrow> ('e, opcodetype) outcome" where
  "EncodeOP_N n =
     (if n \<ge> 0 \<and> n \<le> 16
      then Ok (if n = 0 then OP_0 else nat (int OP_1 + n - 1))
      else Abort)"

lemma read_push_size_suffix:
  "read_push_size opcode pc = Some (n, pc') \<Longrightarrow> suffix pc' pc"
  by (auto simp: read_push_size_def suffix_drop split: if_splits)

lemma GetOp2_suffix: "GetOp2 (b # pc) = (ok, op, vch, pc') \<Longrightarrow> suffix pc' pc"
  by (auto simp: Let_def split: if_splits option.splits prod.splits
      dest!: read_push_size_suffix intro: suffix_order.trans [OF suffix_drop])

lemma GetOp2_decreases: "GetOp2 pc = (ok, op, vch, pc') \<Longrightarrow> pc \<noteq> [] \<Longrightarrow> length pc' < length pc"
  by (cases pc) (auto simp del: GetOp2.simps dest!: GetOp2_suffix suffix_length_le)

lemma GetOp2_ok_nonempty: "GetOp2 pc = (True, op, vch, pc') \<Longrightarrow> pc \<noteq> []"
  by auto

section \<open>Scans\<close>

text \<open>
  \<open>FindAndDelete\<close>: at every instruction boundary the inner loop erases all copies of \<open>b\<close> standing
  there, then the outer loop reads one instruction and goes on behind it. The result is the number
  of copies erased and the script left over.
\<close>

function erase_copies :: "byte list \<Rightarrow> byte list \<Rightarrow> nat \<times> byte list" where
  "erase_copies b pc =
     (if b \<noteq> [] \<and> length pc \<ge> length b \<and> take (length b) pc = b
      then let (n, pc') = erase_copies b (drop (length b) pc) in (Suc n, pc')
      else (0, pc))"
  by pat_completeness auto
termination
proof (relation "measure (\<lambda>(b, pc). length pc)", goal_cases)
  case (2 b pc)
  then have "0 < length b" "length b \<le> length pc" by auto
  then show ?case by (simp, linarith)
qed simp

declare erase_copies.simps [simp del]

lemma erase_copies_length:
  "erase_copies b pc = (n, pc') \<Longrightarrow> length pc = n * length b + length pc'"
proof (induction b pc arbitrary: n pc' rule: erase_copies.induct)
  case (1 b pc)
  show ?case
  proof (cases "b \<noteq> [] \<and> length pc \<ge> length b \<and> take (length b) pc = b")
    case True
    obtain k pc1 where k: "erase_copies b (drop (length b) pc) = (k, pc1)" by fastforce
    with "1.IH" [OF True] have "length (drop (length b) pc) = k * length b + length pc1" by blast
    moreover have "n = Suc k" "pc' = pc1"
      using "1.prems" True k by (simp_all add: erase_copies.simps [of b pc])
    ultimately show ?thesis using True by (simp, linarith)
  next
    case False
    with "1.prems" have "n = 0" "pc' = pc"
      unfolding erase_copies.simps [of b pc] by simp_all
    then show ?thesis by simp
  qed
qed

function find_and_delete_loop :: "byte list \<Rightarrow> byte list \<Rightarrow> nat \<times> byte list" where
  "find_and_delete_loop b pc =
     (let (n, pc1) = erase_copies b pc; (ok, opcode, vch, pc2) = GetOp2 pc1
      in if ok
         then let (n', rest) = find_and_delete_loop b pc2
              in (n + n', take (length pc1 - length pc2) pc1 @ rest)
         else (n, pc1))"
  by pat_completeness auto
termination
proof (relation "measure (\<lambda>(b, pc). length pc)", goal_cases)
  case (2 b pc x n pc1 y ok y' opcode y'' vch pc2)
  then have "length pc2 < length pc1"
    using GetOp2_decreases GetOp2_ok_nonempty by metis
  moreover have "length pc1 \<le> length pc"
    using erase_copies_length [of b pc n pc1] 2 by simp
  ultimately show ?case by simp
qed simp

declare find_and_delete_loop.simps [simp del]

definition FindAndDelete :: "byte list \<Rightarrow> byte list \<Rightarrow> nat \<times> byte list" where
  "FindAndDelete script b = (if b = [] then (0, script) else find_and_delete_loop b script)"

function Find_from :: "opcodetype \<Rightarrow> byte list \<Rightarrow> nat" where
  "Find_from op pc =
     (if pc = [] then 0
      else let (ok, opcode, vch, pc') = GetOp2 pc
           in if ok then (if opcode = op then 1 else 0) + Find_from op pc' else 0)"
  by pat_completeness auto
termination
  by (relation "measure (\<lambda>(op, pc). length pc)") (auto dest: GetOp2_decreases [OF sym])

declare Find_from.simps [simp del]

definition Find :: "byte list \<Rightarrow> opcodetype \<Rightarrow> nat" where
  "Find script op = Find_from op script"

text \<open>
  What one instruction adds in \<open>GetSigOpCount(bool)\<close>, and the loop; \<open>n\<close> is the count so far, a \<open>uint32_t\<close>
  that wraps.
\<close>

definition op_sigops :: "bool \<Rightarrow> opcodetype \<Rightarrow> opcodetype \<Rightarrow> uint32" where
  "op_sigops fAccurate lastOpcode opcode =
     (if opcode = OP_CHECKSIG \<or> opcode = OP_CHECKSIGVERIFY then 1
      else if opcode = OP_CHECKMULTISIG \<or> opcode = OP_CHECKMULTISIGVERIFY then
        (if fAccurate \<and> lastOpcode \<ge> OP_1 \<and> lastOpcode \<le> OP_16
         then of_nat (lastOpcode - (OP_1 - 1)) else 20)
      else 0)"

function sigops_from :: "bool \<Rightarrow> opcodetype \<Rightarrow> uint32 \<Rightarrow> byte list \<Rightarrow> uint32" where
  "sigops_from fAccurate lastOpcode n pc =
     (if pc = [] then n
      else let (ok, opcode, vch, pc') = GetOp2 pc
           in if \<not> ok then n
              else sigops_from fAccurate opcode (n + op_sigops fAccurate lastOpcode opcode) pc')"
  by pat_completeness auto
termination
  by (relation "measure (\<lambda>(f, l, n, pc). length pc)") (auto dest: GetOp2_decreases [OF sym])

declare sigops_from.simps [simp del]

definition GetSigOpCount :: "byte list \<Rightarrow> bool \<Rightarrow> uint32" where
  "GetSigOpCount script fAccurate = sigops_from fAccurate OP_INVALIDOPCODE 0 script"

definition IsPayToScriptHash :: "byte list \<Rightarrow> bool" where
  "IsPayToScriptHash script =
     (length script = 23 \<and> unat (script ! 0) = OP_HASH160 \<and> script ! 1 = 0x14 \<and>
      unat (script ! 22) = OP_EQUAL)"

text \<open>The last push of a script that holds pushes only; \<open>None\<close> for any other script.\<close>

function last_push :: "valtype \<Rightarrow> byte list \<Rightarrow> valtype option" where
  "last_push data pc =
     (if pc = [] then Some data
      else let (ok, opcode, vch, pc') = GetOp2 pc
           in if \<not> ok then None else if opcode > OP_16 then None else last_push vch pc')"
  by pat_completeness auto
termination
  by (relation "measure (\<lambda>(d, pc). length pc)") (auto dest: GetOp2_decreases [OF sym])

declare last_push.simps [simp del]

definition GetSigOpCount_P2SH :: "byte list \<Rightarrow> byte list \<Rightarrow> uint32" where
  "GetSigOpCount_P2SH script scriptSig =
     (if \<not> IsPayToScriptHash script then GetSigOpCount script True
      else (case last_push [] scriptSig of
              None \<Rightarrow> 0
            | Some data \<Rightarrow> GetSigOpCount data True))"

text \<open>
  \<open>IsNormalPaymentScript\<close> ignores the result of \<open>GetOp\<close>; after a failed read \<open>opcode\<close> is
  \<open>OP_INVALIDOPCODE\<close>.
\<close>

function normal_payment_from :: "nat \<Rightarrow> byte list \<Rightarrow> bool" where
  "normal_payment_from i pc =
     (if pc = [] then True
      else let (ok, opcode, vch, pc') = GetOp2 pc
           in if i = 0 \<and> opcode \<noteq> OP_DUP then False
              else if i = 1 \<and> opcode \<noteq> OP_HASH160 then False
              else if i = 3 \<and> opcode \<noteq> OP_EQUALVERIFY then False
              else if i = 4 \<and> opcode \<noteq> OP_CHECKSIG then False
              else if i = 5 then False
              else normal_payment_from (Suc i) pc')"
  by pat_completeness auto
termination
  by (relation "measure (\<lambda>(i, pc). length pc)") (auto dest: GetOp2_decreases [OF sym])

declare normal_payment_from.simps [simp del]

definition IsNormalPaymentScript :: "byte list \<Rightarrow> bool" where
  "IsNormalPaymentScript script = (if length script \<noteq> 25 then False else normal_payment_from 0 script)"

definition IsZerocoinMint :: "byte list \<Rightarrow> bool" where
  "IsZerocoinMint script = (length script > 0 \<and> unat (script ! 0) = OP_ZEROCOINMINT)"

definition IsZerocoinSpend :: "byte list \<Rightarrow> bool" where
  "IsZerocoinSpend script = (if script = [] then False else unat (script ! 0) = OP_ZEROCOINSPEND)"

function IsPushOnly :: "byte list \<Rightarrow> bool" where
  "IsPushOnly pc =
     (if pc = [] then True
      else let (ok, opcode, vch, pc') = GetOp2 pc
           in if \<not> ok then False else if opcode > OP_16 then False else IsPushOnly pc')"
  by pat_completeness auto
termination
  by (relation "measure length") (auto dest: GetOp2_decreases [OF sym])

declare IsPushOnly.simps [simp del]

definition IsUnspendable :: "byte list \<Rightarrow> bool" where
  "IsUnspendable script = (length script > 0 \<and> unat (script ! 0) = OP_RETURN)"

section \<open>The decoder inverts \<open>operator<<\<close>\<close>

definition push_opcode_of :: "valtype \<Rightarrow> opcodetype" where
  "push_opcode_of b =
     (if length b < OP_PUSHDATA1 then length b
      else if length b \<le> 0xff then OP_PUSHDATA1
      else if length b \<le> 0xffff then OP_PUSHDATA2 else OP_PUSHDATA4)"

lemma push_data_append: "push_data s b = s @ push_data [] b"
  by (simp add: push_data_def)

lemma GetOp2_push_data:
  assumes "length b + length rest < 2 ^ 32"
  shows "GetOp2 (push_data [] b @ rest) = (True, push_opcode_of b, b, rest)"
proof -
  have mod: "(length b + length rest) mod 2 ^ 32 = length b + length rest"
    using assms by simp
  have len: "length b < 256 ^ 4" using assms by simp
  consider "length b < OP_PUSHDATA1" | "OP_PUSHDATA1 \<le> length b" "length b \<le> 0xff"
    | "0xff < length b" "length b \<le> 0xffff" | "0xffff < length b" by linarith
  then show ?thesis
  proof cases
    case 1
    then show ?thesis using mod
      by (simp add: push_data_def push_opcode_of_def read_push_size_def unat_of_nat_byte Let_def)
  next
    case 2
    then show ?thesis using mod
      by (simp add: push_data_def push_opcode_of_def read_push_size_def unat_of_nat_byte Let_def)
  next
    case 3
    then have "length b mod 256 ^ 2 = length b" by simp
    with 3 mod show ?thesis
      by (simp add: push_data_def push_opcode_of_def read_push_size_def unat_of_nat_byte
          le_decode_encode Let_def)
  next
    case 4
    have "length b mod 256 ^ 4 = length b" using len by simp
    with 4 mod show ?thesis
      by (simp add: push_data_def push_opcode_of_def read_push_size_def unat_of_nat_byte
          le_decode_encode Let_def)
  qed
qed

lemma GetOp2_opcode:
  "opcode > OP_PUSHDATA4 \<Longrightarrow> opcode < 256 \<Longrightarrow>
   GetOp2 (of_nat opcode # rest) = (True, opcode, [], rest)"
  by (simp add: unat_of_nat_byte Let_def)

lemma read_push_size_split:
  assumes "read_push_size opcode pc = Some (n, pc')"
  shows "\<exists>sz. pc = sz @ pc' \<and> length sz \<le> 4"
proof -
  obtain sz where sz: "pc = sz @ pc'" using read_push_size_suffix [OF assms] by (auto simp: suffix_def)
  have "length pc \<le> length pc' + 4"
    using assms by (auto simp: read_push_size_def split: if_splits)
  with sz show ?thesis by auto
qed

text \<open>What a successful read consumes: an instruction header, then the pushed bytes.\<close>

lemma GetOp2_split:
  assumes "GetOp2 pc = (True, op, vch, pc')"
  shows "\<exists>sz. pc = of_nat op # sz @ vch @ pc' \<and> length sz \<le> 4"
proof -
  obtain b pc0 where pc: "pc = b # pc0" using assms by (cases pc) auto
  show ?thesis
  proof (cases "unat b \<le> OP_PUSHDATA4")
    case False
    with assms pc show ?thesis by (auto simp: Let_def)
  next
    case True
    with assms pc obtain n pc1 where r: "read_push_size (unat b) pc0 = Some (n, pc1)"
      "op = unat b" "vch = take n pc1" "pc' = drop n pc1"
      by (auto simp: Let_def split: option.splits if_splits)
    from read_push_size_split [OF r(1)] r pc show ?thesis by auto
  qed
qed

lemma GetOp2_opcode_lt: "GetOp2 pc = (True, op, vch, pc') \<Longrightarrow> op < 256"
  by (cases pc) (auto simp: Let_def split: option.splits if_splits)

lemma GetOp2_no_data: "GetOp2 pc = (True, op, vch, pc') \<Longrightarrow> op > OP_PUSHDATA4 \<Longrightarrow> vch = []"
  by (cases pc) (auto simp: Let_def split: option.splits if_splits)

lemma GetOp2_data_length: "GetOp2 pc = (ok, op, vch, pc') \<Longrightarrow> length vch \<le> length pc"
proof (cases ok)
  case True
  assume "GetOp2 pc = (ok, op, vch, pc')"
  with True obtain sz where "pc = of_nat op # sz @ vch @ pc'" using GetOp2_split by fastforce
  then show ?thesis by simp
next
  case False
  assume "GetOp2 pc = (ok, op, vch, pc')"
  with False show ?thesis
    by (cases pc) (auto simp: Let_def split: option.splits if_splits)
qed

section \<open>What the scans compute\<close>

lemma erase_copies_zero: "erase_copies b pc = (0, pc') \<Longrightarrow> pc' = pc"
  by (auto simp: erase_copies.simps [of b pc] split: if_splits prod.splits)

lemma find_and_delete_loop_correct:
  "find_and_delete_loop b pc = (n, r) \<Longrightarrow> length pc = n * length b + length r \<and> (n = 0 \<longrightarrow> r = pc)"
proof (induction b pc arbitrary: n r rule: find_and_delete_loop.induct)
  case (1 b pc)
  obtain n1 pc1 where e: "erase_copies b pc = (n1, pc1)" by fastforce
  obtain ok opc vch pc2 where g: "GetOp2 pc1 = (ok, opc, vch, pc2)" by (metis prod_cases4)
  have len: "length pc = n1 * length b + length pc1" using e by (rule erase_copies_length)
  show ?case
  proof (cases ok)
    case False
    with "1.prems" e g have "n = n1" "r = pc1"
      by (simp_all add: find_and_delete_loop.simps [of b pc])
    with len e erase_copies_zero show ?thesis by auto
  next
    case True
    obtain n2 r2 where l: "find_and_delete_loop b pc2 = (n2, r2)" by fastforce
    with "1.prems" e g True
    have n: "n = n1 + n2" and r: "r = take (length pc1 - length pc2) pc1 @ r2"
      by (simp_all add: find_and_delete_loop.simps [of b pc])
    have IH: "length pc2 = n2 * length b + length r2" "n2 = 0 \<longrightarrow> r2 = pc2"
      using "1.IH" [OF e [symmetric] refl g [symmetric] refl refl refl True l] by auto
    have "GetOp2 pc1 = (True, opc, vch, pc2)" using g True by simp
    from GetOp2_split [OF this] obtain pre where pre: "pc1 = pre @ pc2" by (metis append_Cons append_assoc)
    then have r': "r = pre @ r2" using r by simp
    have "length pc = n * length b + length r"
      using len pre IH(1) by (simp add: n r' distrib_right)
    moreover have "n = 0 \<longrightarrow> r = pc"
      using n r' pre IH(2) erase_copies_zero [of b pc pc1] e by auto
    ultimately show ?thesis by simp
  qed
qed

text \<open>
  Signature operations counted over the list of opcodes: single checks, and for every multiple check the
  number of keys announced by the opcode before it, or 20. \<open>opcodes_of\<close> is the part of a script that
  decodes.
\<close>

function opcodes_of :: "byte list \<Rightarrow> opcodetype list" where
  "opcodes_of pc =
     (if pc = [] then []
      else let (ok, opcode, vch, pc') = GetOp2 pc in if ok then opcode # opcodes_of pc' else [])"
  by pat_completeness auto
termination
  by (relation "measure length") (auto dest: GetOp2_decreases [OF sym])

declare opcodes_of.simps [simp del]

definition multisig_keys :: "bool \<Rightarrow> opcodetype list \<Rightarrow> nat \<Rightarrow> nat" where
  "multisig_keys fAccurate ops i =
     (if fAccurate \<and> 0 < i \<and> ops ! (i - 1) \<in> {OP_1..OP_16} then ops ! (i - 1) - OP_1 + 1 else 20)"

definition sigop_total :: "bool \<Rightarrow> opcodetype list \<Rightarrow> nat" where
  "sigop_total fAccurate ops =
     count_list ops OP_CHECKSIG + count_list ops OP_CHECKSIGVERIFY +
     (\<Sum>i \<in> {i. i < length ops \<and> ops ! i \<in> {OP_CHECKMULTISIG, OP_CHECKMULTISIGVERIFY}}. multisig_keys fAccurate ops i)"

lemma unat_keys: "l \<le> 96 \<Longrightarrow> unat (of_nat (l - 80) :: uint32) = l - 80"
  unfolding unsigned_of_nat by (simp add: take_bit_nat_eq_self)

lemma sigop_total_snoc:
  "sigop_total f (ops @ [opc]) = sigop_total f ops + unat (op_sigops f (if ops = [] then OP_INVALIDOPCODE else last ops) opc)"
proof -
  let ?M = "\<lambda>ops. {i. i < length ops \<and> ops ! i \<in> {OP_CHECKMULTISIG, OP_CHECKMULTISIGVERIFY}}"
  have M: "?M (ops @ [opc]) = (if opc \<in> {OP_CHECKMULTISIG, OP_CHECKMULTISIGVERIFY} then insert (length ops) (?M ops) else ?M ops)"
    by (auto simp: nth_append less_Suc_eq)
  have eq: "(\<Sum>i \<in> ?M ops. multisig_keys f (ops @ [opc]) i) = (\<Sum>i \<in> ?M ops. multisig_keys f ops i)"
    by (rule sum.cong) (auto simp: multisig_keys_def nth_append)
  have last: "multisig_keys f (ops @ [opc]) (length ops) =
      (if f \<and> ops \<noteq> [] \<and> last ops \<in> {OP_1..OP_16} then last ops - OP_1 + 1 else 20)"
    by (auto simp: multisig_keys_def nth_append last_conv_nth)
  show ?thesis
    unfolding sigop_total_def M using eq last by (auto simp: op_sigops_def unat_keys simp del: of_nat_diff)
qed

lemma sigops_from_total:
  "sigops_from f (if ops = [] then OP_INVALIDOPCODE else last ops) (of_nat (sigop_total f ops)) pc =
     of_nat (sigop_total f (ops @ opcodes_of pc))"
proof (induction pc arbitrary: ops rule: opcodes_of.induct)
  case (1 pc)
  obtain ok opc vch pc' where g: "GetOp2 pc = (ok, opc, vch, pc')" by (metis prod_cases4)
  show ?case
  proof (cases "pc \<noteq> [] \<and> ok")
    case True
    have "of_nat (sigop_total f ops) + op_sigops f (if ops = [] then OP_INVALIDOPCODE else last ops) opc =
        (of_nat (sigop_total f (ops @ [opc])) :: uint32)" by (simp add: sigop_total_snoc)
    then show ?thesis
      using True g "1.IH" [of _ _ _ _ _ _ _ "ops @ [opc]"] by (subst sigops_from.simps, subst opcodes_of.simps) auto
  qed (use g in \<open>auto simp: sigops_from.simps opcodes_of.simps\<close>)
qed

lemma sigop_total_le: "sigop_total f ops \<le> 20 * length ops" "sigop_total True ops \<le> sigop_total False ops"
proof -
  have "unat (op_sigops f l opc) \<le> 20" "unat (op_sigops True l opc) \<le> unat (op_sigops False l' opc)" for f l l' opc
    by (auto simp: op_sigops_def unat_keys simp del: of_nat_diff)
  note le = this
  show "sigop_total f ops \<le> 20 * length ops"
  proof (induction ops rule: rev_induct)
    case (snoc opc ops)
    then show ?case using le(1) [of f "if ops = [] then OP_INVALIDOPCODE else last ops" opc] by (simp add: sigop_total_snoc)
  qed (simp add: sigop_total_def)
  show "sigop_total True ops \<le> sigop_total False ops"
    by (induction ops rule: rev_induct) (auto simp: sigop_total_snoc sigop_total_def [of _ "[]"] intro!: add_mono le(2))
qed

lemma length_opcodes_of: "length (opcodes_of pc) \<le> length pc"
proof (induction pc rule: opcodes_of.induct)
  case (1 pc)
  obtain ok opc vch pc' where g: "GetOp2 pc = (ok, opc, vch, pc')" by (metis prod_cases4)
  show ?case
  proof (cases "pc \<noteq> [] \<and> ok")
    case True
    then have "length (opcodes_of pc') \<le> length pc'" using "1.IH" g by auto
    moreover have "length pc' < length pc" using GetOp2_decreases [OF g] True by simp
    ultimately show ?thesis using True g by (subst opcodes_of.simps) simp
  qed (use g in \<open>auto simp: opcodes_of.simps\<close>)
qed

section \<open>Properties\<close>

text \<open>
  A script as its instruction sequence: \<open>script_of\<close> writes it with the two streaming operators, one
  call per item, and \<open>instructions\<close> is the scan every client of the decoder runs, which gives up at
  the first undecodable position.
\<close>

datatype script_item = Opcode opcodetype | Pushdata valtype

fun script_of :: "script_item list \<Rightarrow> byte list" where
  "script_of [] = []"
| "script_of (Opcode opc # its) = of_nat opc # script_of its"
| "script_of (Pushdata b # its) = push_data [] b @ script_of its"

fun valid_item :: "script_item \<Rightarrow> bool" where
  "valid_item (Opcode opc) = (OP_PUSHDATA4 < opc \<and> opc < 256)"
| "valid_item (Pushdata b) = True"

fun item_instruction :: "script_item \<Rightarrow> opcodetype \<times> valtype" where
  "item_instruction (Opcode opc) = (opc, [])"
| "item_instruction (Pushdata b) = (push_opcode_of b, b)"

function instructions :: "byte list \<Rightarrow> (opcodetype \<times> valtype) list option" where
  "instructions pc =
     (if pc = [] then Some []
      else let (ok, opcode, vch, pc') = GetOp2 pc
           in if ok then map_option ((#) (opcode, vch)) (instructions pc') else None)"
  by pat_completeness auto
termination
  by (relation "measure length") (auto dest: GetOp2_decreases [OF sym])

declare instructions.simps [simp del]

lemma instructions_step:
  "GetOp2 pc = (True, opc, vch, pc') \<Longrightarrow>
   instructions pc = map_option ((#) (opc, vch)) (instructions pc')"
  by (subst instructions.simps) (auto dest: GetOp2_ok_nonempty)

lemma push_data_length: "length b \<le> length (push_data [] b)"
  by (simp add: push_data_def)

text \<open>
  C16: A script built with the streaming operators, whatever the mix of opcodes and of data pushes of
  any size, is decoded by \<open>GetOp\<close> into exactly the instructions that were written: the decoder
  inverts the encoder, direct pushes and the three \<open>PUSHDATA\<close> forms included.
\<close>

theorem script_decode_encode:
  assumes "\<forall>it \<in> set its. valid_item it" and "length (script_of its) < 2 ^ 32"
  shows "instructions (script_of its) = Some (map item_instruction its)"
  using assms
proof (induction its)
  case Nil
  show ?case by (simp add: instructions.simps)
next
  case (Cons it its)
  show ?case
  proof (cases it)
    case (Opcode opc)
    with Cons.prems have "GetOp2 (script_of (it # its)) = (True, opc, [], script_of its)"
      using GetOp2_opcode [of opc "script_of its"] by (simp del: GetOp2.simps)
    from instructions_step [OF this] Cons Opcode show ?thesis by simp
  next
    case (Pushdata b)
    with Cons.prems have "length b + length (script_of its) < 2 ^ 32"
      using push_data_length [of b] by simp
    from instructions_step [OF GetOp2_push_data [OF this]] Cons Pushdata show ?thesis by simp
  qed
qed

theorem script_decode_encode_witness:
  "instructions (script_of [Opcode OP_DUP, Pushdata (replicate 300 7), Pushdata [], Opcode OP_CHECKSIG]) =
     Some [(OP_DUP, []), (OP_PUSHDATA2, replicate 300 7), (OP_0, []), (OP_CHECKSIG, [])]"
  (is "instructions (script_of ?its) = _")
proof -
  have "\<forall>it \<in> set ?its. valid_item it" by simp
  moreover have "length (script_of ?its) < 2 ^ 32" by (simp add: push_data_def)
  ultimately have "instructions (script_of ?its) = Some (map item_instruction ?its)"
    by (rule script_decode_encode)
  also have "map item_instruction ?its =
      [(OP_DUP, []), (OP_PUSHDATA2, replicate 300 7), (OP_0, []), (OP_CHECKSIG, [])]"
    by (simp add: push_opcode_of_def)
  finally show ?thesis .
qed

text \<open>
  The instruction grammar: the bytes before the data of an instruction with opcode \<open>opc\<close> that carries \<open>n\<close>
  bytes of data.
\<close>

definition instr_header :: "opcodetype \<Rightarrow> nat \<Rightarrow> byte list" where
  "instr_header opc n = of_nat opc #
     (if opc = OP_PUSHDATA1 then le_encode 1 n else if opc = OP_PUSHDATA2 then le_encode 2 n
      else if opc = OP_PUSHDATA4 then le_encode 4 n else [])"

definition data_fits :: "opcodetype \<Rightarrow> nat \<Rightarrow> bool" where
  "data_fits opc n \<longleftrightarrow>
     (if opc < OP_PUSHDATA1 then n = opc else if opc = OP_PUSHDATA1 then n < 2 ^ 8
      else if opc = OP_PUSHDATA2 then n < 2 ^ 16 else if opc = OP_PUSHDATA4 then n < 2 ^ 32 else n = 0)"

lemma le_decode_take: "k \<le> length pc \<Longrightarrow> le_encode k (le_decode (take k pc)) = take k pc \<and> le_decode (take k pc) < 256 ^ k"
  using le_encode_decode [of "take k pc"] le_decode_lt [of "take k pc"] by (simp add: min_absorb2)

lemma read_push_size_header:
  assumes "read_push_size opc pc = Some (n, pc')" "opc \<le> OP_PUSHDATA4"
  shows "of_nat opc # pc = instr_header opc n @ pc' \<and> data_fits opc n"
proof (cases "opc = OP_PUSHDATA1")
  case True
  then show ?thesis using assms(1) by (cases pc) (auto simp: read_push_size_def instr_header_def data_fits_def)
next
  case False
  then show ?thesis
    using assms le_decode_take [of 2 pc] le_decode_take [of 4 pc]
    by (auto simp: read_push_size_def instr_header_def data_fits_def not_less split: if_splits)
qed

lemma read_push_size_of_header:
  assumes "data_fits opc n" "opc \<le> OP_PUSHDATA4" "of_nat opc # pc = instr_header opc n @ pc'"
  shows "read_push_size opc pc = Some (n, pc')"
  using assms by (auto simp: read_push_size_def instr_header_def data_fits_def le_decode_encode unat_of_nat_byte split: if_splits)

lemma GetOp2_grammar:
  assumes "length pc < 2 ^ 32"
  shows "GetOp2 pc = (True, opc, vch, pc') \<longleftrightarrow>
    opc < 256 \<and> data_fits opc (length vch) \<and> pc = instr_header opc (length vch) @ vch @ pc'"
proof
  assume g: "GetOp2 pc = (True, opc, vch, pc')"
  obtain b pc0 where pc: "pc = b # pc0" using g by (cases pc) auto
  have opc: "opc = unat b" "opc < 256" "of_nat opc = b" using g pc GetOp2_opcode_lt [OF g]
    by (auto simp: Let_def split: option.splits if_splits)
  show "opc < 256 \<and> data_fits opc (length vch) \<and> pc = instr_header opc (length vch) @ vch @ pc'"
  proof (cases "opc \<le> OP_PUSHDATA4")
    case True
    with g pc opc obtain n pc1 where r: "read_push_size opc pc0 = Some (n, pc1)"
      "\<not> length pc1 mod 2 ^ 32 < n" "vch = take n pc1" "pc' = drop n pc1"
      by (auto simp: Let_def split: option.splits if_splits)
    have "n \<le> length pc1" using r(2) mod_less_eq_dividend [of "length pc1" "2 ^ 32"] by linarith
    then show ?thesis using read_push_size_header [OF r(1) True] r(3,4) opc pc by simp
  qed (use g pc opc in \<open>auto simp: Let_def instr_header_def data_fits_def\<close>)
next
  assume a: "opc < 256 \<and> data_fits opc (length vch) \<and> pc = instr_header opc (length vch) @ vch @ pc'"
  then obtain pc0 where pc: "pc = of_nat opc # pc0" by (auto simp: instr_header_def)
  have opc: "unat (of_nat opc :: byte) = opc" using a by (simp add: unat_of_nat_byte)
  show "GetOp2 pc = (True, opc, vch, pc')"
  proof (cases "opc \<le> OP_PUSHDATA4")
    case True
    have "read_push_size opc pc0 = Some (length vch, vch @ pc')"
      using a pc by (intro read_push_size_of_header [OF _ True]) auto
    moreover have "length (vch @ pc') < 2 ^ 32" using assms a by simp
    ultimately show ?thesis using True pc opc by (simp add: Let_def)
  qed (use a pc opc in \<open>auto simp: Let_def instr_header_def data_fits_def\<close>)
qed

text \<open>
  C18: \<open>GetOp\<close> is the decoder of the instruction grammar. It succeeds exactly when the bytes at the iterator
  are the header of an opcode, a length of one, two or four bytes for the \<open>PUSHDATA\<close> forms, and then as many
  data bytes as announced; it returns that opcode, exactly that data, and the iterator behind it. When
  the script is cut off inside the header or the data it fails, with \<open>OP_INVALIDOPCODE\<close> and no data.
\<close>

theorem getop_decodes_grammar:
  assumes "length pc < 2 ^ 32"
  shows "(GetOp2 pc = (True, opc, vch, pc') \<longleftrightarrow>
      opc < 256 \<and> data_fits opc (length vch) \<and> pc = instr_header opc (length vch) @ vch @ pc') \<and>
    ((\<nexists>opc vch rest. opc < 256 \<and> data_fits opc (length vch) \<and> pc = instr_header opc (length vch) @ vch @ rest) \<longrightarrow>
      (\<exists>rest. GetOp2 pc = (False, OP_INVALIDOPCODE, [], rest)))"
proof -
  obtain ok o' v' r' where g: "GetOp2 pc = (ok, o', v', r')" by (metis prod_cases4)
  have "\<not> ok \<Longrightarrow> o' = OP_INVALIDOPCODE \<and> v' = []"
    using g by (cases pc) (auto simp: Let_def split: option.splits if_splits)
  moreover have "ok \<Longrightarrow> o' < 256 \<and> data_fits o' (length v') \<and> pc = instr_header o' (length v') @ v' @ r'"
    using GetOp2_grammar [OF assms, of o' v' r'] g by simp
  ultimately show ?thesis using GetOp2_grammar [OF assms, of opc vch pc'] g by (cases ok) auto
qed

theorem getop_decodes_grammar_witness:
  "(\<exists>rest. GetOp2 [0x4c, 3, 5, 6] = (False, OP_INVALIDOPCODE, [], rest)) \<and>
   GetOp2 [0x4c, 2, 5, 6, 0xac] = (True, OP_PUSHDATA1, [5, 6], [0xac])"
proof
  have "\<nexists>opc vch rest. opc < 256 \<and> data_fits opc (length vch) \<and>
      [0x4c, 3, 5, 6] = instr_header opc (length vch) @ vch @ (rest :: byte list)"
  proof (intro notI, elim exE conjE)
    fix opc vch and rest :: "byte list"
    assume a: "opc < 256" "data_fits opc (length vch)" "[0x4c, 3, 5, 6] = instr_header opc (length vch) @ vch @ rest"
    then have "(of_nat opc :: byte) = 0x4c" by (simp add: instr_header_def)
    then have "unat (of_nat opc :: byte) = 0x4c" by simp
    then have "opc = 0x4c" using a(1) by (simp add: unat_of_nat_byte)
    then show False using a(2,3) by (auto simp: instr_header_def data_fits_def Cons_eq_append_conv)
  qed
  then show "\<exists>rest. GetOp2 [0x4c, 3, 5, 6] = (False, OP_INVALIDOPCODE, [], rest)"
    using getop_decodes_grammar [of "[0x4c, 3, 5, 6]"] by simp
  show "GetOp2 [0x4c, 2, 5, 6, 0xac] = (True, OP_PUSHDATA1, [5, 6], [0xac])"
    using getop_decodes_grammar [of "[0x4c, 2, 5, 6, 0xac]" OP_PUSHDATA1 "[5, 6]" "[0xac]"]
    by (simp add: instr_header_def data_fits_def)
qed

text \<open>
  \<open>FindAndDelete\<close> removes exactly the copies it counts: the script shrinks by the length of the
  needle for each of them, and a count of zero means the script is unchanged.
\<close>

theorem find_and_delete_counts:
  "length script = fst (FindAndDelete script b) * length b + length (snd (FindAndDelete script b)) \<and>
   (fst (FindAndDelete script b) = 0 \<longrightarrow> snd (FindAndDelete script b) = script)"
proof (cases "b = []")
  case True
  then show ?thesis by (simp add: FindAndDelete_def)
next
  case False
  have "find_and_delete_loop b script = (fst (FindAndDelete script b), snd (FindAndDelete script b))"
    using False by (simp add: FindAndDelete_def)
  from find_and_delete_loop_correct [OF this] show ?thesis .
qed

theorem find_and_delete_counts_witness:
  "FindAndDelete [0x51, 2, 7, 7, 0xac] [2, 7, 7] = (1, [0x51, 0xac]) \<and>
   length ([0x51, 2, 7, 7, 0xac] :: byte list) = 1 * 3 + 2 \<and>
   snd (FindAndDelete [0x51, 2, 7, 7, 0xac] [9]) = [0x51, 2, 7, 7, 0xac]"
proof -
  have "FindAndDelete [0x51, 2, 7, 7, 0xac] [2, 7, 7] = (1, [0x51, 0xac])"
    "fst (FindAndDelete [0x51, 2, 7, 7, 0xac] [9]) = 0"
    by (simp_all add: FindAndDelete_def find_and_delete_loop.simps erase_copies.simps read_push_size_def)
  moreover from this(2) have "snd (FindAndDelete [0x51, 2, 7, 7, 0xac] [9]) = [0x51, 2, 7, 7, 0xac]"
    using find_and_delete_counts [of "[0x51, 2, 7, 7, 0xac]" "[9]"] by blast
  ultimately show ?thesis by simp
qed

text \<open>
  \<open>GetSigOpCount\<close> counts exactly the signature operations of the part of the script that decodes, modulo the
  width of its counter. As long as the counter cannot wrap, the accurate count is at most the conservative
  one. For a script hash output the operations of the last push of the input are counted.
\<close>

theorem sigop_count_exact:
  assumes "20 * length script < 2 ^ 32"
  shows "GetSigOpCount script fAccurate = of_nat (sigop_total fAccurate (opcodes_of script)) \<and>
    unat (GetSigOpCount script fAccurate) = sigop_total fAccurate (opcodes_of script) \<and>
    GetSigOpCount script True \<le> GetSigOpCount script False"
proof -
  have c: "GetSigOpCount script f = of_nat (sigop_total f (opcodes_of script))" for f
    using sigops_from_total [of f "[]" script] by (simp add: GetSigOpCount_def sigop_total_def [of f "[]"])
  have "sigop_total f (opcodes_of script) < 2 ^ 32" for f
    using sigop_total_le(1) [of f "opcodes_of script"] length_opcodes_of [of script] assms by linarith
  then have u: "unat (GetSigOpCount script f) = sigop_total f (opcodes_of script)" for f
    unfolding c unsigned_of_nat by (simp add: take_bit_nat_eq_self)
  then show ?thesis using c sigop_total_le(2) by (simp add: word_le_nat_alt)
qed

theorem sigop_count_exact_witness:
  "GetSigOpCount [0x52, 0xae, 0xac] True = 3 \<and> GetSigOpCount [0x52, 0xae, 0xac] True \<le> GetSigOpCount [0x52, 0xae, 0xac] False"
proof -
  have "opcodes_of [0x52, 0xae, 0xac] = [0x52, 0xae] @ [0xac]" by (simp add: opcodes_of.simps)
  moreover have "sigop_total True ([0x52, 0xae] @ [0xac]) = 3"
    using sigop_total_snoc [of True "[0x52]" "0xae"] sigop_total_snoc [of True "[]" "0x52"] sigop_total_snoc [of True "[0x52, 0xae]" "0xac"]
    by (simp add: op_sigops_def sigop_total_def [of _ "[]"])
  ultimately show ?thesis using sigop_count_exact [of "[0x52, 0xae, 0xac]" True] by auto
qed

end
