(* ===== verification/SigEncoding.thy ===== *)
theory SigEncoding
  imports Script
begin

text \<open>
  The error codes of \<open>src/src/script/script_error.h\<close>, the verification flags of \<open>interpreter.h\<close>, and the
  encoding checks at the top of \<open>interpreter.cpp\<close>: truth values, public keys, DER signatures, hash
  types and minimal pushes. The DER check reads the signature by index; a read outside it is the
  outcome \<open>Abort\<close>, and the check is proved to be exactly the grammar in its comment.
\<close>

section \<open>Error codes and flags\<close>

datatype ScriptError =
    SCRIPT_ERR_OK
  | SCRIPT_ERR_UNKNOWN_ERROR
  | SCRIPT_ERR_EVAL_FALSE
  | SCRIPT_ERR_OP_RETURN
  | SCRIPT_ERR_SCRIPT_SIZE
  | SCRIPT_ERR_PUSH_SIZE
  | SCRIPT_ERR_OP_COUNT
  | SCRIPT_ERR_STACK_SIZE
  | SCRIPT_ERR_SIG_COUNT
  | SCRIPT_ERR_PUBKEY_COUNT
  | SCRIPT_ERR_VERIFY
  | SCRIPT_ERR_EQUALVERIFY
  | SCRIPT_ERR_CHECKMULTISIGVERIFY
  | SCRIPT_ERR_CHECKSIGVERIFY
  | SCRIPT_ERR_NUMEQUALVERIFY
  | SCRIPT_ERR_BAD_OPCODE
  | SCRIPT_ERR_DISABLED_OPCODE
  | SCRIPT_ERR_INVALID_STACK_OPERATION
  | SCRIPT_ERR_INVALID_ALTSTACK_OPERATION
  | SCRIPT_ERR_UNBALANCED_CONDITIONAL
  | SCRIPT_ERR_SIG_HASHTYPE
  | SCRIPT_ERR_SIG_DER
  | SCRIPT_ERR_MINIMALDATA
  | SCRIPT_ERR_SIG_PUSHONLY
  | SCRIPT_ERR_SIG_HIGH_S
  | SCRIPT_ERR_SIG_NULLDUMMY
  | SCRIPT_ERR_PUBKEYTYPE
  | SCRIPT_ERR_DISCOURAGE_UPGRADABLE_NOPS
  | SCRIPT_ERR_ERROR_COUNT

definition ScriptErrorString :: "ScriptError \<Rightarrow> string" where
  "ScriptErrorString serror =
     (case serror of
        SCRIPT_ERR_OK \<Rightarrow> ''No error''
      | SCRIPT_ERR_EVAL_FALSE \<Rightarrow>
          ''Script evaluated without error but finished with a false/empty top stack element''
      | SCRIPT_ERR_VERIFY \<Rightarrow> ''Script failed an OP_VERIFY operation''
      | SCRIPT_ERR_EQUALVERIFY \<Rightarrow> ''Script failed an OP_EQUALVERIFY operation''
      | SCRIPT_ERR_CHECKMULTISIGVERIFY \<Rightarrow> ''Script failed an OP_CHECKMULTISIGVERIFY operation''
      | SCRIPT_ERR_CHECKSIGVERIFY \<Rightarrow> ''Script failed an OP_CHECKSIGVERIFY operation''
      | SCRIPT_ERR_NUMEQUALVERIFY \<Rightarrow> ''Script failed an OP_NUMEQUALVERIFY operation''
      | SCRIPT_ERR_SCRIPT_SIZE \<Rightarrow> ''Script is too big''
      | SCRIPT_ERR_PUSH_SIZE \<Rightarrow> ''Push value size limit exceeded''
      | SCRIPT_ERR_OP_COUNT \<Rightarrow> ''Operation limit exceeded''
      | SCRIPT_ERR_STACK_SIZE \<Rightarrow> ''Stack size limit exceeded''
      | SCRIPT_ERR_SIG_COUNT \<Rightarrow> ''Signature count negative or greater than pubkey count''
      | SCRIPT_ERR_PUBKEY_COUNT \<Rightarrow> ''Pubkey count negative or limit exceeded''
      | SCRIPT_ERR_BAD_OPCODE \<Rightarrow> ''Opcode missing or not understood''
      | SCRIPT_ERR_DISABLED_OPCODE \<Rightarrow> ''Attempted to use a disabled opcode''
      | SCRIPT_ERR_INVALID_STACK_OPERATION \<Rightarrow> ''Operation not valid with the current stack size''
      | SCRIPT_ERR_INVALID_ALTSTACK_OPERATION \<Rightarrow> ''Operation not valid with the current altstack size''
      | SCRIPT_ERR_OP_RETURN \<Rightarrow> ''OP_RETURN was encountered''
      | SCRIPT_ERR_UNBALANCED_CONDITIONAL \<Rightarrow> ''Invalid OP_IF construction''
      | SCRIPT_ERR_SIG_HASHTYPE \<Rightarrow> ''Signature hash type missing or not understood''
      | SCRIPT_ERR_SIG_DER \<Rightarrow> ''Non-canonical DER signature''
      | SCRIPT_ERR_MINIMALDATA \<Rightarrow> ''Data push larger than necessary''
      | SCRIPT_ERR_SIG_PUSHONLY \<Rightarrow> ''Only non-push operators allowed in signatures''
      | SCRIPT_ERR_SIG_HIGH_S \<Rightarrow> ''Non-canonical signature: S value is unnecessarily high''
      | SCRIPT_ERR_SIG_NULLDUMMY \<Rightarrow> ''Dummy CHECKMULTISIG argument must be zero''
      | SCRIPT_ERR_DISCOURAGE_UPGRADABLE_NOPS \<Rightarrow> ''NOPx reserved for soft-fork upgrades''
      | SCRIPT_ERR_PUBKEYTYPE \<Rightarrow> ''Public key is neither compressed or uncompressed''
      | SCRIPT_ERR_UNKNOWN_ERROR \<Rightarrow> ''unknown error''
      | SCRIPT_ERR_ERROR_COUNT \<Rightarrow> ''unknown error'')"

abbreviation (input) SIGHASH_ALL :: byte where "SIGHASH_ALL \<equiv> 1"
abbreviation (input) SIGHASH_NONE :: byte where "SIGHASH_NONE \<equiv> 2"
abbreviation (input) SIGHASH_SINGLE :: byte where "SIGHASH_SINGLE \<equiv> 3"
abbreviation (input) SIGHASH_ANYONECANPAY :: byte where "SIGHASH_ANYONECANPAY \<equiv> 0x80"

definition SCRIPT_VERIFY_NONE :: uint32 where "SCRIPT_VERIFY_NONE = 0"
definition SCRIPT_VERIFY_P2SH :: uint32 where "SCRIPT_VERIFY_P2SH = push_bit 0 1"
definition SCRIPT_VERIFY_STRICTENC :: uint32 where "SCRIPT_VERIFY_STRICTENC = push_bit 1 1"
definition SCRIPT_VERIFY_DERSIG :: uint32 where "SCRIPT_VERIFY_DERSIG = push_bit 2 1"
definition SCRIPT_VERIFY_LOW_S :: uint32 where "SCRIPT_VERIFY_LOW_S = push_bit 3 1"
definition SCRIPT_VERIFY_NULLDUMMY :: uint32 where "SCRIPT_VERIFY_NULLDUMMY = push_bit 4 1"
definition SCRIPT_VERIFY_SIGPUSHONLY :: uint32 where "SCRIPT_VERIFY_SIGPUSHONLY = push_bit 5 1"
definition SCRIPT_VERIFY_MINIMALDATA :: uint32 where "SCRIPT_VERIFY_MINIMALDATA = push_bit 6 1"
definition SCRIPT_VERIFY_DISCOURAGE_UPGRADABLE_NOPS :: uint32 where
  "SCRIPT_VERIFY_DISCOURAGE_UPGRADABLE_NOPS = push_bit 7 1"

lemmas flag_defs = SCRIPT_VERIFY_NONE_def SCRIPT_VERIFY_P2SH_def SCRIPT_VERIFY_STRICTENC_def
  SCRIPT_VERIFY_DERSIG_def SCRIPT_VERIFY_LOW_S_def SCRIPT_VERIFY_NULLDUMMY_def
  SCRIPT_VERIFY_SIGPUSHONLY_def SCRIPT_VERIFY_MINIMALDATA_def
  SCRIPT_VERIFY_DISCOURAGE_UPGRADABLE_NOPS_def

section \<open>The checks\<close>

fun CastToBool :: "valtype \<Rightarrow> bool" where
  "CastToBool [] = False"
| "CastToBool (b # vch) =
     (if b \<noteq> 0 then \<not> (vch = [] \<and> b = 0x80) else CastToBool vch)"

definition IsCompressedOrUncompressedPubKey :: "valtype \<Rightarrow> bool" where
  "IsCompressedOrUncompressedPubKey vchPubKey =
     (if length vchPubKey < 33 then False
      else if vchPubKey ! 0 = 0x04 then
        (if length vchPubKey \<noteq> 65 then False else True)
      else if vchPubKey ! 0 = 0x02 \<or> vchPubKey ! 0 = 0x03 then
        (if length vchPubKey \<noteq> 33 then False else True)
      else False)"

text \<open>
  A read \<open>sig[i]\<close> of a vector without a bounds check. The two reads behind a \<open>&&\<close> are done
  unconditionally below; both are always inside the signature.
\<close>

definition raw_read :: "valtype \<Rightarrow> nat \<Rightarrow> (byte \<Rightarrow> ('e, 'a) outcome) \<Rightarrow> ('e, 'a) outcome" where
  "raw_read sig i f = (if i < length sig then f (sig ! i) else Abort)"

definition IsValidSignatureEncoding :: "valtype \<Rightarrow> ('e, bool) outcome" where
  "IsValidSignatureEncoding sig =
     (if length sig < 9 then Ok False
      else if length sig > 73 then Ok False
      else raw_read sig 0 (\<lambda>b0. if b0 \<noteq> 0x30 then Ok False
      else raw_read sig 1 (\<lambda>b1. if unat b1 \<noteq> length sig - 3 then Ok False
      else raw_read sig 3 (\<lambda>b3. let lenR = unat b3 in if 5 + lenR \<ge> length sig then Ok False
      else raw_read sig (5 + lenR) (\<lambda>bs. let lenS = unat bs in if lenR + lenS + 7 \<noteq> length sig then Ok False
      else raw_read sig 2 (\<lambda>b2. if b2 \<noteq> 0x02 then Ok False
      else if lenR = 0 then Ok False
      else raw_read sig 4 (\<lambda>b4. if b4 AND 0x80 \<noteq> 0 then Ok False
      else raw_read sig 5 (\<lambda>b5. if lenR > 1 \<and> b4 = 0x00 \<and> \<not> b5 AND 0x80 \<noteq> 0 then Ok False
      else raw_read sig (lenR + 4) (\<lambda>t. if t \<noteq> 0x02 then Ok False
      else if lenS = 0 then Ok False
      else raw_read sig (lenR + 6) (\<lambda>s0. if s0 AND 0x80 \<noteq> 0 then Ok False
      else raw_read sig (lenR + 7) (\<lambda>s1. if lenS > 1 \<and> s0 = 0x00 \<and> \<not> s1 AND 0x80 \<noteq> 0 then Ok False
      else Ok True)))))))))))"

definition IsLowDERSignature :: "(valtype \<Rightarrow> bool) \<Rightarrow> valtype \<Rightarrow> (ScriptError, unit) outcome" where
  "IsLowDERSignature CheckLowS vchSig =
     bindO (IsValidSignatureEncoding vchSig) (\<lambda>valid.
       if \<not> valid then Fail SCRIPT_ERR_SIG_DER
       else let vchSigCopy = take (length vchSig - 1) vchSig
            in if \<not> CheckLowS vchSigCopy then Fail SCRIPT_ERR_SIG_HIGH_S else Ok ())"

definition IsDefinedHashtypeSignature :: "valtype \<Rightarrow> bool" where
  "IsDefinedHashtypeSignature vchSig =
     (if length vchSig = 0 then False
      else let nHashType = vchSig ! (length vchSig - 1) AND NOT SIGHASH_ANYONECANPAY
           in if nHashType < SIGHASH_ALL \<or> nHashType > SIGHASH_SINGLE then False else True)"

text \<open>A false result of the next two always comes with the error code; it is the outcome \<open>Fail\<close>.\<close>

definition CheckSignatureEncoding ::
    "(valtype \<Rightarrow> bool) \<Rightarrow> valtype \<Rightarrow> uint32 \<Rightarrow> (ScriptError, unit) outcome" where
  "CheckSignatureEncoding CheckLowS vchSig flags =
     (if length vchSig = 0 then Ok ()
      else bindO
        (if flags AND (SCRIPT_VERIFY_DERSIG OR SCRIPT_VERIFY_LOW_S OR SCRIPT_VERIFY_STRICTENC) \<noteq> 0
         then IsValidSignatureEncoding vchSig else Ok True) (\<lambda>valid.
        if \<not> valid then Fail SCRIPT_ERR_SIG_DER
        else bindO
          (if flags AND SCRIPT_VERIFY_LOW_S \<noteq> 0 then IsLowDERSignature CheckLowS vchSig else Ok ()) (\<lambda>_.
          if flags AND SCRIPT_VERIFY_STRICTENC \<noteq> 0 \<and> \<not> IsDefinedHashtypeSignature vchSig
          then Fail SCRIPT_ERR_SIG_HASHTYPE else Ok ())))"

definition CheckPubKeyEncoding :: "valtype \<Rightarrow> uint32 \<Rightarrow> (ScriptError, unit) outcome" where
  "CheckPubKeyEncoding vchSig flags =
     (if flags AND SCRIPT_VERIFY_STRICTENC \<noteq> 0 \<and> \<not> IsCompressedOrUncompressedPubKey vchSig
      then Fail SCRIPT_ERR_PUBKEYTYPE else Ok ())"

definition CheckMinimalPush :: "valtype \<Rightarrow> opcodetype \<Rightarrow> bool" where
  "CheckMinimalPush data opcode =
     (if length data = 0 then opcode = OP_0
      else if length data = 1 \<and> data ! 0 \<ge> 1 \<and> data ! 0 \<le> 16 then opcode = OP_1 + (unat (data ! 0) - 1)
      else if length data = 1 \<and> data ! 0 = 0x81 then opcode = OP_1NEGATE
      else if length data \<le> 75 then opcode = length data
      else if length data \<le> 255 then opcode = OP_PUSHDATA1
      else if length data \<le> 65535 then opcode = OP_PUSHDATA2
      else True)"

section \<open>The DER check is its grammar\<close>

text \<open>A positive integer in its shortest big-endian form.\<close>

definition der_integer :: "valtype \<Rightarrow> bool" where
  "der_integer x \<longleftrightarrow> x \<noteq> [] \<and> x ! 0 AND 0x80 = 0 \<and> (length x > 1 \<and> x ! 0 = 0 \<longrightarrow> x ! 1 AND 0x80 \<noteq> 0)"

definition der_signature :: "valtype \<Rightarrow> valtype \<Rightarrow> byte \<Rightarrow> valtype" where
  "der_signature R S hashtype =
     [0x30, of_nat (length R + length S + 4), 0x02, of_nat (length R)] @ R @
     [0x02, of_nat (length S)] @ S @ [hashtype]"

lemma raw_read_ok: "i < length sig \<Longrightarrow> raw_read sig i f = f (sig ! i)"
  by (simp add: raw_read_def)

definition der_checks :: "valtype \<Rightarrow> bool" where
  "der_checks sig \<longleftrightarrow>
     9 \<le> length sig \<and> length sig \<le> 73 \<and> sig ! 0 = 0x30 \<and> unat (sig ! 1) = length sig - 3 \<and>
     5 + unat (sig ! 3) < length sig \<and>
     unat (sig ! 3) + unat (sig ! (5 + unat (sig ! 3))) + 7 = length sig \<and>
     sig ! 2 = 0x02 \<and> unat (sig ! 3) \<noteq> 0 \<and> sig ! 4 AND 0x80 = 0 \<and>
     (unat (sig ! 3) > 1 \<and> sig ! 4 = 0 \<longrightarrow> sig ! 5 AND 0x80 \<noteq> 0) \<and>
     sig ! (unat (sig ! 3) + 4) = 0x02 \<and> unat (sig ! (5 + unat (sig ! 3))) \<noteq> 0 \<and>
     sig ! (unat (sig ! 3) + 6) AND 0x80 = 0 \<and>
     (unat (sig ! (5 + unat (sig ! 3))) > 1 \<and> sig ! (unat (sig ! 3) + 6) = 0 \<longrightarrow>
        sig ! (unat (sig ! 3) + 7) AND 0x80 \<noteq> 0)"

text \<open>Every read of the check is inside the signature.\<close>

lemma IsValidSignatureEncoding_checks: "IsValidSignatureEncoding sig = Ok (der_checks sig)"
  unfolding IsValidSignatureEncoding_def der_checks_def raw_read_def Let_def
  by (simp cong: if_cong)

lemma der_signature_checks:
  assumes "der_integer R" "der_integer S" "length R + length S \<le> 66"
  shows "der_checks (der_signature R S h)"
proof -
  let ?s = "der_signature R S h"
  have len: "length ?s = length R + length S + 7" by (simp add: der_signature_def)
  have R: "R \<noteq> []" and S: "S \<noteq> []" using assms by (auto simp: der_integer_def)
  have l2: "2 \<le> length R + length S" using R S by (cases R; cases S) auto
  have n3: "?s ! 3 = of_nat (length R)" by (simp add: der_signature_def)
  have lR: "unat (?s ! 3) = length R" using assms(3) n3 by (simp add: unat_of_nat_byte)
  have lS: "unat (?s ! (5 + length R)) = length S"
    using assms(3) by (simp add: der_signature_def nth_append unat_of_nat_byte)
  have R0: "?s ! 4 = R ! 0" "length R > 1 \<Longrightarrow> ?s ! 5 = R ! 1"
    using R by (simp_all add: der_signature_def nth_append)
  have S0: "?s ! (length R + 6) = S ! 0" "length S > 1 \<Longrightarrow> ?s ! (length R + 7) = S ! 1"
    using S by (simp_all add: der_signature_def nth_append)
  have t: "?s ! 0 = 0x30" "?s ! 2 = 0x02" "?s ! (length R + 4) = 0x02" "unat (?s ! 1) = length R + length S + 4"
    using assms(3) by (simp_all add: der_signature_def nth_append unat_of_nat_byte del: of_nat_add)
  show ?thesis
    unfolding der_checks_def lR lS len
    using R S R0 S0 t assms l2 by (simp add: der_integer_def)
qed

lemma der_checks_signature:
  assumes "der_checks sig"
  defines "R \<equiv> take (unat (sig ! 3)) (drop 4 sig)"
    and "S \<equiv> take (unat (sig ! (5 + unat (sig ! 3)))) (drop (6 + unat (sig ! 3)) sig)"
  shows "sig = der_signature R S (last sig)" "der_integer R" "der_integer S"
    "length R + length S + 7 = length sig"
proof -
  define r where "r = unat (sig ! 3)"
  define t where "t = unat (sig ! (5 + r))"
  note c = assms(1) [unfolded der_checks_def, folded r_def, folded t_def]
  have len: "length sig = r + t + 7" using c by simp
  have lR: "length R = r" "length S = t" by (simp_all add: R_def S_def len r_def [symmetric] t_def [symmetric])
  then show "length R + length S + 7 = length sig" using len by simp
  have u: "unat (sig ! 1) = r + t + 4" using c len by linarith
  have "of_nat (unat (sig ! 1)) = sig ! 1" by simp
  then have b: "of_nat (r + t + 4) = sig ! 1" by (simp only: u)
  have b': "of_nat r = sig ! 3" "of_nat t = sig ! (5 + r)" by (simp_all add: r_def t_def)
  have R: "R = take r (drop 4 sig)" and S: "S = take t (drop (6 + r) sig)" by (simp_all add: R_def S_def r_def t_def)
  have t4: "take 4 sig = [sig ! 0, sig ! 1, sig ! 2, sig ! 3]"
    using len by (simp add: numeral_eq_Suc take_Suc_conv_app_nth)
  have "sig = take 4 sig @ drop 4 sig" by simp
  also have "drop 4 sig = R @ drop (4 + r) sig" unfolding R by (metis append_take_drop_id drop_drop add.commute)
  also have "drop (4 + r) sig = sig ! (4 + r) # sig ! (5 + r) # drop (6 + r) sig"
    using len Cons_nth_drop_Suc [of "4 + r" sig] Cons_nth_drop_Suc [of "5 + r" sig] by simp
  also have "drop (6 + r) sig = S @ drop (6 + r + t) sig" unfolding S by (metis append_take_drop_id drop_drop add.commute)
  also have "drop (6 + r + t) sig = [last sig]"
  proof -
    have "sig \<noteq> []" "length sig - 1 = 6 + r + t" using len by auto
    then show ?thesis using Cons_nth_drop_Suc [of "6 + r + t" sig] len
      by (simp add: last_conv_nth add.assoc [symmetric])
  qed
  finally show "sig = der_signature R S (last sig)"
    using c b b' lR t4 by (simp add: der_signature_def add.commute)
  have "R \<noteq> []" "S \<noteq> []" using c lR by auto
  moreover have "R ! 0 = sig ! 4" "r > 1 \<Longrightarrow> R ! 1 = sig ! 5" "S ! 0 = sig ! (r + 6)" "t > 1 \<Longrightarrow> S ! 1 = sig ! (r + 7)"
    using c len by (auto simp: R S add.commute)
  ultimately show "der_integer R" "der_integer S"
    using c lR by (simp_all add: der_integer_def)
qed

section \<open>Truth values and numbers\<close>

text \<open>The two readings of a stack element agree: it is true exactly if it is a nonzero number.\<close>

lemma CastToBool_snoc: "CastToBool (v @ [b]) \<longleftrightarrow> (\<exists>x \<in> set v. x \<noteq> 0) \<or> (b \<noteq> 0 \<and> b \<noteq> 0x80)"
  by (induction v) auto

lemma le_decode_eq_0: "le_decode bs = 0 \<longleftrightarrow> (\<forall>x \<in> set bs. x = 0)"
  by (induction bs) (auto simp: unat_eq_zero)

lemma byte_mod_128: "unat (b :: byte) mod 128 = 0 \<longleftrightarrow> b = 0 \<or> b = 0x80"
proof
  assume m: "unat b mod 128 = 0"
  consider "unat b < 128" | "128 \<le> unat b" "unat b - 128 < 128"
    using unat_byte_lt [of b] by linarith
  then have "unat b = 0 \<or> unat b = 128"
    using m by cases (auto simp: le_mod_geq)
  then show "b = 0 \<or> b = 0x80" by (auto simp: word_unat_eq_iff)
qed auto

lemma CastToBool_set_vch: "CastToBool v \<longleftrightarrow> set_vch v \<noteq> 0"
proof (cases v rule: rev_cases)
  case Nil
  then show ?thesis by (simp add: set_vch_def)
next
  case (snoc bs b)
  have "set_vch v = 0 \<longleftrightarrow> le_decode bs + 256 ^ length bs * (unat b mod 128) = 0"
    unfolding snoc set_vch_snoc Let_def by (simp del: of_nat_add of_nat_mult)
  also have "\<dots> \<longleftrightarrow> le_decode bs = 0 \<and> unat b mod 128 = 0" by simp
  finally show ?thesis unfolding snoc CastToBool_snoc le_decode_eq_0 byte_mod_128 by blast
qed

section \<open>Properties\<close>

text \<open>
  C10: The signature check accepts exactly the signatures its grammar describes:
  \<open>30 len 02 |R| R 02 |S| S hashtype\<close> with \<open>R\<close> and \<open>S\<close> positive integers in shortest form and at most 73
  bytes in all. It returns an answer for every input; no read leaves the signature.
\<close>

theorem signature_encoding_grammar:
  "IsValidSignatureEncoding sig = Ok (\<exists>R S hashtype. sig = der_signature R S hashtype \<and>
     der_integer R \<and> der_integer S \<and> length sig \<le> 73)"
proof -
  have "der_checks sig \<longleftrightarrow> (\<exists>R S hashtype. sig = der_signature R S hashtype \<and>
     der_integer R \<and> der_integer S \<and> length sig \<le> 73)" (is "_ \<longleftrightarrow> ?G")
  proof
    assume d: "der_checks sig"
    then have "length sig \<le> 73" by (simp add: der_checks_def)
    with der_checks_signature [OF d] show ?G by blast
  next
    assume ?G
    then obtain R S h where "sig = der_signature R S h" "der_integer R" "der_integer S" "length sig \<le> 73" by blast
    then show "der_checks sig" using der_signature_checks [of R S h] by (simp add: der_signature_def)
  qed
  then show ?thesis by (simp add: IsValidSignatureEncoding_checks)
qed

end
