(* ===== verification/BlockHash.thy ===== *)
theory BlockHash
  imports Prelude
begin

text \<open>
  The part the hash classes of \<open>src/src/crypto\<close> (\<open>CSHA1\<close>, \<open>CSHA256\<close>, \<open>CSHA512\<close>, \<open>CRIPEMD160\<close>) have in
  common: a chaining state, a block buffer and a byte counter, \<open>Write\<close> with its buffering, and the
  padding \<open>Finalize\<close> appends. The four classes repeat the same code with their own block size, block
  transformation and length field, which are parameters here. The locale \<open>block_hash\<close> states what
  these parameters must satisfy; inside it the buffering is proved equal to cutting the whole
  message into blocks. Each class theory interprets it.
\<close>

section \<open>Byte order (\<open>crypto/common.h\<close>)\<close>

definition ReadLE32 :: "byte list \<Rightarrow> nat \<Rightarrow> uint32" where
  "ReadLE32 p off = of_nat (le_decode (take 4 (drop off p)))"

definition ReadBE32 :: "byte list \<Rightarrow> nat \<Rightarrow> uint32" where
  "ReadBE32 p off = of_nat (be_decode (take 4 (drop off p)))"

definition ReadBE64 :: "byte list \<Rightarrow> nat \<Rightarrow> uint64" where
  "ReadBE64 p off = of_nat (be_decode (take 8 (drop off p)))"

definition WriteLE32 :: "uint32 \<Rightarrow> byte list" where
  "WriteLE32 x = le_encode 4 (unat x)"

definition WriteLE64 :: "uint64 \<Rightarrow> byte list" where
  "WriteLE64 x = le_encode 8 (unat x)"

definition WriteBE32 :: "uint32 \<Rightarrow> byte list" where
  "WriteBE32 x = be_encode 4 (unat x)"

definition WriteBE64 :: "uint64 \<Rightarrow> byte list" where
  "WriteBE64 x = be_encode 8 (unat x)"

text \<open>
  The initial value that the standards of SHA-1 and RIPEMD-160 took over from MD4: in memory, with the low-order
  byte of each word first, the bytes count up and down in hexadecimal.
\<close>

definition md4_initial :: "uint32 list" where
  "md4_initial = map (\<lambda>b. of_nat (le_decode b))
     [[0x01, 0x23, 0x45, 0x67], [0x89, 0xab, 0xcd, 0xef], [0xfe, 0xdc, 0xba, 0x98], [0x76, 0x54, 0x32, 0x10],
      [0xf0, 0xe1, 0xd2, 0xc3]]"

lemma length_Write [simp]:
  "length (WriteLE32 x) = 4" "length (WriteLE64 y) = 8"
  "length (WriteBE32 x) = 4" "length (WriteBE64 y) = 8"
  by (simp_all add: WriteLE32_def WriteLE64_def WriteBE32_def WriteBE64_def)

section \<open>Hasher objects\<close>

record 's hasher =
  hs :: 's
  hbuf :: "byte list"
  hbytes :: uint64

definition memcpy :: "byte list \<Rightarrow> nat \<Rightarrow> byte list \<Rightarrow> byte list" where
  "memcpy dst off src = take off dst @ src @ drop (off + length src) dst"

text \<open>The loop over full chunks; \<open>B\<close> is the block size of the class, 64 or 128.\<close>

function write_chunks :: "nat \<Rightarrow> ('s \<Rightarrow> byte list \<Rightarrow> 's) \<Rightarrow> 's hasher \<Rightarrow> byte list \<Rightarrow> 's hasher \<times> byte list" where
  "write_chunks B Transform h data =
     (if 0 < B \<and> length data \<ge> B
      then write_chunks B Transform
             (h\<lparr>hs := Transform (hs h) (take B data), hbytes := hbytes h + of_nat B\<rparr>) (drop B data)
      else (h, data))"
  by pat_completeness auto
termination
  by (relation "measure (\<lambda>(B, T, h, data). length data)") auto

declare write_chunks.simps [simp del]

definition hasher_Write :: "nat \<Rightarrow> ('s \<Rightarrow> byte list \<Rightarrow> 's) \<Rightarrow> 's hasher \<Rightarrow> byte list \<Rightarrow> 's hasher" where
  "hasher_Write B Transform h data =
     (let len = length data;
          bufsize = unat (hbytes h) mod B;
          (h, data, bufsize) =
            (if bufsize \<noteq> 0 \<and> bufsize + len \<ge> B
             then let buf = memcpy (hbuf h) bufsize (take (B - bufsize) data)
                  in (h\<lparr>hbuf := buf, hbytes := hbytes h + of_nat (B - bufsize),
                       hs := Transform (hs h) buf\<rparr>, drop (B - bufsize) data, 0)
             else (h, data, bufsize));
          (h, data) = write_chunks B Transform h data
      in if length data > 0
         then h\<lparr>hbuf := memcpy (hbuf h) bufsize data, hbytes := hbytes h + of_nat (length data)\<rparr>
         else h)"

text \<open>
  The padding of \<open>Finalize\<close>: \<open>sizedesc\<close> writes the bit count, \<open>padc\<close> is the constant of the class (119
  or 239). The result is the object whose chaining state the digest is read from.
\<close>

definition hasher_Finalize ::
    "nat \<Rightarrow> ('s \<Rightarrow> byte list \<Rightarrow> 's) \<Rightarrow> nat \<Rightarrow> (uint64 \<Rightarrow> byte list) \<Rightarrow> 's hasher \<Rightarrow> 's hasher" where
  "hasher_Finalize B Transform padc sizedesc h =
     (let pad = 0x80 # replicate (B - 1) 0;
          sz = sizedesc (push_bit 3 (hbytes h));
          h = hasher_Write B Transform h (take (1 + (padc - unat (hbytes h) mod B) mod B) pad);
          h = hasher_Write B Transform h sz
      in h)"

section \<open>Cutting a message into blocks\<close>

function chunks :: "nat \<Rightarrow> 'a list \<Rightarrow> 'a list list" where
  "chunks B xs = (if 0 < B \<and> length xs \<ge> B then take B xs # chunks B (drop B xs) else [])"
  by pat_completeness auto
termination
  by (relation "measure (\<lambda>(B, xs). length xs)") auto

declare chunks.simps [simp del]

lemma chunks_short [simp]: "length xs < B \<Longrightarrow> chunks B xs = []"
  by (simp add: chunks.simps)

lemma chunks_block: "0 < B \<Longrightarrow> length b = B \<Longrightarrow> chunks B (b @ ys) = b # chunks B ys"
  by (subst chunks.simps) simp

lemma chunks_append:
  "0 < B \<Longrightarrow> length xs mod B = 0 \<Longrightarrow> chunks B (xs @ ys) = chunks B xs @ chunks B ys"
proof (induction B xs rule: chunks.induct)
  case (1 B xs)
  show ?case
  proof (cases "length xs \<ge> B")
    case True
    have m: "length (drop B xs) mod B = 0" using 1 True by (simp add: le_mod_geq)
    have "chunks B (xs @ ys) = chunks B (take B xs @ (drop B xs @ ys))"
      by (metis append_assoc append_take_drop_id)
    also have "\<dots> = take B xs # chunks B (drop B xs @ ys)"
      using 1 True by (intro chunks_block) auto
    also have "\<dots> = take B xs # chunks B (drop B xs) @ chunks B ys"
      using 1 True m by auto
    also have "\<dots> = chunks B xs @ chunks B ys"
      using 1 True by (simp add: chunks.simps [of B xs])
    finally show ?thesis .
  next
    case False
    with "1.prems" have "xs = []" by auto
    with "1.prems" show ?thesis by simp
  qed
qed

text \<open>The complete blocks of a message, and the tail that is still in the buffer.\<close>

definition full_part :: "nat \<Rightarrow> 'a list \<Rightarrow> 'a list" where
  "full_part B xs = take (length xs - length xs mod B) xs"

definition tail_part :: "nat \<Rightarrow> 'a list \<Rightarrow> 'a list" where
  "tail_part B xs = drop (length xs - length xs mod B) xs"

lemma full_tail: "full_part B xs @ tail_part B xs = xs"
  by (simp add: full_part_def tail_part_def)

lemma length_tail [simp]: "length (tail_part B xs) = length xs mod B"
  by (simp add: tail_part_def)

lemma length_full: "length (full_part B xs) = length xs - length xs mod B"
  by (simp add: full_part_def)

lemma length_full_mod [simp]: "length (full_part B xs) mod B = 0"
  by (simp add: length_full minus_mod_eq_mult_div)

lemma chunks_full: "0 < B \<Longrightarrow> chunks B (full_part B xs) = chunks B xs"
  using chunks_append [of B "full_part B xs" "tail_part B xs"] by (simp add: full_tail)

lemma parts_append:
  assumes "0 < B" "length f mod B = 0" "length t < B"
  shows "full_part B (f @ t) = f" "tail_part B (f @ t) = t"
proof -
  have "(length f + length t) mod B = length t"
    using assms by (metis add.left_neutral mod_add_left_eq mod_less)
  then show "full_part B (f @ t) = f" "tail_part B (f @ t) = t"
    by (simp_all add: full_part_def tail_part_def)
qed

section \<open>Buffering is transparent\<close>

text \<open>
  \<open>absorbed B T iv m h\<close>: the object \<open>h\<close> is in the state it must have after hashing the message \<open>m\<close>
  from the chaining value \<open>iv\<close>: complete blocks are in the chaining state, the tail is at the front
  of the buffer, whatever the bytes behind it are.
\<close>

definition absorbed :: "nat \<Rightarrow> ('s \<Rightarrow> byte list \<Rightarrow> 's) \<Rightarrow> 's \<Rightarrow> byte list \<Rightarrow> 's hasher \<Rightarrow> bool" where
  "absorbed B Transform iv m h \<longleftrightarrow>
     hs h = foldl Transform iv (chunks B m) \<and> hbytes h = of_nat (length m) \<and>
     length (hbuf h) = B \<and> take (length m mod B) (hbuf h) = tail_part B m"

lemma length_memcpy: "off + length src \<le> length dst \<Longrightarrow> length (memcpy dst off src) = length dst"
  by (simp add: memcpy_def)

lemma write_chunks_result:
  "write_chunks B T h data =
     (h\<lparr>hs := foldl T (hs h) (chunks B data), hbytes := hbytes h + of_nat (length (full_part B data))\<rparr>,
      tail_part B data)"
  if "0 < B"
  using that
proof (induction B T h data rule: write_chunks.induct)
  case (1 B T h data)
  show ?case
  proof (cases "length data \<ge> B")
    case True
    let ?d = "drop B data"
    have len: "length (full_part B data) = B + length (full_part B ?d)"
      unfolding length_full length_drop le_mod_geq [OF True]
      using True mod_less_eq_dividend [of "length data - B" B] by linarith
    have d: "data = take B data @ ?d" by simp
    have ch: "chunks B data = take B data # chunks B ?d"
      using True "1.prems" by (subst chunks.simps) simp
    have tl: "tail_part B ?d = tail_part B data"
      using True len by (simp add: tail_part_def length_full add.commute)
    show ?thesis
      unfolding write_chunks.simps [of B T h data] ch len
      using 1 True tl by (simp add: ac_simps)
  next
    case False
    then show ?thesis
      by (subst write_chunks.simps) (simp add: full_part_def tail_part_def)
  qed
qed

locale block_hash =
  fixes B :: nat and Transform :: "'s \<Rightarrow> byte list \<Rightarrow> 's"
  assumes block_pos: "0 < B" and block_dvd: "B dvd 2 ^ 64"
begin

lemma bufsize: "absorbed B Transform iv m h \<Longrightarrow> unat (hbytes h) mod B = length m mod B"
proof -
  assume "absorbed B Transform iv m h"
  then have "unat (hbytes h) = length m mod 2 ^ 64"
    by (simp add: absorbed_def unsigned_of_nat take_bit_eq_mod)
  then show ?thesis using block_dvd by (simp add: mod_mod_cancel)
qed

lemma absorb_aligned:
  assumes a: "absorbed B Transform iv m h" and al: "length m mod B = 0"
  shows "absorbed B Transform iv (m @ d)
    (let (h, d) = write_chunks B Transform h d
     in if length d > 0 then h\<lparr>hbuf := memcpy (hbuf h) 0 d, hbytes := hbytes h + of_nat (length d)\<rparr>
        else h)"
proof -
  have d: "d = full_part B d @ tail_part B d" by (simp add: full_tail)
  have t: "length (tail_part B d) < B" using block_pos by simp
  have f: "length (m @ full_part B d) mod B = 0" using al by (metis length_append length_full_mod mod_add_eq mod_0 add_0)
  have tp: "tail_part B (m @ d) = tail_part B d"
    using parts_append(2) [OF block_pos f t] by (simp add: full_tail)
  have ch: "chunks B (m @ d) = chunks B m @ chunks B d" using block_pos al by (rule chunks_append)
  have lm: "length (m @ d) mod B = length (tail_part B d)"
    using al by (metis length_append length_tail mod_add_left_eq add_0)
  have ld: "length (full_part B d) + length d mod B = length d"
    by (simp add: length_full)
  then have w: "(of_nat (length (full_part B d)) :: uint64) + of_nat (length d mod B) = of_nat (length d)"
    by (metis of_nat_add)
  have w0: "length d mod B = 0 \<Longrightarrow> (of_nat (length (full_part B d)) :: uint64) = of_nat (length d)"
    using ld by simp
  show ?thesis
  proof (cases "length d mod B = 0")
    case True
    then have "tail_part B d = []" by (metis length_tail length_0_conv)
    with True show ?thesis
      using a tp ch lm w0 block_pos by (simp add: absorbed_def write_chunks_result)
  next
    case False
    then have "tail_part B d \<noteq> []" by (metis length_tail list.size(3))
    with a False show ?thesis
      using tp ch lm w t block_pos
      by (simp add: absorbed_def write_chunks_result memcpy_def add.assoc)
  qed
qed

lemma Write_absorbs:
  assumes a: "absorbed B Transform iv m h"
  shows "absorbed B Transform iv (m @ d) (hasher_Write B Transform h d)"
proof -
  let ?r = "length m mod B"
  note bs = bufsize [OF a]
  have r: "?r < B" using block_pos by simp
  consider "?r = 0" | "?r \<noteq> 0" "?r + length d \<ge> B" | "?r \<noteq> 0" "?r + length d < B" by linarith
  then show ?thesis
  proof cases
    case 1
    then show ?thesis using absorb_aligned [OF a, of d] bs
      by (simp add: hasher_Write_def)
  next
    case 2
    let ?d1 = "take (B - ?r) d" and ?d2 = "drop (B - ?r) d"
    let ?b = "memcpy (hbuf h) ?r ?d1"
    let ?h = "h\<lparr>hbuf := ?b, hbytes := hbytes h + of_nat (B - ?r), hs := Transform (hs h) ?b\<rparr>"
    have b: "?b = tail_part B m @ ?d1"
      using a 2 r by (simp add: absorbed_def memcpy_def)
    have m: "m @ ?d1 = full_part B m @ ?b" by (simp add: b full_tail flip: append_assoc)
    have lb: "length ?b = B" using b 2 r by simp
    have al: "length (m @ ?d1) mod B = 0" unfolding m using lb by simp
    have "chunks B (m @ ?d1) = chunks B m @ [?b]"
      unfolding m using chunks_block [OF block_pos lb, of "[]"] block_pos
      by (simp add: chunks_append chunks_full)
    moreover have "length (tail_part B (m @ ?d1)) = 0" by (simp only: length_tail al)
    then have "tail_part B (m @ ?d1) = []" by (simp only: length_0_conv)
    ultimately have "absorbed B Transform iv (m @ ?d1) ?h"
      using a al lb 2 r by (simp add: absorbed_def)
    from absorb_aligned [OF this al, of ?d2] bs 2 show ?thesis
      by (simp add: hasher_Write_def Let_def)
  next
    case 3
    have al: "length (full_part B m) mod B = 0" by simp
    have m: "m @ d = full_part B m @ (tail_part B m @ d)" by (simp add: full_tail flip: append_assoc)
    have t: "length (tail_part B m @ d) < B" using 3 by simp
    have tp: "tail_part B (m @ d) = tail_part B m @ d"
      unfolding m using parts_append(2) [OF block_pos al t] by simp
    have ch: "chunks B (m @ d) = chunks B m"
      unfolding m using t block_pos by (simp add: chunks_append chunks_full)
    have lm: "length (m @ d) mod B = ?r + length d" using tp by (metis length_append length_tail)
    have fd: "full_part B d = []" "tail_part B d = d" using 3 by (simp_all add: full_part_def tail_part_def)
    from a 3 show ?thesis
      using bs tp ch lm fd block_pos
      by (auto simp: absorbed_def hasher_Write_def write_chunks_result memcpy_def)
  qed
qed

end

section \<open>Padding\<close>

text \<open>
  The padded message of the Merkle-Damgard construction: a one bit, as few zero bits as bring the
  length to a multiple of the block with room for the length field, and that field.
\<close>

definition pad_zeros :: "nat \<Rightarrow> nat \<Rightarrow> nat \<Rightarrow> nat" where
  "pad_zeros B L n = (B - (n + 1 + L) mod B) mod B"

definition md_pad :: "nat \<Rightarrow> byte list \<Rightarrow> byte list \<Rightarrow> byte list" where
  "md_pad B field m = m @ [0x80] @ replicate (pad_zeros B (length field) (length m)) 0 @ field"

lemma pad_zeros_aligned: "0 < B \<Longrightarrow> (n + 1 + pad_zeros B L n + L) mod B = 0 \<and> pad_zeros B L n < B"
proof -
  assume B: "0 < B"
  define x where "x = n + 1 + L"
  have "(x + (B - x mod B) mod B) mod B = (x mod B + (B - x mod B)) mod B"
    by (metis mod_add_eq mod_mod_trivial)
  also have "\<dots> = 0" using B mod_less_divisor [OF B, of x] by simp
  finally show ?thesis using B by (simp add: pad_zeros_def x_def ac_simps)
qed

lemma length_md_pad: "0 < B \<Longrightarrow> length (md_pad B field m) mod B = 0"
  using pad_zeros_aligned [of B "length m" "length field"] by (simp add: md_pad_def ac_simps)

locale padded_hash = block_hash +
  fixes padc L :: nat and sizedesc :: "uint64 \<Rightarrow> byte list"
  assumes field_fits: "L < B" and padc_def: "padc = 2 * B - L - 1"
    and field_length: "length (sizedesc x) = L"
begin

lemma pad_count: "(padc - n mod B) mod B = pad_zeros B L n"
proof -
  define x where "x = n mod B + 1 + L"
  have r: "n mod B < B" using block_pos by simp
  have m: "(n + 1 + L) mod B = x mod B"
    by (simp add: x_def mod_add_left_eq add.assoc flip: add_Suc_right)
  have p: "padc - n mod B = 2 * B - x" by (simp add: padc_def x_def)
  have x: "0 < x" "x < 2 * B" unfolding x_def using r field_fits by linarith+
  have "x < B \<or> x mod B = x - B"
    using x le_mod_geq [of B x] mod_less [of "x - B" B] by linarith
  then show ?thesis
  proof
    assume "x < B"
    then have "2 * B - x = (B - x) + B" by simp
    with \<open>x < B\<close> show ?thesis unfolding pad_zeros_def m p by (simp only: mod_add_self2 mod_less)
  next
    assume "x mod B = x - B"
    moreover have "B \<le> x \<or> x mod B = x" using mod_less [of x B] by linarith
    ultimately have "B - x mod B = 2 * B - x" using x by linarith
    then show ?thesis unfolding pad_zeros_def m p by simp
  qed
qed

lemma Finalize_pads:
  assumes a: "absorbed B Transform iv m h"
  shows "absorbed B Transform iv (md_pad B (sizedesc (of_nat (8 * length m))) m)
    (hasher_Finalize B Transform padc sizedesc h)"
proof -
  let ?k = "pad_zeros B L (length m)"
  let ?pad = "0x80 # replicate (B - 1) 0 :: byte list"
  have n: "(padc - unat (hbytes h) mod B) mod B = ?k"
    using bufsize [OF a] pad_count by simp
  have k: "?k < B" using block_pos by (simp add: pad_zeros_def)
  have pad: "take (1 + ?k) ?pad = [0x80] @ replicate ?k 0" using k by (simp add: min_def)
  have sz: "push_bit 3 (hbytes h) = of_nat (8 * length m)"
    using a by (simp add: absorbed_def push_bit_eq_mult)
  have "absorbed B Transform iv (m @ take (1 + ?k) ?pad)
      (hasher_Write B Transform h (take (1 + ?k) ?pad))"
    by (rule Write_absorbs [OF a])
  note w = Write_absorbs [OF this, of "sizedesc (of_nat (8 * length m))"]
  have e: "md_pad B (sizedesc (of_nat (8 * length m))) m =
      (m @ take (1 + ?k) ?pad) @ sizedesc (of_nat (8 * length m))"
    unfolding md_pad_def field_length pad by simp
  show ?thesis
    using w unfolding hasher_Finalize_def Let_def n sz e .
qed

text \<open>Several \<open>Write\<close> calls, then \<open>Finalize\<close>: only the concatenation of the pieces matters.\<close>

lemma Writes_absorb:
  "absorbed B Transform iv m h \<Longrightarrow>
   absorbed B Transform iv (m @ concat ds) (foldl (hasher_Write B Transform) h ds)"
proof (induction ds arbitrary: m h)
  case (Cons d ds)
  from Cons.IH [OF Write_absorbs [OF Cons.prems]] show ?case by simp
qed simp

lemma digest_of_pieces:
  assumes "hs h = iv" "hbytes h = 0" "length (hbuf h) = B"
    and h': "h' = hasher_Finalize B Transform padc sizedesc (foldl (hasher_Write B Transform) h ds)"
  shows "hs h' = foldl Transform iv
      (chunks B (md_pad B (sizedesc (of_nat (8 * length (concat ds)))) (concat ds)))"
    and "length (hbuf h') = B"
proof -
  have "absorbed B Transform iv [] h"
    using assms block_pos by (simp add: absorbed_def tail_part_def)
  from Finalize_pads [OF Writes_absorb [OF this, of ds]]
  show "hs h' = foldl Transform iv
      (chunks B (md_pad B (sizedesc (of_nat (8 * length (concat ds)))) (concat ds)))"
    and "length (hbuf h') = B"
    by (simp_all add: absorbed_def h')
qed

end

section \<open>Digests\<close>

lemma length_foldl_blocks: "(\<And>s b. length (T s b) = n) \<Longrightarrow> length iv = n \<Longrightarrow> length (foldl T iv bs) = n"
  by (induction bs arbitrary: iv) auto

lemma concat_map_5: "length s = 5 \<Longrightarrow> concat (map f s) = f (s ! 0) @ f (s ! 1) @ f (s ! 2) @ f (s ! 3) @ f (s ! 4)"
  by (auto simp: numeral_eq_Suc length_Suc_conv)

lemma concat_map_8:
  "length s = 8 \<Longrightarrow> concat (map f s) =
     f (s ! 0) @ f (s ! 1) @ f (s ! 2) @ f (s ! 3) @ f (s ! 4) @ f (s ! 5) @ f (s ! 6) @ f (s ! 7)"
  by (auto simp: numeral_eq_Suc length_Suc_conv)

lemma le_encode_mod: "le_encode k (n mod 256 ^ k) = le_encode k n"
  by (metis le_decode_encode le_encode_decode length_le_encode)

lemma length_field: "unat (of_nat n :: uint64) = n mod 256 ^ 8"
  by (simp add: unsigned_of_nat take_bit_eq_mod)

lemma WriteBE64_field: "WriteBE64 (of_nat n) = be_encode 8 n"
  by (simp only: WriteBE64_def be_encode_def length_field le_encode_mod)

lemma WriteLE64_field: "WriteLE64 (of_nat n) = le_encode 8 n"
  by (simp only: WriteLE64_def length_field le_encode_mod)

lemma le_encode_add: "le_encode (i + j) n = le_encode i n @ le_encode j (n div 256 ^ i)"
  by (induction i arbitrary: n) (auto simp: div_mult2_eq)

lemma le_encode_zero: "le_encode k 0 = replicate k 0"
  by (induction k) auto

text \<open>The 128-bit length field of SHA-512, whose upper half the code leaves zero.\<close>

lemma wide_field:
  assumes "n < 2 ^ 61"
  shows "replicate 8 0 @ WriteBE64 (of_nat (8 * n)) = be_encode 16 (8 * n)"
proof -
  have "(8 * n) div 256 ^ 8 = 0" using assms by simp
  then have "le_encode (8 + 8) (8 * n) = le_encode 8 (8 * n) @ replicate 8 0"
    by (simp only: le_encode_add le_encode_zero)
  then show ?thesis by (simp only: WriteBE64_field be_encode_def) simp
qed

end
