(* ===== verification/Sha2.thy ===== *)
theory Sha2
  imports BlockHash
begin

text \<open>
  The SHA-2 compression function as FIPS 180-4 writes it, over words of any size: the message
  schedule is a recurrence, the 64 or 80 rounds are a fold. The classes \<open>CSHA256\<close> and \<open>CSHA512\<close> unroll
  both into straight-line code with sixteen schedule variables that are overwritten in place and
  working variables that change roles from line to line. The functions \<open>sha_feed\<close> and \<open>sha_roll\<close> describe that
  unrolled code generically; the lemmas here relate them to the standard's definition.
\<close>

section \<open>The standard's functions\<close>

definition fips_Ch :: "'w::len word \<Rightarrow> 'w word \<Rightarrow> 'w word \<Rightarrow> 'w word" where
  "fips_Ch x y z = (x AND y) XOR (NOT x AND z)"

definition fips_Maj :: "'w::len word \<Rightarrow> 'w word \<Rightarrow> 'w word \<Rightarrow> 'w word" where
  "fips_Maj x y z = (x AND y) XOR (x AND z) XOR (y AND z)"

text \<open>Three rotations, or two rotations and a shift.\<close>

definition fips_Sum :: "nat \<Rightarrow> nat \<Rightarrow> nat \<Rightarrow> 'w::len word \<Rightarrow> 'w word" where
  "fips_Sum i j k x = word_rotr i x XOR word_rotr j x XOR word_rotr k x"

definition fips_sigma :: "nat \<Rightarrow> nat \<Rightarrow> nat \<Rightarrow> 'w::len word \<Rightarrow> 'w word" where
  "fips_sigma i j k x = word_rotr i x XOR word_rotr j x XOR drop_bit k x"

fun fips_W :: "('w::len word \<Rightarrow> 'w word) \<Rightarrow> ('w word \<Rightarrow> 'w word) \<Rightarrow> (nat \<Rightarrow> 'w word) \<Rightarrow> nat \<Rightarrow> 'w word" where
  "fips_W s0 s1 M t =
     (if t < 16 then M t
      else s1 (fips_W s0 s1 M (t - 2)) + fips_W s0 s1 M (t - 7) + s0 (fips_W s0 s1 M (t - 15)) +
           fips_W s0 s1 M (t - 16))"

declare fips_W.simps [simp del]

type_synonym 'w vars8 =
  "'w word \<times> 'w word \<times> 'w word \<times> 'w word \<times> 'w word \<times> 'w word \<times> 'w word \<times> 'w word"

lemma vars8_cases: "\<exists>a b c d e f g h. v = (a, b, c, d, e, f, g, h)"
  by (metis surj_pair)

fun fips_step :: "('w::len word \<Rightarrow> 'w word) \<Rightarrow> ('w word \<Rightarrow> 'w word) \<Rightarrow> 'w word \<Rightarrow> 'w word \<Rightarrow> 'w vars8 \<Rightarrow> 'w vars8" where
  "fips_step S0 S1 k w (a, b, c, d, e, f, g, h) =
     (let T1 = h + S1 e + fips_Ch e f g + k + w; T2 = S0 a + fips_Maj a b c
      in (T1 + T2, a, b, c, d + T1, e, f, g))"

fun fips_rounds ::
    "('w::len word \<Rightarrow> 'w word) \<Rightarrow> ('w word \<Rightarrow> 'w word) \<Rightarrow> (nat \<Rightarrow> 'w word) \<Rightarrow> 'w word list \<Rightarrow> nat \<Rightarrow> 'w vars8 \<Rightarrow> 'w vars8" where
  "fips_rounds S0 S1 W [] t v = v"
| "fips_rounds S0 S1 W (k # ks) t v = fips_rounds S0 S1 W ks (Suc t) (fips_step S0 S1 k (W t) v)"

fun add_vars :: "'w::len word list \<Rightarrow> 'w vars8 \<Rightarrow> 'w word list" where
  "add_vars s (a, b, c, d, e, f, g, h) =
     [s ! 0 + a, s ! 1 + b, s ! 2 + c, s ! 3 + d, s ! 4 + e, s ! 5 + f, s ! 6 + g, s ! 7 + h]"

lemma length_add_vars [simp]: "length (add_vars s v) = 8"
  using vars8_cases [of v] by auto

section \<open>The unrolled code\<close>

text \<open>
  A run of rounds as the source writes them. \<open>Rd\<close> is the \<open>Round\<close> function of the class, which updates
  two of the eight variables it is given. \<open>sha_feed\<close> is the part that reads the message block, \<open>sha_roll\<close> the
  part that overwrites the schedule variables.
\<close>

type_synonym 'w round_fn =
  "'w word \<Rightarrow> 'w word \<Rightarrow> 'w word \<Rightarrow> 'w word \<Rightarrow> 'w word \<Rightarrow> 'w word \<Rightarrow> 'w word \<Rightarrow> 'w word \<Rightarrow> 'w word \<Rightarrow> 'w word \<Rightarrow> 'w word \<times> 'w word"

type_synonym 'w vars16 =
  "'w vars8 \<times> 'w vars8"

fun sha_roll :: "'w::len round_fn \<Rightarrow> ('w word \<Rightarrow> 'w word) \<Rightarrow> ('w word \<Rightarrow> 'w word) \<Rightarrow> 'w word list \<Rightarrow>
    'w word list \<Rightarrow> 'w vars16 \<Rightarrow> 'w vars8 \<Rightarrow> 'w word list" where
  "sha_roll Rd s0 s1 s [] ws v = add_vars s v"
| "sha_roll Rd s0 s1 s (k # ks)
     ((w0, w1, w2, w3, w4, w5, w6, w7), (w8, w9, w10, w11, w12, w13, w14, w15)) (a, b, c, d, e, f, g, h) =
     (let w = w0 + (s1 w14 + w9 + s0 w1); (d', h') = Rd a b c d e f g h k w
      in sha_roll Rd s0 s1 s ks ((w1, w2, w3, w4, w5, w6, w7, w8), (w9, w10, w11, w12, w13, w14, w15, w))
           (h', a, b, c, d', e, f, g))"

definition window :: "'w word list \<Rightarrow> 'w vars16" where
  "window ws = ((ws ! 0, ws ! 1, ws ! 2, ws ! 3, ws ! 4, ws ! 5, ws ! 6, ws ! 7),
     (ws ! 8, ws ! 9, ws ! 10, ws ! 11, ws ! 12, ws ! 13, ws ! 14, ws ! 15))"

lemma window_list:
  "window [w0, w1, w2, w3, w4, w5, w6, w7, w8, w9, w10, w11, w12, w13, w14, w15] =
     ((w0, w1, w2, w3, w4, w5, w6, w7), (w8, w9, w10, w11, w12, w13, w14, w15))"
  by (simp add: window_def)

fun sha_feed :: "'w::len round_fn \<Rightarrow> ('w word \<Rightarrow> 'w word) \<Rightarrow> ('w word \<Rightarrow> 'w word) \<Rightarrow> 'w word list \<Rightarrow>
    'w word list \<Rightarrow> ('w word \<times> 'w word) list \<Rightarrow> 'w word list \<Rightarrow> 'w vars8 \<Rightarrow> 'w word list" where
  "sha_feed Rd s0 s1 s ks [] ws v = sha_roll Rd s0 s1 s ks (window ws) v"
| "sha_feed Rd s0 s1 s ks ((k, x) # kxs) ws (a, b, c, d, e, f, g, h) =
     (let w = x; (d', h') = Rd a b c d e f g h k w
      in sha_feed Rd s0 s1 s ks kxs (ws @ [w]) (h', a, b, c, d', e, f, g))"

section \<open>The unrolled code computes the standard's rounds\<close>

lemma fips_W_rec:
  "fips_W s0 s1 M (n + 16) =
     fips_W s0 s1 M n + (s1 (fips_W s0 s1 M (n + 14)) + fips_W s0 s1 M (n + 9) + s0 (fips_W s0 s1 M (n + 1)))"
  by (subst fips_W.simps) (simp add: ac_simps)

text \<open>What a member of the family provides: a \<open>Round\<close> function that performs one step of the standard.\<close>

locale sha2_member =
  fixes Rd :: "'w::len round_fn" and S0 S1 s0 s1 :: "'w word \<Rightarrow> 'w word"
  assumes Round_step:
    "(let (d', h') = Rd a b c d e f g h k w in (h', a, b, c, d', e, f, g)) =
     fips_step S0 S1 k w (a, b, c, d, e, f, g, h)"
begin

lemma roll_fips:
  assumes "W = fips_W s0 s1 M"
  shows "sha_roll Rd s0 s1 s ks
     ((W n, W (n + 1), W (n + 2), W (n + 3), W (n + 4), W (n + 5), W (n + 6), W (n + 7)),
      (W (n + 8), W (n + 9), W (n + 10), W (n + 11), W (n + 12), W (n + 13), W (n + 14), W (n + 15))) v =
   add_vars s (fips_rounds S0 S1 W ks (n + 16) v)"
proof (induction ks arbitrary: n v)
  case (Cons k ks)
  obtain a b c d e f g h where v: "v = (a, b, c, d, e, f, g, h)" using vars8_cases [of v] by blast
  obtain d' h' where R: "Rd a b c d e f g h k (W (n + 16)) = (d', h')" by fastforce
  have w: "W n + (s1 (W (n + 14)) + W (n + 9) + s0 (W (n + 1))) = W (n + 16)"
    unfolding assms by (rule fips_W_rec [symmetric])
  have st: "fips_step S0 S1 k (W (n + 16)) v = (h', a, b, c, d', e, f, g)"
    using Round_step [of a b c d e f g h k "W (n + 16)"] R v by simp
  from Cons.IH [of "Suc n" "(h', a, b, c, d', e, f, g)"] show ?case
    unfolding v sha_roll.simps w Let_def R fips_rounds.simps st [unfolded v]
    by (simp add: numeral_eq_Suc)
qed simp

lemma feed_fips:
  assumes "W = fips_W s0 s1 M"
  shows "length ws + length kxs = 16 \<Longrightarrow> ws = map W [0..<length ws] \<Longrightarrow>
    map snd kxs = map W [length ws..<16] \<Longrightarrow>
    sha_feed Rd s0 s1 s ks kxs ws v = add_vars s (fips_rounds S0 S1 W (map fst kxs @ ks) (length ws) v)"
proof (induction kxs arbitrary: ws v)
  case Nil
  then have "ws = map W [0..<16]" by simp
  then have "window ws = window (map W [0..<16])" by simp
  also have "\<dots> = ((W 0, W 1, W 2, W 3, W 4, W 5, W 6, W 7), (W 8, W 9, W 10, W 11, W 12, W 13, W 14, W 15))"
    by (simp add: window_def numeral_2_eq_2)
  finally show ?case using Nil roll_fips [OF assms, of s ks 0 v] by (simp add: numeral_2_eq_2)
next
  case (Cons kx kxs)
  obtain k x where kx: "kx = (k, x)" by fastforce
  obtain a b c d e f g h where v: "v = (a, b, c, d, e, f, g, h)" using vars8_cases [of v] by blast
  have l: "length ws < 16" using Cons.prems(1) by simp
  have up: "[length ws..<16] = length ws # [Suc (length ws)..<16]" using l by (rule upt_conv_Cons)
  have x: "x = W (length ws)" and sn: "map snd kxs = map W [Suc (length ws)..<16]"
    using Cons.prems(3) by (simp_all add: kx up)
  obtain d' h' where R: "Rd a b c d e f g h k (W (length ws)) = (d', h')" by fastforce
  have st: "fips_step S0 S1 k (W (length ws)) v = (h', a, b, c, d', e, f, g)"
    using Round_step [of a b c d e f g h k "W (length ws)"] R v by simp
  have ws: "ws @ [W (length ws)] = map W [0..<length (ws @ [W (length ws)])]"
    using Cons.prems(2) by simp
  have "sha_feed Rd s0 s1 s ks (kx # kxs) ws v =
      sha_feed Rd s0 s1 s ks kxs (ws @ [W (length ws)]) (h', a, b, c, d', e, f, g)"
    by (simp add: kx v x R)
  also have "\<dots> = add_vars s (fips_rounds S0 S1 W (map fst kxs @ ks) (Suc (length ws)) (h', a, b, c, d', e, f, g))"
    using Cons.IH [OF _ ws] Cons.prems(1) sn by simp
  finally show ?case by (simp add: kx st)
qed

end

section \<open>The helper functions\<close>

text \<open>A pair of shifts joined by \<open>|\<close> is a rotation; the code's \<open>Ch\<close> and \<open>Maj\<close> save an operation.\<close>

lemma rotr_shifts:
  fixes x :: "'w::len word"
  assumes "n < LENGTH('w)"
  shows "drop_bit n x OR push_bit (LENGTH('w) - n) x = word_rotr n x"
proof (rule bit_word_eqI)
  fix m assume m: "m < LENGTH('w)"
  show "bit (drop_bit n x OR push_bit (LENGTH('w) - n) x) m = bit (word_rotr n x) m"
  proof (cases "m + n < LENGTH('w)")
    case True
    then have "\<not> LENGTH('w) - n \<le> m" using assms by linarith
    then show ?thesis using m True
      by (simp add: bit_or_iff bit_drop_bit_eq bit_push_bit_iff bit_word_rotr_iff add.commute)
  next
    case False
    then have "(m + n) mod LENGTH('w) = m + n - LENGTH('w)" using m assms by (simp add: le_mod_geq)
    moreover have "\<not> bit x (n + m)" using False by (metis add.commute bit_imp_le_length)
    moreover have "LENGTH('w) - n \<le> m" using False by linarith
    ultimately show ?thesis using m False assms
      by (simp add: bit_or_iff bit_drop_bit_eq bit_push_bit_iff bit_word_rotr_iff add.commute)
  qed
qed

lemma Ch_eq: "(z :: 'w::len word) XOR (x AND (y XOR z)) = fips_Ch x y z"
  unfolding fips_Ch_def by (rule bit_word_eqI) (auto simp: bit_and_iff bit_xor_iff bit_not_iff)

lemma Maj_eq: "(x AND y) OR ((z :: 'w::len word) AND (x OR y)) = fips_Maj x y z"
  unfolding fips_Maj_def by (rule bit_word_eqI) (auto simp: bit_and_iff bit_xor_iff bit_or_iff)

lemma rotl_shifts:
  fixes x :: "'w::len word"
  assumes "0 < n" "n < LENGTH('w)"
  shows "push_bit n x OR drop_bit (LENGTH('w) - n) x = word_rotl n x"
proof -
  have "word_rotl n x = word_rotr (LENGTH('w) - n) x"
    by (rule bit_word_eqI) (use assms in \<open>simp add: bit_word_rotl_iff bit_word_rotr_iff\<close>)
  then show ?thesis
    using rotr_shifts [of "LENGTH('w) - n" x] assms by (simp add: or.commute)
qed

lemma rotl_pair:
  fixes x :: uint32
  assumes "n + k = 32" "0 < n" "0 < k"
  shows "push_bit n x OR drop_bit k x = word_rotl n x"
proof -
  have "k = LENGTH(32) - n" using assms(1) by simp
  then show ?thesis using rotl_shifts [of n x] assms by simp
qed

definition be32_words :: "byte list \<Rightarrow> uint32 list" where
  "be32_words chunk =
     [ReadBE32 chunk 0, ReadBE32 chunk 4, ReadBE32 chunk 8, ReadBE32 chunk 12,
      ReadBE32 chunk 16, ReadBE32 chunk 20, ReadBE32 chunk 24, ReadBE32 chunk 28,
      ReadBE32 chunk 32, ReadBE32 chunk 36, ReadBE32 chunk 40, ReadBE32 chunk 44,
      ReadBE32 chunk 48, ReadBE32 chunk 52, ReadBE32 chunk 56, ReadBE32 chunk 60]"

lemma upt_0_16: "[0..<16] = [0, 1, 2, 3, 4, 5, 6, 7, 8, 9, 10, 11, 12, 13, 14, 15 :: nat]"
  by (simp add: upt_rec)

section \<open>Where the constants come from\<close>

text \<open>
  FIPS 180-4 takes its constants from the first primes: \<open>root_fraction r w p k\<close> says that \<open>k\<close> is the
  first \<open>w\<close> bits of the fractional part of the \<open>r\<close>-th root of \<open>p\<close>. The integer part of the roots that
  occur is at most 20.
\<close>

definition int_root :: "nat \<Rightarrow> int \<Rightarrow> int" where
  "int_root r p = int (length (takeWhile (\<lambda>i. i ^ r \<le> p) [1..20]))"

definition root_fraction :: "nat \<Rightarrow> nat \<Rightarrow> int \<Rightarrow> int \<Rightarrow> bool" where
  "root_fraction r w p k \<longleftrightarrow>
     (let x = int_root r p * 2 ^ w + k; n = p * 2 ^ (w * r)
      in 0 \<le> k \<and> k < 2 ^ w \<and> x ^ r \<le> n \<and> n < (x + 1) ^ r)"

end
