(* ===== verification/Sha256.thy ===== *)
theory Sha256
  imports Sha2
begin

text \<open>
  The class \<open>CSHA256\<close> of \<open>src/src/crypto/sha256.cpp\<close>. \<open>sha256_Transform\<close> is the unrolled block transformation, line
  by line; the object is a hasher of block size 64. The last property is the correctness of the
  whole class: however the message is split over \<open>Write\<close> calls, the digest is the one FIPS 180-4
  defines for the concatenation, and it does not depend on the uninitialised buffer.
\<close>

section \<open>The block transformation\<close>

definition sha256_Ch :: "uint32 \<Rightarrow> uint32 \<Rightarrow> uint32 \<Rightarrow> uint32" where
  "sha256_Ch x y z = z XOR (x AND (y XOR z))"

definition sha256_Maj :: "uint32 \<Rightarrow> uint32 \<Rightarrow> uint32 \<Rightarrow> uint32" where
  "sha256_Maj x y z = (x AND y) OR (z AND (x OR y))"

definition sha256_Sigma0 :: "uint32 \<Rightarrow> uint32" where
  "sha256_Sigma0 x = (drop_bit 2 x OR push_bit 30 x) XOR (drop_bit 13 x OR push_bit 19 x) XOR (drop_bit 22 x OR push_bit 10 x)"

definition sha256_Sigma1 :: "uint32 \<Rightarrow> uint32" where
  "sha256_Sigma1 x = (drop_bit 6 x OR push_bit 26 x) XOR (drop_bit 11 x OR push_bit 21 x) XOR (drop_bit 25 x OR push_bit 7 x)"

definition sha256_sigma0 :: "uint32 \<Rightarrow> uint32" where
  "sha256_sigma0 x = (drop_bit 7 x OR push_bit 25 x) XOR (drop_bit 18 x OR push_bit 14 x) XOR drop_bit 3 x"

definition sha256_sigma1 :: "uint32 \<Rightarrow> uint32" where
  "sha256_sigma1 x = (drop_bit 17 x OR push_bit 15 x) XOR (drop_bit 19 x OR push_bit 13 x) XOR drop_bit 10 x"

definition sha256_Round ::
    "uint32 \<Rightarrow> uint32 \<Rightarrow> uint32 \<Rightarrow> uint32 \<Rightarrow> uint32 \<Rightarrow> uint32 \<Rightarrow> uint32 \<Rightarrow> uint32 \<Rightarrow> uint32 \<Rightarrow> uint32 \<Rightarrow> uint32 \<times> uint32" where
  "sha256_Round a b c d e f g h k w =
     (let t1 = h + sha256_Sigma1 e + sha256_Ch e f g + k + w;
          t2 = sha256_Sigma0 a + sha256_Maj a b c;
          d = d + t1;
          h = t1 + t2
      in (d, h))"

definition sha256_Initialize :: "uint32 list" where
  "sha256_Initialize =
     [0x6a09e667, 0xbb67ae85, 0x3c6ef372, 0xa54ff53a,
      0x510e527f, 0x9b05688c, 0x1f83d9ab, 0x5be0cd19]"

definition sha256_Transform :: "uint32 list \<Rightarrow> byte list \<Rightarrow> uint32 list" where
  "sha256_Transform s chunk =
     (let a = s ! 0; b = s ! 1; c = s ! 2; d = s ! 3; e = s ! 4; f = s ! 5; g = s ! 6; h = s ! 7;
          w0 = ReadBE32 chunk 0; (d, h) = sha256_Round a b c d e f g h 0x428a2f98 w0;
          w1 = ReadBE32 chunk 4; (c, g) = sha256_Round h a b c d e f g 0x71374491 w1;
          w2 = ReadBE32 chunk 8; (b, f) = sha256_Round g h a b c d e f 0xb5c0fbcf w2;
          w3 = ReadBE32 chunk 12; (a, e) = sha256_Round f g h a b c d e 0xe9b5dba5 w3;
          w4 = ReadBE32 chunk 16; (h, d) = sha256_Round e f g h a b c d 0x3956c25b w4;
          w5 = ReadBE32 chunk 20; (g, c) = sha256_Round d e f g h a b c 0x59f111f1 w5;
          w6 = ReadBE32 chunk 24; (f, b) = sha256_Round c d e f g h a b 0x923f82a4 w6;
          w7 = ReadBE32 chunk 28; (e, a) = sha256_Round b c d e f g h a 0xab1c5ed5 w7;
          w8 = ReadBE32 chunk 32; (d, h) = sha256_Round a b c d e f g h 0xd807aa98 w8;
          w9 = ReadBE32 chunk 36; (c, g) = sha256_Round h a b c d e f g 0x12835b01 w9;
          w10 = ReadBE32 chunk 40; (b, f) = sha256_Round g h a b c d e f 0x243185be w10;
          w11 = ReadBE32 chunk 44; (a, e) = sha256_Round f g h a b c d e 0x550c7dc3 w11;
          w12 = ReadBE32 chunk 48; (h, d) = sha256_Round e f g h a b c d 0x72be5d74 w12;
          w13 = ReadBE32 chunk 52; (g, c) = sha256_Round d e f g h a b c 0x80deb1fe w13;
          w14 = ReadBE32 chunk 56; (f, b) = sha256_Round c d e f g h a b 0x9bdc06a7 w14;
          w15 = ReadBE32 chunk 60; (e, a) = sha256_Round b c d e f g h a 0xc19bf174 w15;
          w0 = w0 + (sha256_sigma1 w14 + w9 + sha256_sigma0 w1); (d, h) = sha256_Round a b c d e f g h 0xe49b69c1 w0;
          w1 = w1 + (sha256_sigma1 w15 + w10 + sha256_sigma0 w2); (c, g) = sha256_Round h a b c d e f g 0xefbe4786 w1;
          w2 = w2 + (sha256_sigma1 w0 + w11 + sha256_sigma0 w3); (b, f) = sha256_Round g h a b c d e f 0x0fc19dc6 w2;
          w3 = w3 + (sha256_sigma1 w1 + w12 + sha256_sigma0 w4); (a, e) = sha256_Round f g h a b c d e 0x240ca1cc w3;
          w4 = w4 + (sha256_sigma1 w2 + w13 + sha256_sigma0 w5); (h, d) = sha256_Round e f g h a b c d 0x2de92c6f w4;
          w5 = w5 + (sha256_sigma1 w3 + w14 + sha256_sigma0 w6); (g, c) = sha256_Round d e f g h a b c 0x4a7484aa w5;
          w6 = w6 + (sha256_sigma1 w4 + w15 + sha256_sigma0 w7); (f, b) = sha256_Round c d e f g h a b 0x5cb0a9dc w6;
          w7 = w7 + (sha256_sigma1 w5 + w0 + sha256_sigma0 w8); (e, a) = sha256_Round b c d e f g h a 0x76f988da w7;
          w8 = w8 + (sha256_sigma1 w6 + w1 + sha256_sigma0 w9); (d, h) = sha256_Round a b c d e f g h 0x983e5152 w8;
          w9 = w9 + (sha256_sigma1 w7 + w2 + sha256_sigma0 w10); (c, g) = sha256_Round h a b c d e f g 0xa831c66d w9;
          w10 = w10 + (sha256_sigma1 w8 + w3 + sha256_sigma0 w11); (b, f) = sha256_Round g h a b c d e f 0xb00327c8 w10;
          w11 = w11 + (sha256_sigma1 w9 + w4 + sha256_sigma0 w12); (a, e) = sha256_Round f g h a b c d e 0xbf597fc7 w11;
          w12 = w12 + (sha256_sigma1 w10 + w5 + sha256_sigma0 w13); (h, d) = sha256_Round e f g h a b c d 0xc6e00bf3 w12;
          w13 = w13 + (sha256_sigma1 w11 + w6 + sha256_sigma0 w14); (g, c) = sha256_Round d e f g h a b c 0xd5a79147 w13;
          w14 = w14 + (sha256_sigma1 w12 + w7 + sha256_sigma0 w15); (f, b) = sha256_Round c d e f g h a b 0x06ca6351 w14;
          w15 = w15 + (sha256_sigma1 w13 + w8 + sha256_sigma0 w0); (e, a) = sha256_Round b c d e f g h a 0x14292967 w15;
          w0 = w0 + (sha256_sigma1 w14 + w9 + sha256_sigma0 w1); (d, h) = sha256_Round a b c d e f g h 0x27b70a85 w0;
          w1 = w1 + (sha256_sigma1 w15 + w10 + sha256_sigma0 w2); (c, g) = sha256_Round h a b c d e f g 0x2e1b2138 w1;
          w2 = w2 + (sha256_sigma1 w0 + w11 + sha256_sigma0 w3); (b, f) = sha256_Round g h a b c d e f 0x4d2c6dfc w2;
          w3 = w3 + (sha256_sigma1 w1 + w12 + sha256_sigma0 w4); (a, e) = sha256_Round f g h a b c d e 0x53380d13 w3;
          w4 = w4 + (sha256_sigma1 w2 + w13 + sha256_sigma0 w5); (h, d) = sha256_Round e f g h a b c d 0x650a7354 w4;
          w5 = w5 + (sha256_sigma1 w3 + w14 + sha256_sigma0 w6); (g, c) = sha256_Round d e f g h a b c 0x766a0abb w5;
          w6 = w6 + (sha256_sigma1 w4 + w15 + sha256_sigma0 w7); (f, b) = sha256_Round c d e f g h a b 0x81c2c92e w6;
          w7 = w7 + (sha256_sigma1 w5 + w0 + sha256_sigma0 w8); (e, a) = sha256_Round b c d e f g h a 0x92722c85 w7;
          w8 = w8 + (sha256_sigma1 w6 + w1 + sha256_sigma0 w9); (d, h) = sha256_Round a b c d e f g h 0xa2bfe8a1 w8;
          w9 = w9 + (sha256_sigma1 w7 + w2 + sha256_sigma0 w10); (c, g) = sha256_Round h a b c d e f g 0xa81a664b w9;
          w10 = w10 + (sha256_sigma1 w8 + w3 + sha256_sigma0 w11); (b, f) = sha256_Round g h a b c d e f 0xc24b8b70 w10;
          w11 = w11 + (sha256_sigma1 w9 + w4 + sha256_sigma0 w12); (a, e) = sha256_Round f g h a b c d e 0xc76c51a3 w11;
          w12 = w12 + (sha256_sigma1 w10 + w5 + sha256_sigma0 w13); (h, d) = sha256_Round e f g h a b c d 0xd192e819 w12;
          w13 = w13 + (sha256_sigma1 w11 + w6 + sha256_sigma0 w14); (g, c) = sha256_Round d e f g h a b c 0xd6990624 w13;
          w14 = w14 + (sha256_sigma1 w12 + w7 + sha256_sigma0 w15); (f, b) = sha256_Round c d e f g h a b 0xf40e3585 w14;
          w15 = w15 + (sha256_sigma1 w13 + w8 + sha256_sigma0 w0); (e, a) = sha256_Round b c d e f g h a 0x106aa070 w15;
          w0 = w0 + (sha256_sigma1 w14 + w9 + sha256_sigma0 w1); (d, h) = sha256_Round a b c d e f g h 0x19a4c116 w0;
          w1 = w1 + (sha256_sigma1 w15 + w10 + sha256_sigma0 w2); (c, g) = sha256_Round h a b c d e f g 0x1e376c08 w1;
          w2 = w2 + (sha256_sigma1 w0 + w11 + sha256_sigma0 w3); (b, f) = sha256_Round g h a b c d e f 0x2748774c w2;
          w3 = w3 + (sha256_sigma1 w1 + w12 + sha256_sigma0 w4); (a, e) = sha256_Round f g h a b c d e 0x34b0bcb5 w3;
          w4 = w4 + (sha256_sigma1 w2 + w13 + sha256_sigma0 w5); (h, d) = sha256_Round e f g h a b c d 0x391c0cb3 w4;
          w5 = w5 + (sha256_sigma1 w3 + w14 + sha256_sigma0 w6); (g, c) = sha256_Round d e f g h a b c 0x4ed8aa4a w5;
          w6 = w6 + (sha256_sigma1 w4 + w15 + sha256_sigma0 w7); (f, b) = sha256_Round c d e f g h a b 0x5b9cca4f w6;
          w7 = w7 + (sha256_sigma1 w5 + w0 + sha256_sigma0 w8); (e, a) = sha256_Round b c d e f g h a 0x682e6ff3 w7;
          w8 = w8 + (sha256_sigma1 w6 + w1 + sha256_sigma0 w9); (d, h) = sha256_Round a b c d e f g h 0x748f82ee w8;
          w9 = w9 + (sha256_sigma1 w7 + w2 + sha256_sigma0 w10); (c, g) = sha256_Round h a b c d e f g 0x78a5636f w9;
          w10 = w10 + (sha256_sigma1 w8 + w3 + sha256_sigma0 w11); (b, f) = sha256_Round g h a b c d e f 0x84c87814 w10;
          w11 = w11 + (sha256_sigma1 w9 + w4 + sha256_sigma0 w12); (a, e) = sha256_Round f g h a b c d e 0x8cc70208 w11;
          w12 = w12 + (sha256_sigma1 w10 + w5 + sha256_sigma0 w13); (h, d) = sha256_Round e f g h a b c d 0x90befffa w12;
          w13 = w13 + (sha256_sigma1 w11 + w6 + sha256_sigma0 w14); (g, c) = sha256_Round d e f g h a b c 0xa4506ceb w13;
          w = w14 + sha256_sigma1 w12 + w7 + sha256_sigma0 w15; (f, b) = sha256_Round c d e f g h a b 0xbef9a3f7 w;
          w = w15 + sha256_sigma1 w13 + w8 + sha256_sigma0 w0; (e, a) = sha256_Round b c d e f g h a 0xc67178f2 w
      in [s ! 0 + a, s ! 1 + b, s ! 2 + c, s ! 3 + d, s ! 4 + e, s ! 5 + f, s ! 6 + g, s ! 7 + h])"

section \<open>The hasher object\<close>

text \<open>The constructor leaves the buffer as it finds it: \<open>junk\<close> is what the memory held.\<close>

definition CSHA256 :: "byte list \<Rightarrow> uint32 list hasher" where
  "CSHA256 junk = \<lparr>hs = sha256_Initialize, hbuf = junk, hbytes = 0\<rparr>"

definition CSHA256_Write :: "uint32 list hasher \<Rightarrow> byte list \<Rightarrow> uint32 list hasher" where
  "CSHA256_Write = hasher_Write 64 sha256_Transform"

definition CSHA256_Finalize :: "uint32 list hasher \<Rightarrow> byte list \<times> uint32 list hasher" where
  "CSHA256_Finalize h =
     (let h = hasher_Finalize 64 sha256_Transform 119 WriteBE64 h; s = hs h
      in (WriteBE32 (s ! 0) @ WriteBE32 (s ! 1) @ WriteBE32 (s ! 2) @ WriteBE32 (s ! 3) @
          WriteBE32 (s ! 4) @ WriteBE32 (s ! 5) @ WriteBE32 (s ! 6) @ WriteBE32 (s ! 7), h))"

definition CSHA256_Reset :: "uint32 list hasher \<Rightarrow> uint32 list hasher" where
  "CSHA256_Reset h = h\<lparr>hbytes := 0, hs := sha256_Initialize\<rparr>"

lemma length_CSHA256_Finalize [simp]: "length (fst (CSHA256_Finalize h)) = 32"
  by (simp add: CSHA256_Finalize_def Let_def)

section \<open>The standard\<close>

text \<open>The round constants, each with the prime the standard derives it from.\<close>

definition sha256_constants :: "(int \<times> uint32) list" where
  "sha256_constants =
     [(2, 0x428a2f98), (3, 0x71374491), (5, 0xb5c0fbcf), (7, 0xe9b5dba5),
      (11, 0x3956c25b), (13, 0x59f111f1), (17, 0x923f82a4), (19, 0xab1c5ed5),
      (23, 0xd807aa98), (29, 0x12835b01), (31, 0x243185be), (37, 0x550c7dc3),
      (41, 0x72be5d74), (43, 0x80deb1fe), (47, 0x9bdc06a7), (53, 0xc19bf174),
      (59, 0xe49b69c1), (61, 0xefbe4786), (67, 0x0fc19dc6), (71, 0x240ca1cc),
      (73, 0x2de92c6f), (79, 0x4a7484aa), (83, 0x5cb0a9dc), (89, 0x76f988da),
      (97, 0x983e5152), (101, 0xa831c66d), (103, 0xb00327c8), (107, 0xbf597fc7),
      (109, 0xc6e00bf3), (113, 0xd5a79147), (127, 0x06ca6351), (131, 0x14292967),
      (137, 0x27b70a85), (139, 0x2e1b2138), (149, 0x4d2c6dfc), (151, 0x53380d13),
      (157, 0x650a7354), (163, 0x766a0abb), (167, 0x81c2c92e), (173, 0x92722c85),
      (179, 0xa2bfe8a1), (181, 0xa81a664b), (191, 0xc24b8b70), (193, 0xc76c51a3),
      (197, 0xd192e819), (199, 0xd6990624), (211, 0xf40e3585), (223, 0x106aa070),
      (227, 0x19a4c116), (229, 0x1e376c08), (233, 0x2748774c), (239, 0x34b0bcb5),
      (241, 0x391c0cb3), (251, 0x4ed8aa4a), (257, 0x5b9cca4f), (263, 0x682e6ff3),
      (269, 0x748f82ee), (271, 0x78a5636f), (277, 0x84c87814), (281, 0x8cc70208),
      (283, 0x90befffa), (293, 0xa4506ceb), (307, 0xbef9a3f7), (311, 0xc67178f2)]"

definition sha256_K :: "uint32 list" where
  "sha256_K = map snd sha256_constants"

abbreviation sha256_S0 :: "uint32 \<Rightarrow> uint32" where "sha256_S0 \<equiv> fips_Sum 2 13 22"
abbreviation sha256_S1 :: "uint32 \<Rightarrow> uint32" where "sha256_S1 \<equiv> fips_Sum 6 11 25"
abbreviation sha256_s0 :: "uint32 \<Rightarrow> uint32" where "sha256_s0 \<equiv> fips_sigma 7 18 3"
abbreviation sha256_s1 :: "uint32 \<Rightarrow> uint32" where "sha256_s1 \<equiv> fips_sigma 17 19 10"

definition fips_sha256_compress :: "uint32 list \<Rightarrow> byte list \<Rightarrow> uint32 list" where
  "fips_sha256_compress H block =
     add_vars H
       (fips_rounds sha256_S0 sha256_S1
         (fips_W sha256_s0 sha256_s1 (\<lambda>t. of_nat (be_decode (take 4 (drop (4 * t) block)))))
         sha256_K 0 (H ! 0, H ! 1, H ! 2, H ! 3, H ! 4, H ! 5, H ! 6, H ! 7))"

definition fips_sha256 :: "byte list \<Rightarrow> byte list" where
  "fips_sha256 m =
     concat (map (\<lambda>x. be_encode 4 (unat x))
       (foldl fips_sha256_compress sha256_Initialize (chunks 64 (md_pad 64 (be_encode 8 (8 * length m)) m))))"

text \<open>The constants are the fractional parts of the roots of their primes.\<close>

lemma sha256_constants_valid:
  "list_all (\<lambda>(p, k). root_fraction 3 32 p (uint k)) sha256_constants"
  "list_all2 (root_fraction 2 32) [2, 3, 5, 7, 11, 13, 17, 19] (map uint sha256_Initialize)"
  by code_simp+


section \<open>The class implements the standard\<close>

lemma sha256_Transform_unrolled:
  "sha256_Transform s chunk =
   (let a = s ! 0; b = s ! 1; c = s ! 2; d = s ! 3; e = s ! 4; f = s ! 5; g = s ! 6; h = s ! 7
    in sha_feed sha256_Round sha256_sigma0 sha256_sigma1 s (drop 16 sha256_K)
         (zip (take 16 sha256_K) (be32_words chunk)) [] (a, b, c, d, e, f, g, h))"
proof -
  note K = sha256_K_def [THEN arg_cong, of "drop 16", simplified sha256_constants_def, simplified]
    sha256_K_def [THEN arg_cong, of "take 16", simplified sha256_constants_def, simplified]
  show ?thesis
    unfolding K be32_words_def zip_Cons_Cons zip.simps(1) sha256_Transform_def sha_feed.simps append.simps
      window_list sha_roll.simps add_vars.simps add.assoc
    by (rule refl)
qed

lemma sha256_functions:
  "sha256_Ch = fips_Ch" "sha256_Maj = fips_Maj"
  "sha256_Sigma0 = sha256_S0" "sha256_Sigma1 = sha256_S1" "sha256_sigma0 = sha256_s0" "sha256_sigma1 = sha256_s1"
proof -
  note r = rotr_shifts [where 'w = 32, simplified]
  show "sha256_Ch = fips_Ch" "sha256_Maj = fips_Maj"
    by (intro ext; simp only: sha256_Ch_def sha256_Maj_def Ch_eq Maj_eq)+
  show "sha256_Sigma0 = sha256_S0"
    by (intro ext; simp add: sha256_Sigma0_def fips_Sum_def r [of 2, simplified] r [of 13, simplified] r [of 22, simplified])
  show "sha256_Sigma1 = sha256_S1"
    by (intro ext; simp add: sha256_Sigma1_def fips_Sum_def r [of 6, simplified] r [of 11, simplified] r [of 25, simplified])
  show "sha256_sigma0 = sha256_s0"
    by (intro ext; simp add: sha256_sigma0_def fips_sigma_def r [of 7, simplified] r [of 18, simplified])
  show "sha256_sigma1 = sha256_s1"
    by (intro ext; simp add: sha256_sigma1_def fips_sigma_def r [of 17, simplified] r [of 19, simplified])
qed

interpretation sha256: sha2_member sha256_Round sha256_S0 sha256_S1 sha256_s0 sha256_s1
  by unfold_locales (simp add: sha256_Round_def sha256_functions Let_def)

lemma sha256_Transform_compress: "sha256_Transform = fips_sha256_compress"
proof (intro ext)
  fix H :: "uint32 list" and block
  define W where "W = fips_W sha256_s0 sha256_s1 (\<lambda>t. of_nat (be_decode (take 4 (drop (4 * t) block))))"
  have W: "W t = ReadBE32 block (4 * t)" if "t < 16" for t
    using that by (simp add: W_def fips_W.simps [of _ _ _ t] ReadBE32_def)
  let ?kxs = "zip (take 16 sha256_K) (be32_words block)"
  have "map snd ?kxs = map W [0..<16]" "map fst ?kxs = take 16 sha256_K" "length ?kxs = 16"
    by (simp_all add: be32_words_def sha256_K_def sha256_constants_def upt_0_16 W)
  then have "sha256_Transform H block =
      add_vars H (fips_rounds sha256_S0 sha256_S1 W (take 16 sha256_K @ drop 16 sha256_K) 0
        (H ! 0, H ! 1, H ! 2, H ! 3, H ! 4, H ! 5, H ! 6, H ! 7))"
    unfolding sha256_Transform_unrolled Let_def sha256_functions
    by (subst sha256.feed_fips [OF W_def]) simp_all
  then show "sha256_Transform H block = fips_sha256_compress H block"
    by (simp only: fips_sha256_compress_def W_def append_take_drop_id)
qed

interpretation sha256h: padded_hash 64 sha256_Transform 119 8 "WriteBE64"
  by unfold_locales simp_all

lemma CSHA256_digest:
  assumes "hs h = sha256_Initialize" "hbytes h = 0" "length (hbuf h) = 64"
    and h': "h' = foldl CSHA256_Write h ds"
  shows "fst (CSHA256_Finalize h') = fips_sha256 (concat ds)" "length (hbuf (snd (CSHA256_Finalize h'))) = 64"
proof -
  let ?h = "hasher_Finalize 64 sha256_Transform 119 (WriteBE64) (foldl (hasher_Write 64 sha256_Transform) h ds)"
  note d = sha256h.digest_of_pieces [OF assms(1-3) refl, of ds]
  have "length (hs ?h) = 8"
    unfolding d(1) by (rule length_foldl_blocks)
      (simp_all add: sha256_Transform_compress fips_sha256_compress_def sha256_Initialize_def)
  from concat_map_8 [OF this, of "WriteBE32"]
  have "fst (CSHA256_Finalize h') = concat (map WriteBE32 (hs ?h))"
    by (simp add: CSHA256_Finalize_def CSHA256_Write_def h' Let_def)
  then show "fst (CSHA256_Finalize h') = fips_sha256 (concat ds)"
    unfolding d(1) WriteBE64_field
    by (simp only: fips_sha256_def sha256_Transform_compress WriteBE32_def [abs_def])
  show "length (hbuf (snd (CSHA256_Finalize h'))) = 64"
    using d(2) by (simp add: CSHA256_Finalize_def CSHA256_Write_def h' Let_def)
qed

text \<open>
  C11: The class \<open>CSHA256\<close> computes SHA-256 of FIPS 180-4: whatever the sequence of \<open>Write\<close> calls a message
  is split into, the digest is the standard's hash of the whole message. The unrolled 
  transformation, the buffering over block boundaries and the padding are right for every length,
  and the contents of the uninitialised buffer never reach the digest.
\<close>

theorem sha256_correct:
  assumes "length junk = 64"
  shows "fst (CSHA256_Finalize (foldl CSHA256_Write (CSHA256 junk) ds)) = fips_sha256 (concat ds)"
  by (rule CSHA256_digest [OF _ _ _ refl]) (simp_all add: CSHA256_def assms)

theorem sha256_correct_witness:
  "fst (CSHA256_Finalize (foldl CSHA256_Write (CSHA256 (replicate 64 0xcc)) [[0x61], replicate 100 0x62, []])) =
     fips_sha256 (0x61 # replicate 100 0x62)"
  using sha256_correct [of "replicate 64 0xcc" "[[0x61], replicate 100 0x62, []]"] by simp

end
