(* ===== verification/Sha512.thy ===== *)
theory Sha512
  imports Sha2
begin

text \<open>
  The class \<open>CSHA512\<close> of \<open>src/src/crypto/sha512.cpp\<close>. \<open>sha512_Transform\<close> is the unrolled block transformation, line
  by line; the object is a hasher of block size 128. The last property is the correctness of the
  whole class: however the message is split over \<open>Write\<close> calls, the digest is the one FIPS 180-4
  defines for the concatenation, and it does not depend on the uninitialised buffer.
\<close>

section \<open>The block transformation\<close>

definition sha512_Ch :: "uint64 \<Rightarrow> uint64 \<Rightarrow> uint64 \<Rightarrow> uint64" where
  "sha512_Ch x y z = z XOR (x AND (y XOR z))"

definition sha512_Maj :: "uint64 \<Rightarrow> uint64 \<Rightarrow> uint64 \<Rightarrow> uint64" where
  "sha512_Maj x y z = (x AND y) OR (z AND (x OR y))"

definition sha512_Sigma0 :: "uint64 \<Rightarrow> uint64" where
  "sha512_Sigma0 x = (drop_bit 28 x OR push_bit 36 x) XOR (drop_bit 34 x OR push_bit 30 x) XOR (drop_bit 39 x OR push_bit 25 x)"

definition sha512_Sigma1 :: "uint64 \<Rightarrow> uint64" where
  "sha512_Sigma1 x = (drop_bit 14 x OR push_bit 50 x) XOR (drop_bit 18 x OR push_bit 46 x) XOR (drop_bit 41 x OR push_bit 23 x)"

definition sha512_sigma0 :: "uint64 \<Rightarrow> uint64" where
  "sha512_sigma0 x = (drop_bit 1 x OR push_bit 63 x) XOR (drop_bit 8 x OR push_bit 56 x) XOR drop_bit 7 x"

definition sha512_sigma1 :: "uint64 \<Rightarrow> uint64" where
  "sha512_sigma1 x = (drop_bit 19 x OR push_bit 45 x) XOR (drop_bit 61 x OR push_bit 3 x) XOR drop_bit 6 x"

definition sha512_Round ::
    "uint64 \<Rightarrow> uint64 \<Rightarrow> uint64 \<Rightarrow> uint64 \<Rightarrow> uint64 \<Rightarrow> uint64 \<Rightarrow> uint64 \<Rightarrow> uint64 \<Rightarrow> uint64 \<Rightarrow> uint64 \<Rightarrow> uint64 \<times> uint64" where
  "sha512_Round a b c d e f g h k w =
     (let t1 = h + sha512_Sigma1 e + sha512_Ch e f g + k + w;
          t2 = sha512_Sigma0 a + sha512_Maj a b c;
          d = d + t1;
          h = t1 + t2
      in (d, h))"

definition sha512_Initialize :: "uint64 list" where
  "sha512_Initialize =
     [0x6a09e667f3bcc908, 0xbb67ae8584caa73b, 0x3c6ef372fe94f82b, 0xa54ff53a5f1d36f1,
      0x510e527fade682d1, 0x9b05688c2b3e6c1f, 0x1f83d9abfb41bd6b, 0x5be0cd19137e2179]"

definition sha512_Transform :: "uint64 list \<Rightarrow> byte list \<Rightarrow> uint64 list" where
  "sha512_Transform s chunk =
     (let a = s ! 0; b = s ! 1; c = s ! 2; d = s ! 3; e = s ! 4; f = s ! 5; g = s ! 6; h = s ! 7;
          w0 = ReadBE64 chunk 0; (d, h) = sha512_Round a b c d e f g h 0x428a2f98d728ae22 w0;
          w1 = ReadBE64 chunk 8; (c, g) = sha512_Round h a b c d e f g 0x7137449123ef65cd w1;
          w2 = ReadBE64 chunk 16; (b, f) = sha512_Round g h a b c d e f 0xb5c0fbcfec4d3b2f w2;
          w3 = ReadBE64 chunk 24; (a, e) = sha512_Round f g h a b c d e 0xe9b5dba58189dbbc w3;
          w4 = ReadBE64 chunk 32; (h, d) = sha512_Round e f g h a b c d 0x3956c25bf348b538 w4;
          w5 = ReadBE64 chunk 40; (g, c) = sha512_Round d e f g h a b c 0x59f111f1b605d019 w5;
          w6 = ReadBE64 chunk 48; (f, b) = sha512_Round c d e f g h a b 0x923f82a4af194f9b w6;
          w7 = ReadBE64 chunk 56; (e, a) = sha512_Round b c d e f g h a 0xab1c5ed5da6d8118 w7;
          w8 = ReadBE64 chunk 64; (d, h) = sha512_Round a b c d e f g h 0xd807aa98a3030242 w8;
          w9 = ReadBE64 chunk 72; (c, g) = sha512_Round h a b c d e f g 0x12835b0145706fbe w9;
          w10 = ReadBE64 chunk 80; (b, f) = sha512_Round g h a b c d e f 0x243185be4ee4b28c w10;
          w11 = ReadBE64 chunk 88; (a, e) = sha512_Round f g h a b c d e 0x550c7dc3d5ffb4e2 w11;
          w12 = ReadBE64 chunk 96; (h, d) = sha512_Round e f g h a b c d 0x72be5d74f27b896f w12;
          w13 = ReadBE64 chunk 104; (g, c) = sha512_Round d e f g h a b c 0x80deb1fe3b1696b1 w13;
          w14 = ReadBE64 chunk 112; (f, b) = sha512_Round c d e f g h a b 0x9bdc06a725c71235 w14;
          w15 = ReadBE64 chunk 120; (e, a) = sha512_Round b c d e f g h a 0xc19bf174cf692694 w15;
          w0 = w0 + (sha512_sigma1 w14 + w9 + sha512_sigma0 w1); (d, h) = sha512_Round a b c d e f g h 0xe49b69c19ef14ad2 w0;
          w1 = w1 + (sha512_sigma1 w15 + w10 + sha512_sigma0 w2); (c, g) = sha512_Round h a b c d e f g 0xefbe4786384f25e3 w1;
          w2 = w2 + (sha512_sigma1 w0 + w11 + sha512_sigma0 w3); (b, f) = sha512_Round g h a b c d e f 0x0fc19dc68b8cd5b5 w2;
          w3 = w3 + (sha512_sigma1 w1 + w12 + sha512_sigma0 w4); (a, e) = sha512_Round f g h a b c d e 0x240ca1cc77ac9c65 w3;
          w4 = w4 + (sha512_sigma1 w2 + w13 + sha512_sigma0 w5); (h, d) = sha512_Round e f g h a b c d 0x2de92c6f592b0275 w4;
          w5 = w5 + (sha512_sigma1 w3 + w14 + sha512_sigma0 w6); (g, c) = sha512_Round d e f g h a b c 0x4a7484aa6ea6e483 w5;
          w6 = w6 + (sha512_sigma1 w4 + w15 + sha512_sigma0 w7); (f, b) = sha512_Round c d e f g h a b 0x5cb0a9dcbd41fbd4 w6;
          w7 = w7 + (sha512_sigma1 w5 + w0 + sha512_sigma0 w8); (e, a) = sha512_Round b c d e f g h a 0x76f988da831153b5 w7;
          w8 = w8 + (sha512_sigma1 w6 + w1 + sha512_sigma0 w9); (d, h) = sha512_Round a b c d e f g h 0x983e5152ee66dfab w8;
          w9 = w9 + (sha512_sigma1 w7 + w2 + sha512_sigma0 w10); (c, g) = sha512_Round h a b c d e f g 0xa831c66d2db43210 w9;
          w10 = w10 + (sha512_sigma1 w8 + w3 + sha512_sigma0 w11); (b, f) = sha512_Round g h a b c d e f 0xb00327c898fb213f w10;
          w11 = w11 + (sha512_sigma1 w9 + w4 + sha512_sigma0 w12); (a, e) = sha512_Round f g h a b c d e 0xbf597fc7beef0ee4 w11;
          w12 = w12 + (sha512_sigma1 w10 + w5 + sha512_sigma0 w13); (h, d) = sha512_Round e f g h a b c d 0xc6e00bf33da88fc2 w12;
          w13 = w13 + (sha512_sigma1 w11 + w6 + sha512_sigma0 w14); (g, c) = sha512_Round d e f g h a b c 0xd5a79147930aa725 w13;
          w14 = w14 + (sha512_sigma1 w12 + w7 + sha512_sigma0 w15); (f, b) = sha512_Round c d e f g h a b 0x06ca6351e003826f w14;
          w15 = w15 + (sha512_sigma1 w13 + w8 + sha512_sigma0 w0); (e, a) = sha512_Round b c d e f g h a 0x142929670a0e6e70 w15;
          w0 = w0 + (sha512_sigma1 w14 + w9 + sha512_sigma0 w1); (d, h) = sha512_Round a b c d e f g h 0x27b70a8546d22ffc w0;
          w1 = w1 + (sha512_sigma1 w15 + w10 + sha512_sigma0 w2); (c, g) = sha512_Round h a b c d e f g 0x2e1b21385c26c926 w1;
          w2 = w2 + (sha512_sigma1 w0 + w11 + sha512_sigma0 w3); (b, f) = sha512_Round g h a b c d e f 0x4d2c6dfc5ac42aed w2;
          w3 = w3 + (sha512_sigma1 w1 + w12 + sha512_sigma0 w4); (a, e) = sha512_Round f g h a b c d e 0x53380d139d95b3df w3;
          w4 = w4 + (sha512_sigma1 w2 + w13 + sha512_sigma0 w5); (h, d) = sha512_Round e f g h a b c d 0x650a73548baf63de w4;
          w5 = w5 + (sha512_sigma1 w3 + w14 + sha512_sigma0 w6); (g, c) = sha512_Round d e f g h a b c 0x766a0abb3c77b2a8 w5;
          w6 = w6 + (sha512_sigma1 w4 + w15 + sha512_sigma0 w7); (f, b) = sha512_Round c d e f g h a b 0x81c2c92e47edaee6 w6;
          w7 = w7 + (sha512_sigma1 w5 + w0 + sha512_sigma0 w8); (e, a) = sha512_Round b c d e f g h a 0x92722c851482353b w7;
          w8 = w8 + (sha512_sigma1 w6 + w1 + sha512_sigma0 w9); (d, h) = sha512_Round a b c d e f g h 0xa2bfe8a14cf10364 w8;
          w9 = w9 + (sha512_sigma1 w7 + w2 + sha512_sigma0 w10); (c, g) = sha512_Round h a b c d e f g 0xa81a664bbc423001 w9;
          w10 = w10 + (sha512_sigma1 w8 + w3 + sha512_sigma0 w11); (b, f) = sha512_Round g h a b c d e f 0xc24b8b70d0f89791 w10;
          w11 = w11 + (sha512_sigma1 w9 + w4 + sha512_sigma0 w12); (a, e) = sha512_Round f g h a b c d e 0xc76c51a30654be30 w11;
          w12 = w12 + (sha512_sigma1 w10 + w5 + sha512_sigma0 w13); (h, d) = sha512_Round e f g h a b c d 0xd192e819d6ef5218 w12;
          w13 = w13 + (sha512_sigma1 w11 + w6 + sha512_sigma0 w14); (g, c) = sha512_Round d e f g h a b c 0xd69906245565a910 w13;
          w14 = w14 + (sha512_sigma1 w12 + w7 + sha512_sigma0 w15); (f, b) = sha512_Round c d e f g h a b 0xf40e35855771202a w14;
          w15 = w15 + (sha512_sigma1 w13 + w8 + sha512_sigma0 w0); (e, a) = sha512_Round b c d e f g h a 0x106aa07032bbd1b8 w15;
          w0 = w0 + (sha512_sigma1 w14 + w9 + sha512_sigma0 w1); (d, h) = sha512_Round a b c d e f g h 0x19a4c116b8d2d0c8 w0;
          w1 = w1 + (sha512_sigma1 w15 + w10 + sha512_sigma0 w2); (c, g) = sha512_Round h a b c d e f g 0x1e376c085141ab53 w1;
          w2 = w2 + (sha512_sigma1 w0 + w11 + sha512_sigma0 w3); (b, f) = sha512_Round g h a b c d e f 0x2748774cdf8eeb99 w2;
          w3 = w3 + (sha512_sigma1 w1 + w12 + sha512_sigma0 w4); (a, e) = sha512_Round f g h a b c d e 0x34b0bcb5e19b48a8 w3;
          w4 = w4 + (sha512_sigma1 w2 + w13 + sha512_sigma0 w5); (h, d) = sha512_Round e f g h a b c d 0x391c0cb3c5c95a63 w4;
          w5 = w5 + (sha512_sigma1 w3 + w14 + sha512_sigma0 w6); (g, c) = sha512_Round d e f g h a b c 0x4ed8aa4ae3418acb w5;
          w6 = w6 + (sha512_sigma1 w4 + w15 + sha512_sigma0 w7); (f, b) = sha512_Round c d e f g h a b 0x5b9cca4f7763e373 w6;
          w7 = w7 + (sha512_sigma1 w5 + w0 + sha512_sigma0 w8); (e, a) = sha512_Round b c d e f g h a 0x682e6ff3d6b2b8a3 w7;
          w8 = w8 + (sha512_sigma1 w6 + w1 + sha512_sigma0 w9); (d, h) = sha512_Round a b c d e f g h 0x748f82ee5defb2fc w8;
          w9 = w9 + (sha512_sigma1 w7 + w2 + sha512_sigma0 w10); (c, g) = sha512_Round h a b c d e f g 0x78a5636f43172f60 w9;
          w10 = w10 + (sha512_sigma1 w8 + w3 + sha512_sigma0 w11); (b, f) = sha512_Round g h a b c d e f 0x84c87814a1f0ab72 w10;
          w11 = w11 + (sha512_sigma1 w9 + w4 + sha512_sigma0 w12); (a, e) = sha512_Round f g h a b c d e 0x8cc702081a6439ec w11;
          w12 = w12 + (sha512_sigma1 w10 + w5 + sha512_sigma0 w13); (h, d) = sha512_Round e f g h a b c d 0x90befffa23631e28 w12;
          w13 = w13 + (sha512_sigma1 w11 + w6 + sha512_sigma0 w14); (g, c) = sha512_Round d e f g h a b c 0xa4506cebde82bde9 w13;
          w14 = w14 + (sha512_sigma1 w12 + w7 + sha512_sigma0 w15); (f, b) = sha512_Round c d e f g h a b 0xbef9a3f7b2c67915 w14;
          w15 = w15 + (sha512_sigma1 w13 + w8 + sha512_sigma0 w0); (e, a) = sha512_Round b c d e f g h a 0xc67178f2e372532b w15;
          w0 = w0 + (sha512_sigma1 w14 + w9 + sha512_sigma0 w1); (d, h) = sha512_Round a b c d e f g h 0xca273eceea26619c w0;
          w1 = w1 + (sha512_sigma1 w15 + w10 + sha512_sigma0 w2); (c, g) = sha512_Round h a b c d e f g 0xd186b8c721c0c207 w1;
          w2 = w2 + (sha512_sigma1 w0 + w11 + sha512_sigma0 w3); (b, f) = sha512_Round g h a b c d e f 0xeada7dd6cde0eb1e w2;
          w3 = w3 + (sha512_sigma1 w1 + w12 + sha512_sigma0 w4); (a, e) = sha512_Round f g h a b c d e 0xf57d4f7fee6ed178 w3;
          w4 = w4 + (sha512_sigma1 w2 + w13 + sha512_sigma0 w5); (h, d) = sha512_Round e f g h a b c d 0x06f067aa72176fba w4;
          w5 = w5 + (sha512_sigma1 w3 + w14 + sha512_sigma0 w6); (g, c) = sha512_Round d e f g h a b c 0x0a637dc5a2c898a6 w5;
          w6 = w6 + (sha512_sigma1 w4 + w15 + sha512_sigma0 w7); (f, b) = sha512_Round c d e f g h a b 0x113f9804bef90dae w6;
          w7 = w7 + (sha512_sigma1 w5 + w0 + sha512_sigma0 w8); (e, a) = sha512_Round b c d e f g h a 0x1b710b35131c471b w7;
          w8 = w8 + (sha512_sigma1 w6 + w1 + sha512_sigma0 w9); (d, h) = sha512_Round a b c d e f g h 0x28db77f523047d84 w8;
          w9 = w9 + (sha512_sigma1 w7 + w2 + sha512_sigma0 w10); (c, g) = sha512_Round h a b c d e f g 0x32caab7b40c72493 w9;
          w10 = w10 + (sha512_sigma1 w8 + w3 + sha512_sigma0 w11); (b, f) = sha512_Round g h a b c d e f 0x3c9ebe0a15c9bebc w10;
          w11 = w11 + (sha512_sigma1 w9 + w4 + sha512_sigma0 w12); (a, e) = sha512_Round f g h a b c d e 0x431d67c49c100d4c w11;
          w12 = w12 + (sha512_sigma1 w10 + w5 + sha512_sigma0 w13); (h, d) = sha512_Round e f g h a b c d 0x4cc5d4becb3e42b6 w12;
          w13 = w13 + (sha512_sigma1 w11 + w6 + sha512_sigma0 w14); (g, c) = sha512_Round d e f g h a b c 0x597f299cfc657e2a w13;
          w = w14 + sha512_sigma1 w12 + w7 + sha512_sigma0 w15; (f, b) = sha512_Round c d e f g h a b 0x5fcb6fab3ad6faec w;
          w = w15 + sha512_sigma1 w13 + w8 + sha512_sigma0 w0; (e, a) = sha512_Round b c d e f g h a 0x6c44198c4a475817 w
      in [s ! 0 + a, s ! 1 + b, s ! 2 + c, s ! 3 + d, s ! 4 + e, s ! 5 + f, s ! 6 + g, s ! 7 + h])"

section \<open>The hasher object\<close>

text \<open>The constructor leaves the buffer as it finds it: \<open>junk\<close> is what the memory held.\<close>

definition CSHA512 :: "byte list \<Rightarrow> uint64 list hasher" where
  "CSHA512 junk = \<lparr>hs = sha512_Initialize, hbuf = junk, hbytes = 0\<rparr>"

definition CSHA512_Write :: "uint64 list hasher \<Rightarrow> byte list \<Rightarrow> uint64 list hasher" where
  "CSHA512_Write = hasher_Write 128 sha512_Transform"

definition CSHA512_Finalize :: "uint64 list hasher \<Rightarrow> byte list \<times> uint64 list hasher" where
  "CSHA512_Finalize h =
     (let h = hasher_Finalize 128 sha512_Transform 239 (\<lambda>n. replicate 8 0 @ WriteBE64 n) h; s = hs h
      in (WriteBE64 (s ! 0) @ WriteBE64 (s ! 1) @ WriteBE64 (s ! 2) @ WriteBE64 (s ! 3) @
          WriteBE64 (s ! 4) @ WriteBE64 (s ! 5) @ WriteBE64 (s ! 6) @ WriteBE64 (s ! 7), h))"

definition CSHA512_Reset :: "uint64 list hasher \<Rightarrow> uint64 list hasher" where
  "CSHA512_Reset h = h\<lparr>hbytes := 0, hs := sha512_Initialize\<rparr>"

lemma length_CSHA512_Finalize [simp]: "length (fst (CSHA512_Finalize h)) = 64"
  by (simp add: CSHA512_Finalize_def Let_def)

section \<open>The standard\<close>

text \<open>The round constants, each with the prime the standard derives it from.\<close>

definition sha512_constants :: "(int \<times> uint64) list" where
  "sha512_constants =
     [(2, 0x428a2f98d728ae22), (3, 0x7137449123ef65cd), (5, 0xb5c0fbcfec4d3b2f), (7, 0xe9b5dba58189dbbc),
      (11, 0x3956c25bf348b538), (13, 0x59f111f1b605d019), (17, 0x923f82a4af194f9b), (19, 0xab1c5ed5da6d8118),
      (23, 0xd807aa98a3030242), (29, 0x12835b0145706fbe), (31, 0x243185be4ee4b28c), (37, 0x550c7dc3d5ffb4e2),
      (41, 0x72be5d74f27b896f), (43, 0x80deb1fe3b1696b1), (47, 0x9bdc06a725c71235), (53, 0xc19bf174cf692694),
      (59, 0xe49b69c19ef14ad2), (61, 0xefbe4786384f25e3), (67, 0x0fc19dc68b8cd5b5), (71, 0x240ca1cc77ac9c65),
      (73, 0x2de92c6f592b0275), (79, 0x4a7484aa6ea6e483), (83, 0x5cb0a9dcbd41fbd4), (89, 0x76f988da831153b5),
      (97, 0x983e5152ee66dfab), (101, 0xa831c66d2db43210), (103, 0xb00327c898fb213f), (107, 0xbf597fc7beef0ee4),
      (109, 0xc6e00bf33da88fc2), (113, 0xd5a79147930aa725), (127, 0x06ca6351e003826f), (131, 0x142929670a0e6e70),
      (137, 0x27b70a8546d22ffc), (139, 0x2e1b21385c26c926), (149, 0x4d2c6dfc5ac42aed), (151, 0x53380d139d95b3df),
      (157, 0x650a73548baf63de), (163, 0x766a0abb3c77b2a8), (167, 0x81c2c92e47edaee6), (173, 0x92722c851482353b),
      (179, 0xa2bfe8a14cf10364), (181, 0xa81a664bbc423001), (191, 0xc24b8b70d0f89791), (193, 0xc76c51a30654be30),
      (197, 0xd192e819d6ef5218), (199, 0xd69906245565a910), (211, 0xf40e35855771202a), (223, 0x106aa07032bbd1b8),
      (227, 0x19a4c116b8d2d0c8), (229, 0x1e376c085141ab53), (233, 0x2748774cdf8eeb99), (239, 0x34b0bcb5e19b48a8),
      (241, 0x391c0cb3c5c95a63), (251, 0x4ed8aa4ae3418acb), (257, 0x5b9cca4f7763e373), (263, 0x682e6ff3d6b2b8a3),
      (269, 0x748f82ee5defb2fc), (271, 0x78a5636f43172f60), (277, 0x84c87814a1f0ab72), (281, 0x8cc702081a6439ec),
      (283, 0x90befffa23631e28), (293, 0xa4506cebde82bde9), (307, 0xbef9a3f7b2c67915), (311, 0xc67178f2e372532b),
      (313, 0xca273eceea26619c), (317, 0xd186b8c721c0c207), (331, 0xeada7dd6cde0eb1e), (337, 0xf57d4f7fee6ed178),
      (347, 0x06f067aa72176fba), (349, 0x0a637dc5a2c898a6), (353, 0x113f9804bef90dae), (359, 0x1b710b35131c471b),
      (367, 0x28db77f523047d84), (373, 0x32caab7b40c72493), (379, 0x3c9ebe0a15c9bebc), (383, 0x431d67c49c100d4c),
      (389, 0x4cc5d4becb3e42b6), (397, 0x597f299cfc657e2a), (401, 0x5fcb6fab3ad6faec), (409, 0x6c44198c4a475817)]"

definition sha512_K :: "uint64 list" where
  "sha512_K = map snd sha512_constants"

abbreviation sha512_S0 :: "uint64 \<Rightarrow> uint64" where "sha512_S0 \<equiv> fips_Sum 28 34 39"
abbreviation sha512_S1 :: "uint64 \<Rightarrow> uint64" where "sha512_S1 \<equiv> fips_Sum 14 18 41"
abbreviation sha512_s0 :: "uint64 \<Rightarrow> uint64" where "sha512_s0 \<equiv> fips_sigma 1 8 7"
abbreviation sha512_s1 :: "uint64 \<Rightarrow> uint64" where "sha512_s1 \<equiv> fips_sigma 19 61 6"

definition fips_sha512_compress :: "uint64 list \<Rightarrow> byte list \<Rightarrow> uint64 list" where
  "fips_sha512_compress H block =
     add_vars H
       (fips_rounds sha512_S0 sha512_S1
         (fips_W sha512_s0 sha512_s1 (\<lambda>t. of_nat (be_decode (take 8 (drop (8 * t) block)))))
         sha512_K 0 (H ! 0, H ! 1, H ! 2, H ! 3, H ! 4, H ! 5, H ! 6, H ! 7))"

definition fips_sha512 :: "byte list \<Rightarrow> byte list" where
  "fips_sha512 m =
     concat (map (\<lambda>x. be_encode 8 (unat x))
       (foldl fips_sha512_compress sha512_Initialize (chunks 128 (md_pad 128 (be_encode 16 (8 * length m)) m))))"

text \<open>The constants are the fractional parts of the roots of their primes.\<close>

lemma sha512_constants_valid:
  "list_all (\<lambda>(p, k). root_fraction 3 64 p (uint k)) sha512_constants"
  "list_all2 (root_fraction 2 64) [2, 3, 5, 7, 11, 13, 17, 19] (map uint sha512_Initialize)"
  by code_simp+


section \<open>The class implements the standard\<close>

definition sha512_words :: "byte list \<Rightarrow> uint64 list" where
  "sha512_words chunk =
     [ReadBE64 chunk 0, ReadBE64 chunk 8, ReadBE64 chunk 16, ReadBE64 chunk 24,
      ReadBE64 chunk 32, ReadBE64 chunk 40, ReadBE64 chunk 48, ReadBE64 chunk 56,
      ReadBE64 chunk 64, ReadBE64 chunk 72, ReadBE64 chunk 80, ReadBE64 chunk 88,
      ReadBE64 chunk 96, ReadBE64 chunk 104, ReadBE64 chunk 112, ReadBE64 chunk 120]"

lemma sha512_Transform_unrolled:
  "sha512_Transform s chunk =
   (let a = s ! 0; b = s ! 1; c = s ! 2; d = s ! 3; e = s ! 4; f = s ! 5; g = s ! 6; h = s ! 7
    in sha_feed sha512_Round sha512_sigma0 sha512_sigma1 s (drop 16 sha512_K)
         (zip (take 16 sha512_K) (sha512_words chunk)) [] (a, b, c, d, e, f, g, h))"
proof -
  note K = sha512_K_def [THEN arg_cong, of "drop 16", simplified sha512_constants_def, simplified]
    sha512_K_def [THEN arg_cong, of "take 16", simplified sha512_constants_def, simplified]
  show ?thesis
    unfolding K sha512_words_def zip_Cons_Cons zip.simps(1) sha512_Transform_def sha_feed.simps append.simps
      window_list sha_roll.simps add_vars.simps add.assoc
    by (rule refl)
qed

lemma sha512_functions:
  "sha512_Ch = fips_Ch" "sha512_Maj = fips_Maj"
  "sha512_Sigma0 = sha512_S0" "sha512_Sigma1 = sha512_S1" "sha512_sigma0 = sha512_s0" "sha512_sigma1 = sha512_s1"
proof -
  note r = rotr_shifts [where 'w = 64, simplified]
  show "sha512_Ch = fips_Ch" "sha512_Maj = fips_Maj"
    by (intro ext; simp only: sha512_Ch_def sha512_Maj_def Ch_eq Maj_eq)+
  show "sha512_Sigma0 = sha512_S0"
    by (intro ext; simp add: sha512_Sigma0_def fips_Sum_def r [of 28, simplified] r [of 34, simplified] r [of 39, simplified])
  show "sha512_Sigma1 = sha512_S1"
    by (intro ext; simp add: sha512_Sigma1_def fips_Sum_def r [of 14, simplified] r [of 18, simplified] r [of 41, simplified])
  show "sha512_sigma0 = sha512_s0"
    by (intro ext; simp add: sha512_sigma0_def fips_sigma_def r [of 1, simplified] r [of 8, simplified])
  show "sha512_sigma1 = sha512_s1"
    by (intro ext; simp add: sha512_sigma1_def fips_sigma_def r [of 19, simplified] r [of 61, simplified])
qed

interpretation sha512: sha2_member sha512_Round sha512_S0 sha512_S1 sha512_s0 sha512_s1
  by unfold_locales (simp add: sha512_Round_def sha512_functions Let_def)

lemma sha512_Transform_compress: "sha512_Transform = fips_sha512_compress"
proof (intro ext)
  fix H :: "uint64 list" and block
  define W where "W = fips_W sha512_s0 sha512_s1 (\<lambda>t. of_nat (be_decode (take 8 (drop (8 * t) block))))"
  have W: "W t = ReadBE64 block (8 * t)" if "t < 16" for t
    using that by (simp add: W_def fips_W.simps [of _ _ _ t] ReadBE64_def)
  let ?kxs = "zip (take 16 sha512_K) (sha512_words block)"
  have "map snd ?kxs = map W [0..<16]" "map fst ?kxs = take 16 sha512_K" "length ?kxs = 16"
    by (simp_all add: sha512_words_def sha512_K_def sha512_constants_def upt_0_16 W)
  then have "sha512_Transform H block =
      add_vars H (fips_rounds sha512_S0 sha512_S1 W (take 16 sha512_K @ drop 16 sha512_K) 0
        (H ! 0, H ! 1, H ! 2, H ! 3, H ! 4, H ! 5, H ! 6, H ! 7))"
    unfolding sha512_Transform_unrolled Let_def sha512_functions
    by (subst sha512.feed_fips [OF W_def]) simp_all
  then show "sha512_Transform H block = fips_sha512_compress H block"
    by (simp only: fips_sha512_compress_def W_def append_take_drop_id)
qed

interpretation sha512h: padded_hash 128 sha512_Transform 239 16 "\<lambda>n. replicate 8 0 @ WriteBE64 n"
  by unfold_locales simp_all

lemma CSHA512_digest:
  assumes "hs h = sha512_Initialize" "hbytes h = 0" "length (hbuf h) = 128" "length (concat ds) < 2 ^ 61"
    and h': "h' = foldl CSHA512_Write h ds"
  shows "fst (CSHA512_Finalize h') = fips_sha512 (concat ds)" "length (hbuf (snd (CSHA512_Finalize h'))) = 128"
proof -
  let ?h = "hasher_Finalize 128 sha512_Transform 239 (\<lambda>n. replicate 8 0 @ WriteBE64 n) (foldl (hasher_Write 128 sha512_Transform) h ds)"
  note d = sha512h.digest_of_pieces [OF assms(1-3) refl, of ds]
  have "length (hs ?h) = 8"
    unfolding d(1) by (rule length_foldl_blocks)
      (simp_all add: sha512_Transform_compress fips_sha512_compress_def sha512_Initialize_def)
  from concat_map_8 [OF this, of "WriteBE64"]
  have "fst (CSHA512_Finalize h') = concat (map WriteBE64 (hs ?h))"
    by (simp add: CSHA512_Finalize_def CSHA512_Write_def h' Let_def)
  then show "fst (CSHA512_Finalize h') = fips_sha512 (concat ds)"
    unfolding d(1) wide_field [OF assms(4)]
    by (simp only: fips_sha512_def sha512_Transform_compress WriteBE64_def [abs_def])
  show "length (hbuf (snd (CSHA512_Finalize h'))) = 128"
    using d(2) by (simp add: CSHA512_Finalize_def CSHA512_Write_def h' Let_def)
qed

text \<open>
  C13: The class \<open>CSHA512\<close> computes SHA-512 of FIPS 180-4: whatever the sequence of \<open>Write\<close> calls a message
  is split into, the digest is the standard's hash of the whole message. The unrolled 
  transformation, the buffering over block boundaries and the padding are right for every length below 2^61 bytes,
  and the contents of the uninitialised buffer never reach the digest.
\<close>

theorem sha512_correct:
  assumes "length junk = 128" "length (concat ds) < 2 ^ 61"
  shows "fst (CSHA512_Finalize (foldl CSHA512_Write (CSHA512 junk) ds)) = fips_sha512 (concat ds)"
  by (rule CSHA512_digest [OF _ _ _ assms(2) refl]) (simp_all add: CSHA512_def assms)

theorem sha512_correct_witness:
  "fst (CSHA512_Finalize (foldl CSHA512_Write (CSHA512 (replicate 128 0xcc)) [[0x61], replicate 100 0x62, []])) =
     fips_sha512 (0x61 # replicate 100 0x62)"
  using sha512_correct [of "replicate 128 0xcc" "[[0x61], replicate 100 0x62, []]"] by simp

end
