(* ===== verification/Sha1.thy ===== *)
theory Sha1
  imports Sha2
begin

text \<open>
  The class \<open>CSHA1\<close> of \<open>src/src/crypto/sha1.cpp\<close>: the unrolled 80 rounds line by line, the hasher
  object, and the proof that the class computes SHA-1 as FIPS 180-4 defines it.
\<close>

section \<open>The block transformation\<close>

definition sha1_Round ::
    "uint32 \<Rightarrow> uint32 \<Rightarrow> uint32 \<Rightarrow> uint32 \<Rightarrow> uint32 \<Rightarrow> uint32 \<Rightarrow> uint32 \<Rightarrow> uint32 \<Rightarrow> uint32 \<times> uint32" where
  "sha1_Round a b c d e f k w =
     (let e = e + ((push_bit 5 a OR drop_bit 27 a) + f + k + w);
          b = push_bit 30 b OR drop_bit 2 b
      in (b, e))"

definition sha1_f1 :: "uint32 \<Rightarrow> uint32 \<Rightarrow> uint32 \<Rightarrow> uint32" where
  "sha1_f1 b c d = d XOR (b AND (c XOR d))"

definition sha1_f2 :: "uint32 \<Rightarrow> uint32 \<Rightarrow> uint32 \<Rightarrow> uint32" where
  "sha1_f2 b c d = b XOR c XOR d"

definition sha1_f3 :: "uint32 \<Rightarrow> uint32 \<Rightarrow> uint32 \<Rightarrow> uint32" where
  "sha1_f3 b c d = (b AND c) OR (d AND (b OR c))"

definition sha1_left :: "uint32 \<Rightarrow> uint32" where
  "sha1_left x = push_bit 1 x OR drop_bit 31 x"

definition sha1_Initialize :: "uint32 list" where
  "sha1_Initialize = [0x67452301, 0xEFCDAB89, 0x98BADCFE, 0x10325476, 0xC3D2E1F0]"

definition sha1_k1 :: uint32 where "sha1_k1 = 0x5A827999"
definition sha1_k2 :: uint32 where "sha1_k2 = 0x6ED9EBA1"
definition sha1_k3 :: uint32 where "sha1_k3 = 0x8F1BBCDC"
definition sha1_k4 :: uint32 where "sha1_k4 = 0xCA62C1D6"

definition sha1_Transform :: "uint32 list \<Rightarrow> byte list \<Rightarrow> uint32 list" where
  "sha1_Transform s chunk =
     (let a = s ! 0; b = s ! 1; c = s ! 2; d = s ! 3; e = s ! 4;
          w0 = ReadBE32 chunk 0; (b, e) = sha1_Round a b c d e (sha1_f1 b c d) sha1_k1 w0;
          w1 = ReadBE32 chunk 4; (a, d) = sha1_Round e a b c d (sha1_f1 a b c) sha1_k1 w1;
          w2 = ReadBE32 chunk 8; (e, c) = sha1_Round d e a b c (sha1_f1 e a b) sha1_k1 w2;
          w3 = ReadBE32 chunk 12; (d, b) = sha1_Round c d e a b (sha1_f1 d e a) sha1_k1 w3;
          w4 = ReadBE32 chunk 16; (c, a) = sha1_Round b c d e a (sha1_f1 c d e) sha1_k1 w4;
          w5 = ReadBE32 chunk 20; (b, e) = sha1_Round a b c d e (sha1_f1 b c d) sha1_k1 w5;
          w6 = ReadBE32 chunk 24; (a, d) = sha1_Round e a b c d (sha1_f1 a b c) sha1_k1 w6;
          w7 = ReadBE32 chunk 28; (e, c) = sha1_Round d e a b c (sha1_f1 e a b) sha1_k1 w7;
          w8 = ReadBE32 chunk 32; (d, b) = sha1_Round c d e a b (sha1_f1 d e a) sha1_k1 w8;
          w9 = ReadBE32 chunk 36; (c, a) = sha1_Round b c d e a (sha1_f1 c d e) sha1_k1 w9;
          w10 = ReadBE32 chunk 40; (b, e) = sha1_Round a b c d e (sha1_f1 b c d) sha1_k1 w10;
          w11 = ReadBE32 chunk 44; (a, d) = sha1_Round e a b c d (sha1_f1 a b c) sha1_k1 w11;
          w12 = ReadBE32 chunk 48; (e, c) = sha1_Round d e a b c (sha1_f1 e a b) sha1_k1 w12;
          w13 = ReadBE32 chunk 52; (d, b) = sha1_Round c d e a b (sha1_f1 d e a) sha1_k1 w13;
          w14 = ReadBE32 chunk 56; (c, a) = sha1_Round b c d e a (sha1_f1 c d e) sha1_k1 w14;
          w15 = ReadBE32 chunk 60; (b, e) = sha1_Round a b c d e (sha1_f1 b c d) sha1_k1 w15;
          w0 = sha1_left (w0 XOR w13 XOR w8 XOR w2); (a, d) = sha1_Round e a b c d (sha1_f1 a b c) sha1_k1 w0;
          w1 = sha1_left (w1 XOR w14 XOR w9 XOR w3); (e, c) = sha1_Round d e a b c (sha1_f1 e a b) sha1_k1 w1;
          w2 = sha1_left (w2 XOR w15 XOR w10 XOR w4); (d, b) = sha1_Round c d e a b (sha1_f1 d e a) sha1_k1 w2;
          w3 = sha1_left (w3 XOR w0 XOR w11 XOR w5); (c, a) = sha1_Round b c d e a (sha1_f1 c d e) sha1_k1 w3;
          w4 = sha1_left (w4 XOR w1 XOR w12 XOR w6); (b, e) = sha1_Round a b c d e (sha1_f2 b c d) sha1_k2 w4;
          w5 = sha1_left (w5 XOR w2 XOR w13 XOR w7); (a, d) = sha1_Round e a b c d (sha1_f2 a b c) sha1_k2 w5;
          w6 = sha1_left (w6 XOR w3 XOR w14 XOR w8); (e, c) = sha1_Round d e a b c (sha1_f2 e a b) sha1_k2 w6;
          w7 = sha1_left (w7 XOR w4 XOR w15 XOR w9); (d, b) = sha1_Round c d e a b (sha1_f2 d e a) sha1_k2 w7;
          w8 = sha1_left (w8 XOR w5 XOR w0 XOR w10); (c, a) = sha1_Round b c d e a (sha1_f2 c d e) sha1_k2 w8;
          w9 = sha1_left (w9 XOR w6 XOR w1 XOR w11); (b, e) = sha1_Round a b c d e (sha1_f2 b c d) sha1_k2 w9;
          w10 = sha1_left (w10 XOR w7 XOR w2 XOR w12); (a, d) = sha1_Round e a b c d (sha1_f2 a b c) sha1_k2 w10;
          w11 = sha1_left (w11 XOR w8 XOR w3 XOR w13); (e, c) = sha1_Round d e a b c (sha1_f2 e a b) sha1_k2 w11;
          w12 = sha1_left (w12 XOR w9 XOR w4 XOR w14); (d, b) = sha1_Round c d e a b (sha1_f2 d e a) sha1_k2 w12;
          w13 = sha1_left (w13 XOR w10 XOR w5 XOR w15); (c, a) = sha1_Round b c d e a (sha1_f2 c d e) sha1_k2 w13;
          w14 = sha1_left (w14 XOR w11 XOR w6 XOR w0); (b, e) = sha1_Round a b c d e (sha1_f2 b c d) sha1_k2 w14;
          w15 = sha1_left (w15 XOR w12 XOR w7 XOR w1); (a, d) = sha1_Round e a b c d (sha1_f2 a b c) sha1_k2 w15;
          w0 = sha1_left (w0 XOR w13 XOR w8 XOR w2); (e, c) = sha1_Round d e a b c (sha1_f2 e a b) sha1_k2 w0;
          w1 = sha1_left (w1 XOR w14 XOR w9 XOR w3); (d, b) = sha1_Round c d e a b (sha1_f2 d e a) sha1_k2 w1;
          w2 = sha1_left (w2 XOR w15 XOR w10 XOR w4); (c, a) = sha1_Round b c d e a (sha1_f2 c d e) sha1_k2 w2;
          w3 = sha1_left (w3 XOR w0 XOR w11 XOR w5); (b, e) = sha1_Round a b c d e (sha1_f2 b c d) sha1_k2 w3;
          w4 = sha1_left (w4 XOR w1 XOR w12 XOR w6); (a, d) = sha1_Round e a b c d (sha1_f2 a b c) sha1_k2 w4;
          w5 = sha1_left (w5 XOR w2 XOR w13 XOR w7); (e, c) = sha1_Round d e a b c (sha1_f2 e a b) sha1_k2 w5;
          w6 = sha1_left (w6 XOR w3 XOR w14 XOR w8); (d, b) = sha1_Round c d e a b (sha1_f2 d e a) sha1_k2 w6;
          w7 = sha1_left (w7 XOR w4 XOR w15 XOR w9); (c, a) = sha1_Round b c d e a (sha1_f2 c d e) sha1_k2 w7;
          w8 = sha1_left (w8 XOR w5 XOR w0 XOR w10); (b, e) = sha1_Round a b c d e (sha1_f3 b c d) sha1_k3 w8;
          w9 = sha1_left (w9 XOR w6 XOR w1 XOR w11); (a, d) = sha1_Round e a b c d (sha1_f3 a b c) sha1_k3 w9;
          w10 = sha1_left (w10 XOR w7 XOR w2 XOR w12); (e, c) = sha1_Round d e a b c (sha1_f3 e a b) sha1_k3 w10;
          w11 = sha1_left (w11 XOR w8 XOR w3 XOR w13); (d, b) = sha1_Round c d e a b (sha1_f3 d e a) sha1_k3 w11;
          w12 = sha1_left (w12 XOR w9 XOR w4 XOR w14); (c, a) = sha1_Round b c d e a (sha1_f3 c d e) sha1_k3 w12;
          w13 = sha1_left (w13 XOR w10 XOR w5 XOR w15); (b, e) = sha1_Round a b c d e (sha1_f3 b c d) sha1_k3 w13;
          w14 = sha1_left (w14 XOR w11 XOR w6 XOR w0); (a, d) = sha1_Round e a b c d (sha1_f3 a b c) sha1_k3 w14;
          w15 = sha1_left (w15 XOR w12 XOR w7 XOR w1); (e, c) = sha1_Round d e a b c (sha1_f3 e a b) sha1_k3 w15;
          w0 = sha1_left (w0 XOR w13 XOR w8 XOR w2); (d, b) = sha1_Round c d e a b (sha1_f3 d e a) sha1_k3 w0;
          w1 = sha1_left (w1 XOR w14 XOR w9 XOR w3); (c, a) = sha1_Round b c d e a (sha1_f3 c d e) sha1_k3 w1;
          w2 = sha1_left (w2 XOR w15 XOR w10 XOR w4); (b, e) = sha1_Round a b c d e (sha1_f3 b c d) sha1_k3 w2;
          w3 = sha1_left (w3 XOR w0 XOR w11 XOR w5); (a, d) = sha1_Round e a b c d (sha1_f3 a b c) sha1_k3 w3;
          w4 = sha1_left (w4 XOR w1 XOR w12 XOR w6); (e, c) = sha1_Round d e a b c (sha1_f3 e a b) sha1_k3 w4;
          w5 = sha1_left (w5 XOR w2 XOR w13 XOR w7); (d, b) = sha1_Round c d e a b (sha1_f3 d e a) sha1_k3 w5;
          w6 = sha1_left (w6 XOR w3 XOR w14 XOR w8); (c, a) = sha1_Round b c d e a (sha1_f3 c d e) sha1_k3 w6;
          w7 = sha1_left (w7 XOR w4 XOR w15 XOR w9); (b, e) = sha1_Round a b c d e (sha1_f3 b c d) sha1_k3 w7;
          w8 = sha1_left (w8 XOR w5 XOR w0 XOR w10); (a, d) = sha1_Round e a b c d (sha1_f3 a b c) sha1_k3 w8;
          w9 = sha1_left (w9 XOR w6 XOR w1 XOR w11); (e, c) = sha1_Round d e a b c (sha1_f3 e a b) sha1_k3 w9;
          w10 = sha1_left (w10 XOR w7 XOR w2 XOR w12); (d, b) = sha1_Round c d e a b (sha1_f3 d e a) sha1_k3 w10;
          w11 = sha1_left (w11 XOR w8 XOR w3 XOR w13); (c, a) = sha1_Round b c d e a (sha1_f3 c d e) sha1_k3 w11;
          w12 = sha1_left (w12 XOR w9 XOR w4 XOR w14); (b, e) = sha1_Round a b c d e (sha1_f2 b c d) sha1_k4 w12;
          w13 = sha1_left (w13 XOR w10 XOR w5 XOR w15); (a, d) = sha1_Round e a b c d (sha1_f2 a b c) sha1_k4 w13;
          w14 = sha1_left (w14 XOR w11 XOR w6 XOR w0); (e, c) = sha1_Round d e a b c (sha1_f2 e a b) sha1_k4 w14;
          w15 = sha1_left (w15 XOR w12 XOR w7 XOR w1); (d, b) = sha1_Round c d e a b (sha1_f2 d e a) sha1_k4 w15;
          w0 = sha1_left (w0 XOR w13 XOR w8 XOR w2); (c, a) = sha1_Round b c d e a (sha1_f2 c d e) sha1_k4 w0;
          w1 = sha1_left (w1 XOR w14 XOR w9 XOR w3); (b, e) = sha1_Round a b c d e (sha1_f2 b c d) sha1_k4 w1;
          w2 = sha1_left (w2 XOR w15 XOR w10 XOR w4); (a, d) = sha1_Round e a b c d (sha1_f2 a b c) sha1_k4 w2;
          w3 = sha1_left (w3 XOR w0 XOR w11 XOR w5); (e, c) = sha1_Round d e a b c (sha1_f2 e a b) sha1_k4 w3;
          w4 = sha1_left (w4 XOR w1 XOR w12 XOR w6); (d, b) = sha1_Round c d e a b (sha1_f2 d e a) sha1_k4 w4;
          w5 = sha1_left (w5 XOR w2 XOR w13 XOR w7); (c, a) = sha1_Round b c d e a (sha1_f2 c d e) sha1_k4 w5;
          w6 = sha1_left (w6 XOR w3 XOR w14 XOR w8); (b, e) = sha1_Round a b c d e (sha1_f2 b c d) sha1_k4 w6;
          w7 = sha1_left (w7 XOR w4 XOR w15 XOR w9); (a, d) = sha1_Round e a b c d (sha1_f2 a b c) sha1_k4 w7;
          w8 = sha1_left (w8 XOR w5 XOR w0 XOR w10); (e, c) = sha1_Round d e a b c (sha1_f2 e a b) sha1_k4 w8;
          w9 = sha1_left (w9 XOR w6 XOR w1 XOR w11); (d, b) = sha1_Round c d e a b (sha1_f2 d e a) sha1_k4 w9;
          w10 = sha1_left (w10 XOR w7 XOR w2 XOR w12); (c, a) = sha1_Round b c d e a (sha1_f2 c d e) sha1_k4 w10;
          w11 = sha1_left (w11 XOR w8 XOR w3 XOR w13); (b, e) = sha1_Round a b c d e (sha1_f2 b c d) sha1_k4 w11;
          w12 = sha1_left (w12 XOR w9 XOR w4 XOR w14); (a, d) = sha1_Round e a b c d (sha1_f2 a b c) sha1_k4 w12;
          w = sha1_left (w13 XOR w10 XOR w5 XOR w15); (e, c) = sha1_Round d e a b c (sha1_f2 e a b) sha1_k4 w;
          w = sha1_left (w14 XOR w11 XOR w6 XOR w0); (d, b) = sha1_Round c d e a b (sha1_f2 d e a) sha1_k4 w;
          w = sha1_left (w15 XOR w12 XOR w7 XOR w1); (c, a) = sha1_Round b c d e a (sha1_f2 c d e) sha1_k4 w
      in [s ! 0 + a, s ! 1 + b, s ! 2 + c, s ! 3 + d, s ! 4 + e])"

section \<open>The hasher object\<close>

definition CSHA1 :: "byte list \<Rightarrow> uint32 list hasher" where
  "CSHA1 junk = \<lparr>hs = sha1_Initialize, hbuf = junk, hbytes = 0\<rparr>"

definition CSHA1_Write :: "uint32 list hasher \<Rightarrow> byte list \<Rightarrow> uint32 list hasher" where
  "CSHA1_Write = hasher_Write 64 sha1_Transform"

definition CSHA1_Finalize :: "uint32 list hasher \<Rightarrow> byte list \<times> uint32 list hasher" where
  "CSHA1_Finalize h =
     (let h = hasher_Finalize 64 sha1_Transform 119 WriteBE64 h; s = hs h
      in (WriteBE32 (s ! 0) @ WriteBE32 (s ! 1) @ WriteBE32 (s ! 2) @ WriteBE32 (s ! 3) @
          WriteBE32 (s ! 4), h))"

definition CSHA1_Reset :: "uint32 list hasher \<Rightarrow> uint32 list hasher" where
  "CSHA1_Reset h = h\<lparr>hbytes := 0, hs := sha1_Initialize\<rparr>"

lemma length_CSHA1_Finalize [simp]: "length (fst (CSHA1_Finalize h)) = 20"
  by (simp add: CSHA1_Finalize_def Let_def)

section \<open>The standard\<close>

type_synonym vars5 = "uint32 \<times> uint32 \<times> uint32 \<times> uint32 \<times> uint32"

definition fips_Parity :: "uint32 \<Rightarrow> uint32 \<Rightarrow> uint32 \<Rightarrow> uint32" where
  "fips_Parity x y z = x XOR y XOR z"

fun fips_sha1_W :: "(nat \<Rightarrow> uint32) \<Rightarrow> nat \<Rightarrow> uint32" where
  "fips_sha1_W M t =
     (if t < 16 then M t
      else word_rotl 1 (fips_sha1_W M (t - 3) XOR fips_sha1_W M (t - 8) XOR fips_sha1_W M (t - 14) XOR
             fips_sha1_W M (t - 16)))"

declare fips_sha1_W.simps [simp del]

definition fips_sha1_fK :: "nat \<Rightarrow> (uint32 \<Rightarrow> uint32 \<Rightarrow> uint32 \<Rightarrow> uint32) \<times> uint32" where
  "fips_sha1_fK t =
     (if t < 20 then (fips_Ch, 0x5a827999)
      else if t < 40 then (fips_Parity, 0x6ed9eba1)
      else if t < 60 then (fips_Maj, 0x8f1bbcdc)
      else (fips_Parity, 0xca62c1d6))"

fun fips_sha1_step :: "(uint32 \<Rightarrow> uint32 \<Rightarrow> uint32 \<Rightarrow> uint32) \<times> uint32 \<Rightarrow> uint32 \<Rightarrow> vars5 \<Rightarrow> vars5" where
  "fips_sha1_step (f, K) w (a, b, c, d, e) =
     (word_rotl 5 a + f b c d + e + K + w, a, word_rotl 30 b, c, d)"

fun fips_sha1_rounds ::
    "(nat \<Rightarrow> uint32) \<Rightarrow> ((uint32 \<Rightarrow> uint32 \<Rightarrow> uint32 \<Rightarrow> uint32) \<times> uint32) list \<Rightarrow> nat \<Rightarrow> vars5 \<Rightarrow> vars5" where
  "fips_sha1_rounds W [] t v = v"
| "fips_sha1_rounds W (fk # fks) t v = fips_sha1_rounds W fks (Suc t) (fips_sha1_step fk (W t) v)"

fun add_vars5 :: "uint32 list \<Rightarrow> vars5 \<Rightarrow> uint32 list" where
  "add_vars5 s (a, b, c, d, e) = [s ! 0 + a, s ! 1 + b, s ! 2 + c, s ! 3 + d, s ! 4 + e]"

definition fips_sha1_compress :: "uint32 list \<Rightarrow> byte list \<Rightarrow> uint32 list" where
  "fips_sha1_compress H block =
     add_vars5 H
       (fips_sha1_rounds (fips_sha1_W (\<lambda>t. of_nat (be_decode (take 4 (drop (4 * t) block)))))
         (map fips_sha1_fK [0..<80]) 0 (H ! 0, H ! 1, H ! 2, H ! 3, H ! 4))"

definition fips_sha1 :: "byte list \<Rightarrow> byte list" where
  "fips_sha1 m =
     concat (map (\<lambda>x. be_encode 4 (unat x))
       (foldl fips_sha1_compress md4_initial (chunks 64 (md_pad 64 (be_encode 8 (8 * length m)) m))))"

section \<open>The unrolled code\<close>

fun sha1_roll ::
    "uint32 list \<Rightarrow> ((uint32 \<Rightarrow> uint32 \<Rightarrow> uint32 \<Rightarrow> uint32) \<times> uint32) list \<Rightarrow> 32 vars16 \<Rightarrow> vars5 \<Rightarrow> uint32 list" where
  "sha1_roll s [] ws v = add_vars5 s v"
| "sha1_roll s ((f, k) # fks)
     ((w0, w1, w2, w3, w4, w5, w6, w7), (w8, w9, w10, w11, w12, w13, w14, w15)) (a, b, c, d, e) =
     (let w = sha1_left (w0 XOR w13 XOR w8 XOR w2); (b', e') = sha1_Round a b c d e (f b c d) k w
      in sha1_roll s fks ((w1, w2, w3, w4, w5, w6, w7, w8), (w9, w10, w11, w12, w13, w14, w15, w))
           (e', a, b', c, d))"

fun sha1_feed ::
    "uint32 list \<Rightarrow> ((uint32 \<Rightarrow> uint32 \<Rightarrow> uint32 \<Rightarrow> uint32) \<times> uint32) list \<Rightarrow>
     (((uint32 \<Rightarrow> uint32 \<Rightarrow> uint32 \<Rightarrow> uint32) \<times> uint32) \<times> uint32) list \<Rightarrow> uint32 list \<Rightarrow> vars5 \<Rightarrow> uint32 list" where
  "sha1_feed s fks [] ws v = sha1_roll s fks (window ws) v"
| "sha1_feed s fks (((f, k), x) # fkxs) ws (a, b, c, d, e) =
     (let w = x; (b', e') = sha1_Round a b c d e (f b c d) k w
      in sha1_feed s fks fkxs (ws @ [w]) (e', a, b', c, d))"

section \<open>The class implements the standard\<close>

definition sha1_first :: "((uint32 \<Rightarrow> uint32 \<Rightarrow> uint32 \<Rightarrow> uint32) \<times> uint32) list" where
  "sha1_first = replicate 16 (sha1_f1, sha1_k1)"

definition sha1_rest :: "((uint32 \<Rightarrow> uint32 \<Rightarrow> uint32 \<Rightarrow> uint32) \<times> uint32) list" where
  "sha1_rest = replicate 4 (sha1_f1, sha1_k1) @ replicate 20 (sha1_f2, sha1_k2) @
     replicate 20 (sha1_f3, sha1_k3) @ replicate 20 (sha1_f2, sha1_k4)"

lemma replicate_unfold:
  "replicate 4 x = [x, x, x, x]"
  "replicate 16 x = [x, x, x, x, x, x, x, x, x, x, x, x, x, x, x, x]"
  "replicate 20 x = [x, x, x, x, x, x, x, x, x, x, x, x, x, x, x, x, x, x, x, x]"
  by (simp_all add: numeral_eq_Suc)

lemma sha1_Transform_unrolled:
  "sha1_Transform s chunk =
   (let a = s ! 0; b = s ! 1; c = s ! 2; d = s ! 3; e = s ! 4
    in sha1_feed s sha1_rest (zip sha1_first (be32_words chunk)) [] (a, b, c, d, e))"
  unfolding sha1_first_def sha1_rest_def replicate_unfold append.simps
    be32_words_def zip_Cons_Cons zip.simps(1) sha1_Transform_def sha1_feed.simps
    window_list sha1_roll.simps add_vars5.simps
  by (rule refl)

lemma sha1_constants:
  "sha1_k1 = 0x5a827999" "sha1_k2 = 0x6ed9eba1" "sha1_k3 = 0x8f1bbcdc" "sha1_k4 = 0xca62c1d6"
  by (simp_all add: sha1_k1_def sha1_k2_def sha1_k3_def sha1_k4_def)

lemma sha1_functions:
  "sha1_f1 = fips_Ch" "sha1_f2 = fips_Parity" "sha1_f3 = fips_Maj" "sha1_left = word_rotl 1"
proof -
  show "sha1_f1 = fips_Ch" "sha1_f2 = fips_Parity" "sha1_f3 = fips_Maj"
    by (intro ext; simp only: sha1_f1_def sha1_f2_def sha1_f3_def fips_Parity_def Ch_eq Maj_eq)+
  show "sha1_left = word_rotl 1"
    by (intro ext) (simp add: sha1_left_def rotl_pair [of 1 31, simplified])
qed

lemma sha1_Round_step:
  "(let (b', e') = sha1_Round a b c d e (f b c d) k w in (e', a, b', c, d)) =
   fips_sha1_step (f, k) w (a, b, c, d, e)"
  by (simp add: sha1_Round_def Let_def rotl_pair [of 5 27] rotl_pair [of 30 2] add_ac)

lemma sha1_schedule: "sha1_first @ sha1_rest = map fips_sha1_fK [0..<80]"
proof -
  have "[0..<80] = [0..<20] @ [20..<40] @ [40..<60] @ [60..<80 :: nat]"
    by (simp add: upt_rec)
  moreover have "map fips_sha1_fK [0..<20] = replicate 20 (sha1_f1, sha1_k1)"
    "map fips_sha1_fK [20..<40] = replicate 20 (sha1_f2, sha1_k2)"
    "map fips_sha1_fK [40..<60] = replicate 20 (sha1_f3, sha1_k3)"
    "map fips_sha1_fK [60..<80] = replicate 20 (sha1_f2, sha1_k4)"
    by (auto simp: fips_sha1_fK_def sha1_functions sha1_constants intro!: replicate_eqI)
  moreover have "replicate 16 x @ replicate 4 x = replicate 20 x" for x :: "(uint32 \<Rightarrow> uint32 \<Rightarrow> uint32 \<Rightarrow> uint32) \<times> uint32"
    by (simp flip: replicate_add)
  ultimately show ?thesis unfolding sha1_first_def sha1_rest_def by (simp flip: append_assoc)
qed

lemma fips_sha1_W_rec:
  "fips_sha1_W M (n + 16) =
     word_rotl 1 (fips_sha1_W M n XOR fips_sha1_W M (n + 13) XOR fips_sha1_W M (n + 8) XOR fips_sha1_W M (n + 2))"
  by (subst fips_sha1_W.simps) (simp add: ac_simps)

lemma sha1_roll_fips:
  assumes "W = fips_sha1_W M"
  shows "sha1_roll s fks
     ((W n, W (n + 1), W (n + 2), W (n + 3), W (n + 4), W (n + 5), W (n + 6), W (n + 7)),
      (W (n + 8), W (n + 9), W (n + 10), W (n + 11), W (n + 12), W (n + 13), W (n + 14), W (n + 15))) v =
   add_vars5 s (fips_sha1_rounds W fks (n + 16) v)"
proof (induction fks arbitrary: n v)
  case (Cons fk fks)
  obtain f k where fk: "fk = (f, k)" by fastforce
  obtain a b c d e where v: "v = (a, b, c, d, e)" by (cases v)
  obtain b' e' where R: "sha1_Round a b c d e (f b c d) k (W (n + 16)) = (b', e')" by fastforce
  have w: "sha1_left (W n XOR W (n + 13) XOR W (n + 8) XOR W (n + 2)) = W (n + 16)"
    unfolding assms sha1_functions by (rule fips_sha1_W_rec [symmetric])
  have st: "fips_sha1_step (f, k) (W (n + 16)) v = (e', a, b', c, d)"
    using sha1_Round_step [of a b c d e f k "W (n + 16)"] R v by simp
  from Cons.IH [of "Suc n" "(e', a, b', c, d)"] show ?case
    unfolding v fk sha1_roll.simps w Let_def R fips_sha1_rounds.simps st [unfolded v]
    by (simp add: numeral_eq_Suc)
qed simp

lemma sha1_feed_fips:
  assumes "W = fips_sha1_W M"
  shows "length ws + length fkxs = 16 \<Longrightarrow> ws = map W [0..<length ws] \<Longrightarrow>
    map snd fkxs = map W [length ws..<16] \<Longrightarrow>
    sha1_feed s fks fkxs ws v = add_vars5 s (fips_sha1_rounds W (map fst fkxs @ fks) (length ws) v)"
proof (induction fkxs arbitrary: ws v)
  case Nil
  then have "ws = map W [0..<16]" by simp
  then have "window ws = window (map W [0..<16])" by simp
  also have "\<dots> = ((W 0, W 1, W 2, W 3, W 4, W 5, W 6, W 7), (W 8, W 9, W 10, W 11, W 12, W 13, W 14, W 15))"
    by (simp add: window_def numeral_2_eq_2)
  finally show ?case using Nil sha1_roll_fips [OF assms, of s fks 0 v] by (simp add: numeral_2_eq_2)
next
  case (Cons fkx fkxs)
  obtain f k x where fkx: "fkx = ((f, k), x)" by (metis surj_pair)
  obtain a b c d e where v: "v = (a, b, c, d, e)" by (cases v)
  have l: "length ws < 16" using Cons.prems(1) by simp
  have up: "[length ws..<16] = length ws # [Suc (length ws)..<16]" using l by (rule upt_conv_Cons)
  have x: "x = W (length ws)" and sn: "map snd fkxs = map W [Suc (length ws)..<16]"
    using Cons.prems(3) by (simp_all add: fkx up)
  obtain b' e' where R: "sha1_Round a b c d e (f b c d) k (W (length ws)) = (b', e')" by fastforce
  have st: "fips_sha1_step (f, k) (W (length ws)) v = (e', a, b', c, d)"
    using sha1_Round_step [of a b c d e f k "W (length ws)"] R v by simp
  have ws: "ws @ [W (length ws)] = map W [0..<length (ws @ [W (length ws)])]"
    using Cons.prems(2) by simp
  have "sha1_feed s fks (fkx # fkxs) ws v = sha1_feed s fks fkxs (ws @ [W (length ws)]) (e', a, b', c, d)"
    by (simp add: fkx v x R)
  also have "\<dots> = add_vars5 s (fips_sha1_rounds W (map fst fkxs @ fks) (Suc (length ws)) (e', a, b', c, d))"
    using Cons.IH [OF _ ws] Cons.prems(1) sn by simp
  finally show ?case by (simp add: fkx st)
qed

lemma sha1_Transform_compress: "sha1_Transform = fips_sha1_compress"
proof (intro ext)
  fix H :: "uint32 list" and block
  define W where "W = fips_sha1_W (\<lambda>t. of_nat (be_decode (take 4 (drop (4 * t) block))))"
  have W: "W t = ReadBE32 block (4 * t)" if "t < 16" for t
    using that by (simp add: W_def fips_sha1_W.simps [of _ t] ReadBE32_def)
  let ?fkxs = "zip sha1_first (be32_words block)"
  have "map snd ?fkxs = map W [0..<16]" "map fst ?fkxs = sha1_first" "length ?fkxs = 16"
    by (simp_all add: be32_words_def sha1_first_def upt_0_16 W)
  then have "sha1_Transform H block =
      add_vars5 H (fips_sha1_rounds W (sha1_first @ sha1_rest) 0 (H ! 0, H ! 1, H ! 2, H ! 3, H ! 4))"
    unfolding sha1_Transform_unrolled Let_def
    by (subst sha1_feed_fips [OF W_def]) simp_all
  then show "sha1_Transform H block = fips_sha1_compress H block"
    by (simp only: fips_sha1_compress_def W_def sha1_schedule)
qed

interpretation sha1h: padded_hash 64 sha1_Transform 119 8 WriteBE64
  by unfold_locales simp_all

lemma length_add_vars5 [simp]: "length (add_vars5 s v) = 5"
  by (cases v) simp

lemma sha1_Initialize_md4: "md4_initial = sha1_Initialize"
  by (simp add: md4_initial_def sha1_Initialize_def)

lemma CSHA1_digest:
  assumes "hs h = sha1_Initialize" "hbytes h = 0" "length (hbuf h) = 64"
    and h': "h' = foldl CSHA1_Write h ds"
  shows "fst (CSHA1_Finalize h') = fips_sha1 (concat ds)" "length (hbuf (snd (CSHA1_Finalize h'))) = 64"
proof -
  let ?h = "hasher_Finalize 64 sha1_Transform 119 WriteBE64 (foldl (hasher_Write 64 sha1_Transform) h ds)"
  note d = sha1h.digest_of_pieces [OF assms(1-3) refl, of ds]
  have "length (hs ?h) = 5"
    unfolding d(1) by (rule length_foldl_blocks)
      (simp_all add: sha1_Transform_compress fips_sha1_compress_def sha1_Initialize_def)
  from concat_map_5 [OF this, of "WriteBE32"]
  have "fst (CSHA1_Finalize h') = concat (map WriteBE32 (hs ?h))"
    by (simp add: CSHA1_Finalize_def CSHA1_Write_def h' Let_def)
  then show "fst (CSHA1_Finalize h') = fips_sha1 (concat ds)"
    unfolding d(1) WriteBE64_field
    by (simp only: fips_sha1_def sha1_Initialize_md4 sha1_Transform_compress WriteBE32_def [abs_def])
  show "length (hbuf (snd (CSHA1_Finalize h'))) = 64"
    using d(2) by (simp add: CSHA1_Finalize_def CSHA1_Write_def h' Let_def)
qed

text \<open>
  C14: The class \<open>CSHA1\<close> computes SHA-1 of FIPS 180-4 for every message and every way of splitting it
  over \<open>Write\<close> calls, whatever the uninitialised buffer holds.
\<close>

theorem sha1_correct:
  assumes "length junk = 64"
  shows "fst (CSHA1_Finalize (foldl CSHA1_Write (CSHA1 junk) ds)) = fips_sha1 (concat ds)"
  by (rule CSHA1_digest [OF _ _ _ refl]) (simp_all add: CSHA1_def assms)

theorem sha1_correct_witness:
  "fst (CSHA1_Finalize (foldl CSHA1_Write (CSHA1 (replicate 64 0xcc)) [[0x61], replicate 100 0x62, []])) =
     fips_sha1 (0x61 # replicate 100 0x62)"
  using sha1_correct [of "replicate 64 0xcc" "[[0x61], replicate 100 0x62, []]"] by simp

end
