(* ===== verification/Ripemd160.thy ===== *)
theory Ripemd160
  imports Sha1
begin

text \<open>
  The class \<open>CRIPEMD160\<close> of \<open>src/src/crypto/ripemd160.cpp\<close>: the two interleaved lines of eighty rounds
  line by line, the hasher object, and the proof that the class computes RIPEMD-160 as its
  designers define it, with the word order of each round given by powers of one permutation.
\<close>

section \<open>The block transformation\<close>

definition ripemd160_f1 :: "uint32 \<Rightarrow> uint32 \<Rightarrow> uint32 \<Rightarrow> uint32" where
  "ripemd160_f1 x y z = x XOR y XOR z"

definition ripemd160_f2 :: "uint32 \<Rightarrow> uint32 \<Rightarrow> uint32 \<Rightarrow> uint32" where
  "ripemd160_f2 x y z = (x AND y) OR (NOT x AND z)"

definition ripemd160_f3 :: "uint32 \<Rightarrow> uint32 \<Rightarrow> uint32 \<Rightarrow> uint32" where
  "ripemd160_f3 x y z = (x OR NOT y) XOR z"

definition ripemd160_f4 :: "uint32 \<Rightarrow> uint32 \<Rightarrow> uint32 \<Rightarrow> uint32" where
  "ripemd160_f4 x y z = (x AND z) OR (y AND NOT z)"

definition ripemd160_f5 :: "uint32 \<Rightarrow> uint32 \<Rightarrow> uint32 \<Rightarrow> uint32" where
  "ripemd160_f5 x y z = x XOR (y OR NOT z)"

definition ripemd160_Initialize :: "uint32 list" where
  "ripemd160_Initialize = [0x67452301, 0xEFCDAB89, 0x98BADCFE, 0x10325476, 0xC3D2E1F0]"

definition ripemd160_rol :: "uint32 \<Rightarrow> nat \<Rightarrow> uint32" where
  "ripemd160_rol x i = push_bit i x OR drop_bit (32 - i) x"

definition ripemd160_Round ::
    "uint32 \<Rightarrow> uint32 \<Rightarrow> uint32 \<Rightarrow> uint32 \<Rightarrow> uint32 \<Rightarrow> uint32 \<Rightarrow> uint32 \<Rightarrow> uint32 \<Rightarrow> nat \<Rightarrow> uint32 \<times> uint32" where
  "ripemd160_Round a b c d e f x k r =
     (let a = ripemd160_rol (a + f + x + k) r + e;
          c = ripemd160_rol c 10
      in (a, c))"

type_synonym rmd_fn =
  "uint32 \<Rightarrow> uint32 \<Rightarrow> uint32 \<Rightarrow> uint32 \<Rightarrow> uint32 \<Rightarrow> uint32 \<Rightarrow> nat \<Rightarrow> uint32 \<times> uint32"

definition ripemd160_R11 :: rmd_fn where
  "ripemd160_R11 a b c d e x r = ripemd160_Round a b c d e (ripemd160_f1 b c d) x 0 r"

definition ripemd160_R21 :: rmd_fn where
  "ripemd160_R21 a b c d e x r = ripemd160_Round a b c d e (ripemd160_f2 b c d) x 0x5A827999 r"

definition ripemd160_R31 :: rmd_fn where
  "ripemd160_R31 a b c d e x r = ripemd160_Round a b c d e (ripemd160_f3 b c d) x 0x6ED9EBA1 r"

definition ripemd160_R41 :: rmd_fn where
  "ripemd160_R41 a b c d e x r = ripemd160_Round a b c d e (ripemd160_f4 b c d) x 0x8F1BBCDC r"

definition ripemd160_R51 :: rmd_fn where
  "ripemd160_R51 a b c d e x r = ripemd160_Round a b c d e (ripemd160_f5 b c d) x 0xA953FD4E r"

definition ripemd160_R12 :: rmd_fn where
  "ripemd160_R12 a b c d e x r = ripemd160_Round a b c d e (ripemd160_f5 b c d) x 0x50A28BE6 r"

definition ripemd160_R22 :: rmd_fn where
  "ripemd160_R22 a b c d e x r = ripemd160_Round a b c d e (ripemd160_f4 b c d) x 0x5C4DD124 r"

definition ripemd160_R32 :: rmd_fn where
  "ripemd160_R32 a b c d e x r = ripemd160_Round a b c d e (ripemd160_f3 b c d) x 0x6D703EF3 r"

definition ripemd160_R42 :: rmd_fn where
  "ripemd160_R42 a b c d e x r = ripemd160_Round a b c d e (ripemd160_f2 b c d) x 0x7A6D76E9 r"

definition ripemd160_R52 :: rmd_fn where
  "ripemd160_R52 a b c d e x r = ripemd160_Round a b c d e (ripemd160_f1 b c d) x 0 r"

definition ripemd160_Transform :: "uint32 list \<Rightarrow> byte list \<Rightarrow> uint32 list" where
  "ripemd160_Transform s chunk =
     (let a1 = s ! 0; b1 = s ! 1; c1 = s ! 2; d1 = s ! 3; e1 = s ! 4;
          a2 = a1; b2 = b1; c2 = c1; d2 = d1; e2 = e1;
          w0 = ReadLE32 chunk 0; w1 = ReadLE32 chunk 4; w2 = ReadLE32 chunk 8; w3 = ReadLE32 chunk 12;
          w4 = ReadLE32 chunk 16; w5 = ReadLE32 chunk 20; w6 = ReadLE32 chunk 24; w7 = ReadLE32 chunk 28;
          w8 = ReadLE32 chunk 32; w9 = ReadLE32 chunk 36; w10 = ReadLE32 chunk 40; w11 = ReadLE32 chunk 44;
          w12 = ReadLE32 chunk 48; w13 = ReadLE32 chunk 52; w14 = ReadLE32 chunk 56; w15 = ReadLE32 chunk 60;
          (a1, c1) = ripemd160_R11 a1 b1 c1 d1 e1 w0 11; (a2, c2) = ripemd160_R12 a2 b2 c2 d2 e2 w5 8;
          (e1, b1) = ripemd160_R11 e1 a1 b1 c1 d1 w1 14; (e2, b2) = ripemd160_R12 e2 a2 b2 c2 d2 w14 9;
          (d1, a1) = ripemd160_R11 d1 e1 a1 b1 c1 w2 15; (d2, a2) = ripemd160_R12 d2 e2 a2 b2 c2 w7 9;
          (c1, e1) = ripemd160_R11 c1 d1 e1 a1 b1 w3 12; (c2, e2) = ripemd160_R12 c2 d2 e2 a2 b2 w0 11;
          (b1, d1) = ripemd160_R11 b1 c1 d1 e1 a1 w4 5; (b2, d2) = ripemd160_R12 b2 c2 d2 e2 a2 w9 13;
          (a1, c1) = ripemd160_R11 a1 b1 c1 d1 e1 w5 8; (a2, c2) = ripemd160_R12 a2 b2 c2 d2 e2 w2 15;
          (e1, b1) = ripemd160_R11 e1 a1 b1 c1 d1 w6 7; (e2, b2) = ripemd160_R12 e2 a2 b2 c2 d2 w11 15;
          (d1, a1) = ripemd160_R11 d1 e1 a1 b1 c1 w7 9; (d2, a2) = ripemd160_R12 d2 e2 a2 b2 c2 w4 5;
          (c1, e1) = ripemd160_R11 c1 d1 e1 a1 b1 w8 11; (c2, e2) = ripemd160_R12 c2 d2 e2 a2 b2 w13 7;
          (b1, d1) = ripemd160_R11 b1 c1 d1 e1 a1 w9 13; (b2, d2) = ripemd160_R12 b2 c2 d2 e2 a2 w6 7;
          (a1, c1) = ripemd160_R11 a1 b1 c1 d1 e1 w10 14; (a2, c2) = ripemd160_R12 a2 b2 c2 d2 e2 w15 8;
          (e1, b1) = ripemd160_R11 e1 a1 b1 c1 d1 w11 15; (e2, b2) = ripemd160_R12 e2 a2 b2 c2 d2 w8 11;
          (d1, a1) = ripemd160_R11 d1 e1 a1 b1 c1 w12 6; (d2, a2) = ripemd160_R12 d2 e2 a2 b2 c2 w1 14;
          (c1, e1) = ripemd160_R11 c1 d1 e1 a1 b1 w13 7; (c2, e2) = ripemd160_R12 c2 d2 e2 a2 b2 w10 14;
          (b1, d1) = ripemd160_R11 b1 c1 d1 e1 a1 w14 9; (b2, d2) = ripemd160_R12 b2 c2 d2 e2 a2 w3 12;
          (a1, c1) = ripemd160_R11 a1 b1 c1 d1 e1 w15 8; (a2, c2) = ripemd160_R12 a2 b2 c2 d2 e2 w12 6;
          (e1, b1) = ripemd160_R21 e1 a1 b1 c1 d1 w7 7; (e2, b2) = ripemd160_R22 e2 a2 b2 c2 d2 w6 9;
          (d1, a1) = ripemd160_R21 d1 e1 a1 b1 c1 w4 6; (d2, a2) = ripemd160_R22 d2 e2 a2 b2 c2 w11 13;
          (c1, e1) = ripemd160_R21 c1 d1 e1 a1 b1 w13 8; (c2, e2) = ripemd160_R22 c2 d2 e2 a2 b2 w3 15;
          (b1, d1) = ripemd160_R21 b1 c1 d1 e1 a1 w1 13; (b2, d2) = ripemd160_R22 b2 c2 d2 e2 a2 w7 7;
          (a1, c1) = ripemd160_R21 a1 b1 c1 d1 e1 w10 11; (a2, c2) = ripemd160_R22 a2 b2 c2 d2 e2 w0 12;
          (e1, b1) = ripemd160_R21 e1 a1 b1 c1 d1 w6 9; (e2, b2) = ripemd160_R22 e2 a2 b2 c2 d2 w13 8;
          (d1, a1) = ripemd160_R21 d1 e1 a1 b1 c1 w15 7; (d2, a2) = ripemd160_R22 d2 e2 a2 b2 c2 w5 9;
          (c1, e1) = ripemd160_R21 c1 d1 e1 a1 b1 w3 15; (c2, e2) = ripemd160_R22 c2 d2 e2 a2 b2 w10 11;
          (b1, d1) = ripemd160_R21 b1 c1 d1 e1 a1 w12 7; (b2, d2) = ripemd160_R22 b2 c2 d2 e2 a2 w14 7;
          (a1, c1) = ripemd160_R21 a1 b1 c1 d1 e1 w0 12; (a2, c2) = ripemd160_R22 a2 b2 c2 d2 e2 w15 7;
          (e1, b1) = ripemd160_R21 e1 a1 b1 c1 d1 w9 15; (e2, b2) = ripemd160_R22 e2 a2 b2 c2 d2 w8 12;
          (d1, a1) = ripemd160_R21 d1 e1 a1 b1 c1 w5 9; (d2, a2) = ripemd160_R22 d2 e2 a2 b2 c2 w12 7;
          (c1, e1) = ripemd160_R21 c1 d1 e1 a1 b1 w2 11; (c2, e2) = ripemd160_R22 c2 d2 e2 a2 b2 w4 6;
          (b1, d1) = ripemd160_R21 b1 c1 d1 e1 a1 w14 7; (b2, d2) = ripemd160_R22 b2 c2 d2 e2 a2 w9 15;
          (a1, c1) = ripemd160_R21 a1 b1 c1 d1 e1 w11 13; (a2, c2) = ripemd160_R22 a2 b2 c2 d2 e2 w1 13;
          (e1, b1) = ripemd160_R21 e1 a1 b1 c1 d1 w8 12; (e2, b2) = ripemd160_R22 e2 a2 b2 c2 d2 w2 11;
          (d1, a1) = ripemd160_R31 d1 e1 a1 b1 c1 w3 11; (d2, a2) = ripemd160_R32 d2 e2 a2 b2 c2 w15 9;
          (c1, e1) = ripemd160_R31 c1 d1 e1 a1 b1 w10 13; (c2, e2) = ripemd160_R32 c2 d2 e2 a2 b2 w5 7;
          (b1, d1) = ripemd160_R31 b1 c1 d1 e1 a1 w14 6; (b2, d2) = ripemd160_R32 b2 c2 d2 e2 a2 w1 15;
          (a1, c1) = ripemd160_R31 a1 b1 c1 d1 e1 w4 7; (a2, c2) = ripemd160_R32 a2 b2 c2 d2 e2 w3 11;
          (e1, b1) = ripemd160_R31 e1 a1 b1 c1 d1 w9 14; (e2, b2) = ripemd160_R32 e2 a2 b2 c2 d2 w7 8;
          (d1, a1) = ripemd160_R31 d1 e1 a1 b1 c1 w15 9; (d2, a2) = ripemd160_R32 d2 e2 a2 b2 c2 w14 6;
          (c1, e1) = ripemd160_R31 c1 d1 e1 a1 b1 w8 13; (c2, e2) = ripemd160_R32 c2 d2 e2 a2 b2 w6 6;
          (b1, d1) = ripemd160_R31 b1 c1 d1 e1 a1 w1 15; (b2, d2) = ripemd160_R32 b2 c2 d2 e2 a2 w9 14;
          (a1, c1) = ripemd160_R31 a1 b1 c1 d1 e1 w2 14; (a2, c2) = ripemd160_R32 a2 b2 c2 d2 e2 w11 12;
          (e1, b1) = ripemd160_R31 e1 a1 b1 c1 d1 w7 8; (e2, b2) = ripemd160_R32 e2 a2 b2 c2 d2 w8 13;
          (d1, a1) = ripemd160_R31 d1 e1 a1 b1 c1 w0 13; (d2, a2) = ripemd160_R32 d2 e2 a2 b2 c2 w12 5;
          (c1, e1) = ripemd160_R31 c1 d1 e1 a1 b1 w6 6; (c2, e2) = ripemd160_R32 c2 d2 e2 a2 b2 w2 14;
          (b1, d1) = ripemd160_R31 b1 c1 d1 e1 a1 w13 5; (b2, d2) = ripemd160_R32 b2 c2 d2 e2 a2 w10 13;
          (a1, c1) = ripemd160_R31 a1 b1 c1 d1 e1 w11 12; (a2, c2) = ripemd160_R32 a2 b2 c2 d2 e2 w0 13;
          (e1, b1) = ripemd160_R31 e1 a1 b1 c1 d1 w5 7; (e2, b2) = ripemd160_R32 e2 a2 b2 c2 d2 w4 7;
          (d1, a1) = ripemd160_R31 d1 e1 a1 b1 c1 w12 5; (d2, a2) = ripemd160_R32 d2 e2 a2 b2 c2 w13 5;
          (c1, e1) = ripemd160_R41 c1 d1 e1 a1 b1 w1 11; (c2, e2) = ripemd160_R42 c2 d2 e2 a2 b2 w8 15;
          (b1, d1) = ripemd160_R41 b1 c1 d1 e1 a1 w9 12; (b2, d2) = ripemd160_R42 b2 c2 d2 e2 a2 w6 5;
          (a1, c1) = ripemd160_R41 a1 b1 c1 d1 e1 w11 14; (a2, c2) = ripemd160_R42 a2 b2 c2 d2 e2 w4 8;
          (e1, b1) = ripemd160_R41 e1 a1 b1 c1 d1 w10 15; (e2, b2) = ripemd160_R42 e2 a2 b2 c2 d2 w1 11;
          (d1, a1) = ripemd160_R41 d1 e1 a1 b1 c1 w0 14; (d2, a2) = ripemd160_R42 d2 e2 a2 b2 c2 w3 14;
          (c1, e1) = ripemd160_R41 c1 d1 e1 a1 b1 w8 15; (c2, e2) = ripemd160_R42 c2 d2 e2 a2 b2 w11 14;
          (b1, d1) = ripemd160_R41 b1 c1 d1 e1 a1 w12 9; (b2, d2) = ripemd160_R42 b2 c2 d2 e2 a2 w15 6;
          (a1, c1) = ripemd160_R41 a1 b1 c1 d1 e1 w4 8; (a2, c2) = ripemd160_R42 a2 b2 c2 d2 e2 w0 14;
          (e1, b1) = ripemd160_R41 e1 a1 b1 c1 d1 w13 9; (e2, b2) = ripemd160_R42 e2 a2 b2 c2 d2 w5 6;
          (d1, a1) = ripemd160_R41 d1 e1 a1 b1 c1 w3 14; (d2, a2) = ripemd160_R42 d2 e2 a2 b2 c2 w12 9;
          (c1, e1) = ripemd160_R41 c1 d1 e1 a1 b1 w7 5; (c2, e2) = ripemd160_R42 c2 d2 e2 a2 b2 w2 12;
          (b1, d1) = ripemd160_R41 b1 c1 d1 e1 a1 w15 6; (b2, d2) = ripemd160_R42 b2 c2 d2 e2 a2 w13 9;
          (a1, c1) = ripemd160_R41 a1 b1 c1 d1 e1 w14 8; (a2, c2) = ripemd160_R42 a2 b2 c2 d2 e2 w9 12;
          (e1, b1) = ripemd160_R41 e1 a1 b1 c1 d1 w5 6; (e2, b2) = ripemd160_R42 e2 a2 b2 c2 d2 w7 5;
          (d1, a1) = ripemd160_R41 d1 e1 a1 b1 c1 w6 5; (d2, a2) = ripemd160_R42 d2 e2 a2 b2 c2 w10 15;
          (c1, e1) = ripemd160_R41 c1 d1 e1 a1 b1 w2 12; (c2, e2) = ripemd160_R42 c2 d2 e2 a2 b2 w14 8;
          (b1, d1) = ripemd160_R51 b1 c1 d1 e1 a1 w4 9; (b2, d2) = ripemd160_R52 b2 c2 d2 e2 a2 w12 8;
          (a1, c1) = ripemd160_R51 a1 b1 c1 d1 e1 w0 15; (a2, c2) = ripemd160_R52 a2 b2 c2 d2 e2 w15 5;
          (e1, b1) = ripemd160_R51 e1 a1 b1 c1 d1 w5 5; (e2, b2) = ripemd160_R52 e2 a2 b2 c2 d2 w10 12;
          (d1, a1) = ripemd160_R51 d1 e1 a1 b1 c1 w9 11; (d2, a2) = ripemd160_R52 d2 e2 a2 b2 c2 w4 9;
          (c1, e1) = ripemd160_R51 c1 d1 e1 a1 b1 w7 6; (c2, e2) = ripemd160_R52 c2 d2 e2 a2 b2 w1 12;
          (b1, d1) = ripemd160_R51 b1 c1 d1 e1 a1 w12 8; (b2, d2) = ripemd160_R52 b2 c2 d2 e2 a2 w5 5;
          (a1, c1) = ripemd160_R51 a1 b1 c1 d1 e1 w2 13; (a2, c2) = ripemd160_R52 a2 b2 c2 d2 e2 w8 14;
          (e1, b1) = ripemd160_R51 e1 a1 b1 c1 d1 w10 12; (e2, b2) = ripemd160_R52 e2 a2 b2 c2 d2 w7 6;
          (d1, a1) = ripemd160_R51 d1 e1 a1 b1 c1 w14 5; (d2, a2) = ripemd160_R52 d2 e2 a2 b2 c2 w6 8;
          (c1, e1) = ripemd160_R51 c1 d1 e1 a1 b1 w1 12; (c2, e2) = ripemd160_R52 c2 d2 e2 a2 b2 w2 13;
          (b1, d1) = ripemd160_R51 b1 c1 d1 e1 a1 w3 13; (b2, d2) = ripemd160_R52 b2 c2 d2 e2 a2 w13 6;
          (a1, c1) = ripemd160_R51 a1 b1 c1 d1 e1 w8 14; (a2, c2) = ripemd160_R52 a2 b2 c2 d2 e2 w14 5;
          (e1, b1) = ripemd160_R51 e1 a1 b1 c1 d1 w11 11; (e2, b2) = ripemd160_R52 e2 a2 b2 c2 d2 w0 15;
          (d1, a1) = ripemd160_R51 d1 e1 a1 b1 c1 w6 8; (d2, a2) = ripemd160_R52 d2 e2 a2 b2 c2 w3 13;
          (c1, e1) = ripemd160_R51 c1 d1 e1 a1 b1 w15 5; (c2, e2) = ripemd160_R52 c2 d2 e2 a2 b2 w9 11;
          (b1, d1) = ripemd160_R51 b1 c1 d1 e1 a1 w13 6; (b2, d2) = ripemd160_R52 b2 c2 d2 e2 a2 w11 11;
          t = s ! 0
      in [s ! 1 + c1 + d2, s ! 2 + d1 + e2, s ! 3 + e1 + a2, s ! 4 + a1 + b2, t + b1 + c2])"

section \<open>The hasher object\<close>

definition CRIPEMD160 :: "byte list \<Rightarrow> uint32 list hasher" where
  "CRIPEMD160 junk = \<lparr>hs = ripemd160_Initialize, hbuf = junk, hbytes = 0\<rparr>"

definition CRIPEMD160_Write :: "uint32 list hasher \<Rightarrow> byte list \<Rightarrow> uint32 list hasher" where
  "CRIPEMD160_Write = hasher_Write 64 ripemd160_Transform"

definition CRIPEMD160_Finalize :: "uint32 list hasher \<Rightarrow> byte list \<times> uint32 list hasher" where
  "CRIPEMD160_Finalize h =
     (let h = hasher_Finalize 64 ripemd160_Transform 119 WriteLE64 h; s = hs h
      in (WriteLE32 (s ! 0) @ WriteLE32 (s ! 1) @ WriteLE32 (s ! 2) @ WriteLE32 (s ! 3) @
          WriteLE32 (s ! 4), h))"

definition CRIPEMD160_Reset :: "uint32 list hasher \<Rightarrow> uint32 list hasher" where
  "CRIPEMD160_Reset h = h\<lparr>hbytes := 0, hs := ripemd160_Initialize\<rparr>"

lemma length_CRIPEMD160_Finalize [simp]: "length (fst (CRIPEMD160_Finalize h)) = 20"
  by (simp add: CRIPEMD160_Finalize_def Let_def)

section \<open>The specification\<close>

text \<open>
  Five rounds of sixteen steps on each of two lines. The message words of round \<open>j\<close> are taken in the
  order of the \<open>j\<close>-th power of the permutation \<open>rho\<close>, on the right line applied after \<open>pi\<close>. The rotation
  of a step depends on the round and on the message word.
\<close>

definition rmd_rho :: "nat list" where
  "rmd_rho = [7, 4, 13, 1, 10, 6, 15, 3, 12, 0, 9, 5, 2, 14, 11, 8]"

definition rmd_pi :: "nat \<Rightarrow> nat" where
  "rmd_pi i = (9 * i + 5) mod 16"

definition rmd_shift :: "nat list list" where
  "rmd_shift =
     [[11, 14, 15, 12, 5, 8, 7, 9, 11, 13, 14, 15, 6, 7, 9, 8],
      [12, 13, 11, 15, 6, 9, 9, 7, 12, 15, 11, 13, 7, 8, 7, 7],
      [13, 15, 14, 11, 7, 7, 6, 8, 13, 14, 13, 12, 5, 5, 6, 9],
      [14, 11, 12, 14, 8, 6, 5, 5, 15, 12, 15, 14, 9, 9, 8, 6],
      [15, 12, 13, 13, 9, 5, 8, 6, 14, 11, 12, 11, 8, 6, 5, 5]]"

definition rmd_f :: "nat \<Rightarrow> uint32 \<Rightarrow> uint32 \<Rightarrow> uint32 \<Rightarrow> uint32" where
  "rmd_f j x y z =
     [x XOR y XOR z, (x AND y) OR (NOT x AND z), (x OR NOT y) XOR z, (x AND z) OR (y AND NOT z),
      x XOR (y OR NOT z)] ! j"

definition rmd_K :: "uint32 list" where
  "rmd_K = [0, 0x5a827999, 0x6ed9eba1, 0x8f1bbcdc, 0xa953fd4e]"

definition rmd_K' :: "uint32 list" where
  "rmd_K' = [0x50a28be6, 0x5c4dd124, 0x6d703ef3, 0x7a6d76e9, 0]"

text \<open>The message word of step \<open>i\<close> of round \<open>j\<close>, on either line.\<close>

definition rmd_word :: "nat \<Rightarrow> nat \<Rightarrow> nat" where
  "rmd_word j i = ((\<lambda>k. rmd_rho ! k) ^^ j) i"

definition rmd_word' :: "nat \<Rightarrow> nat \<Rightarrow> nat" where
  "rmd_word' j i = ((\<lambda>k. rmd_rho ! k) ^^ j) (rmd_pi i)"

fun rmd_step :: "(uint32 \<Rightarrow> uint32 \<Rightarrow> uint32 \<Rightarrow> uint32) \<Rightarrow> uint32 \<Rightarrow> uint32 \<Rightarrow> nat \<Rightarrow> vars5 \<Rightarrow> vars5" where
  "rmd_step f K x s (A, B, C, D, E) =
     (E, word_rotl s (A + f B C D + x + K) + E, B, word_rotl 10 C, D)"

definition rmd_left_step :: "uint32 list \<Rightarrow> vars5 \<Rightarrow> nat \<Rightarrow> vars5" where
  "rmd_left_step X v t =
     (let j = t div 16; k = rmd_word j (t mod 16)
      in rmd_step (rmd_f j) (rmd_K ! j) (X ! k) (rmd_shift ! j ! k) v)"

definition rmd_right_step :: "uint32 list \<Rightarrow> vars5 \<Rightarrow> nat \<Rightarrow> vars5" where
  "rmd_right_step X v t =
     (let j = t div 16; k = rmd_word' j (t mod 16)
      in rmd_step (rmd_f (4 - j)) (rmd_K' ! j) (X ! k) (rmd_shift ! j ! k) v)"

fun rmd_combine :: "uint32 list \<Rightarrow> vars5 \<Rightarrow> vars5 \<Rightarrow> uint32 list" where
  "rmd_combine s (a1, b1, c1, d1, e1) (a2, b2, c2, d2, e2) =
     [s ! 1 + c1 + d2, s ! 2 + d1 + e2, s ! 3 + e1 + a2, s ! 4 + a1 + b2, s ! 0 + b1 + c2]"

definition rmd160_compress :: "uint32 list \<Rightarrow> byte list \<Rightarrow> uint32 list" where
  "rmd160_compress H block =
     (let X = map (\<lambda>t. of_nat (le_decode (take 4 (drop (4 * t) block)))) [0..<16];
          v = (H ! 0, H ! 1, H ! 2, H ! 3, H ! 4)
      in rmd_combine H (foldl (rmd_left_step X) v [0..<80]) (foldl (rmd_right_step X) v [0..<80]))"

definition rmd160 :: "byte list \<Rightarrow> byte list" where
  "rmd160 m =
     concat (map (\<lambda>x. le_encode 4 (unat x))
       (foldl rmd160_compress md4_initial (chunks 64 (md_pad 64 (le_encode 8 (8 * length m)) m))))"

section \<open>The unrolled code\<close>

fun rmd_run :: "uint32 list \<Rightarrow> ((rmd_fn \<times> uint32 \<times> nat) \<times> (rmd_fn \<times> uint32 \<times> nat)) list \<Rightarrow> vars5 \<Rightarrow> vars5 \<Rightarrow> uint32 list" where
  "rmd_run s [] (a1, b1, c1, d1, e1) (a2, b2, c2, d2, e2) =
     (let t = s ! 0
      in [s ! 1 + c1 + d2, s ! 2 + d1 + e2, s ! 3 + e1 + a2, s ! 4 + a1 + b2, t + b1 + c2])"
| "rmd_run s (((R, x, r), (R', x', r')) # steps) (a1, b1, c1, d1, e1) (a2, b2, c2, d2, e2) =
     (let (a1, c1) = R a1 b1 c1 d1 e1 x r; (a2, c2) = R' a2 b2 c2 d2 e2 x' r'
      in rmd_run s steps (e1, a1, b1, c1, d1) (e2, a2, b2, c2, d2))"

definition rmd_steps ::
    "uint32 \<Rightarrow> uint32 \<Rightarrow> uint32 \<Rightarrow> uint32 \<Rightarrow> uint32 \<Rightarrow> uint32 \<Rightarrow> uint32 \<Rightarrow> uint32 \<Rightarrow> uint32 \<Rightarrow> uint32 \<Rightarrow> uint32 \<Rightarrow> uint32 \<Rightarrow> uint32 \<Rightarrow> uint32 \<Rightarrow> uint32 \<Rightarrow> uint32 \<Rightarrow> ((rmd_fn \<times> uint32 \<times> nat) \<times> (rmd_fn \<times> uint32 \<times> nat)) list" where
  "rmd_steps w0 w1 w2 w3 w4 w5 w6 w7 w8 w9 w10 w11 w12 w13 w14 w15 =
     [((ripemd160_R11, w0, 11), (ripemd160_R12, w5, 8)),
      ((ripemd160_R11, w1, 14), (ripemd160_R12, w14, 9)),
      ((ripemd160_R11, w2, 15), (ripemd160_R12, w7, 9)),
      ((ripemd160_R11, w3, 12), (ripemd160_R12, w0, 11)),
      ((ripemd160_R11, w4, 5), (ripemd160_R12, w9, 13)),
      ((ripemd160_R11, w5, 8), (ripemd160_R12, w2, 15)),
      ((ripemd160_R11, w6, 7), (ripemd160_R12, w11, 15)),
      ((ripemd160_R11, w7, 9), (ripemd160_R12, w4, 5)),
      ((ripemd160_R11, w8, 11), (ripemd160_R12, w13, 7)),
      ((ripemd160_R11, w9, 13), (ripemd160_R12, w6, 7)),
      ((ripemd160_R11, w10, 14), (ripemd160_R12, w15, 8)),
      ((ripemd160_R11, w11, 15), (ripemd160_R12, w8, 11)),
      ((ripemd160_R11, w12, 6), (ripemd160_R12, w1, 14)),
      ((ripemd160_R11, w13, 7), (ripemd160_R12, w10, 14)),
      ((ripemd160_R11, w14, 9), (ripemd160_R12, w3, 12)),
      ((ripemd160_R11, w15, 8), (ripemd160_R12, w12, 6)),
      ((ripemd160_R21, w7, 7), (ripemd160_R22, w6, 9)),
      ((ripemd160_R21, w4, 6), (ripemd160_R22, w11, 13)),
      ((ripemd160_R21, w13, 8), (ripemd160_R22, w3, 15)),
      ((ripemd160_R21, w1, 13), (ripemd160_R22, w7, 7)),
      ((ripemd160_R21, w10, 11), (ripemd160_R22, w0, 12)),
      ((ripemd160_R21, w6, 9), (ripemd160_R22, w13, 8)),
      ((ripemd160_R21, w15, 7), (ripemd160_R22, w5, 9)),
      ((ripemd160_R21, w3, 15), (ripemd160_R22, w10, 11)),
      ((ripemd160_R21, w12, 7), (ripemd160_R22, w14, 7)),
      ((ripemd160_R21, w0, 12), (ripemd160_R22, w15, 7)),
      ((ripemd160_R21, w9, 15), (ripemd160_R22, w8, 12)),
      ((ripemd160_R21, w5, 9), (ripemd160_R22, w12, 7)),
      ((ripemd160_R21, w2, 11), (ripemd160_R22, w4, 6)),
      ((ripemd160_R21, w14, 7), (ripemd160_R22, w9, 15)),
      ((ripemd160_R21, w11, 13), (ripemd160_R22, w1, 13)),
      ((ripemd160_R21, w8, 12), (ripemd160_R22, w2, 11)),
      ((ripemd160_R31, w3, 11), (ripemd160_R32, w15, 9)),
      ((ripemd160_R31, w10, 13), (ripemd160_R32, w5, 7)),
      ((ripemd160_R31, w14, 6), (ripemd160_R32, w1, 15)),
      ((ripemd160_R31, w4, 7), (ripemd160_R32, w3, 11)),
      ((ripemd160_R31, w9, 14), (ripemd160_R32, w7, 8)),
      ((ripemd160_R31, w15, 9), (ripemd160_R32, w14, 6)),
      ((ripemd160_R31, w8, 13), (ripemd160_R32, w6, 6)),
      ((ripemd160_R31, w1, 15), (ripemd160_R32, w9, 14)),
      ((ripemd160_R31, w2, 14), (ripemd160_R32, w11, 12)),
      ((ripemd160_R31, w7, 8), (ripemd160_R32, w8, 13)),
      ((ripemd160_R31, w0, 13), (ripemd160_R32, w12, 5)),
      ((ripemd160_R31, w6, 6), (ripemd160_R32, w2, 14)),
      ((ripemd160_R31, w13, 5), (ripemd160_R32, w10, 13)),
      ((ripemd160_R31, w11, 12), (ripemd160_R32, w0, 13)),
      ((ripemd160_R31, w5, 7), (ripemd160_R32, w4, 7)),
      ((ripemd160_R31, w12, 5), (ripemd160_R32, w13, 5)),
      ((ripemd160_R41, w1, 11), (ripemd160_R42, w8, 15)),
      ((ripemd160_R41, w9, 12), (ripemd160_R42, w6, 5)),
      ((ripemd160_R41, w11, 14), (ripemd160_R42, w4, 8)),
      ((ripemd160_R41, w10, 15), (ripemd160_R42, w1, 11)),
      ((ripemd160_R41, w0, 14), (ripemd160_R42, w3, 14)),
      ((ripemd160_R41, w8, 15), (ripemd160_R42, w11, 14)),
      ((ripemd160_R41, w12, 9), (ripemd160_R42, w15, 6)),
      ((ripemd160_R41, w4, 8), (ripemd160_R42, w0, 14)),
      ((ripemd160_R41, w13, 9), (ripemd160_R42, w5, 6)),
      ((ripemd160_R41, w3, 14), (ripemd160_R42, w12, 9)),
      ((ripemd160_R41, w7, 5), (ripemd160_R42, w2, 12)),
      ((ripemd160_R41, w15, 6), (ripemd160_R42, w13, 9)),
      ((ripemd160_R41, w14, 8), (ripemd160_R42, w9, 12)),
      ((ripemd160_R41, w5, 6), (ripemd160_R42, w7, 5)),
      ((ripemd160_R41, w6, 5), (ripemd160_R42, w10, 15)),
      ((ripemd160_R41, w2, 12), (ripemd160_R42, w14, 8)),
      ((ripemd160_R51, w4, 9), (ripemd160_R52, w12, 8)),
      ((ripemd160_R51, w0, 15), (ripemd160_R52, w15, 5)),
      ((ripemd160_R51, w5, 5), (ripemd160_R52, w10, 12)),
      ((ripemd160_R51, w9, 11), (ripemd160_R52, w4, 9)),
      ((ripemd160_R51, w7, 6), (ripemd160_R52, w1, 12)),
      ((ripemd160_R51, w12, 8), (ripemd160_R52, w5, 5)),
      ((ripemd160_R51, w2, 13), (ripemd160_R52, w8, 14)),
      ((ripemd160_R51, w10, 12), (ripemd160_R52, w7, 6)),
      ((ripemd160_R51, w14, 5), (ripemd160_R52, w6, 8)),
      ((ripemd160_R51, w1, 12), (ripemd160_R52, w2, 13)),
      ((ripemd160_R51, w3, 13), (ripemd160_R52, w13, 6)),
      ((ripemd160_R51, w8, 14), (ripemd160_R52, w14, 5)),
      ((ripemd160_R51, w11, 11), (ripemd160_R52, w0, 15)),
      ((ripemd160_R51, w6, 8), (ripemd160_R52, w3, 13)),
      ((ripemd160_R51, w15, 5), (ripemd160_R52, w9, 11)),
      ((ripemd160_R51, w13, 6), (ripemd160_R52, w11, 11))]"

lemma ripemd160_Transform_unrolled:
  "ripemd160_Transform s chunk =
   (let a1 = s ! 0; b1 = s ! 1; c1 = s ! 2; d1 = s ! 3; e1 = s ! 4;
        a2 = a1; b2 = b1; c2 = c1; d2 = d1; e2 = e1;
          w0 = ReadLE32 chunk 0; w1 = ReadLE32 chunk 4; w2 = ReadLE32 chunk 8; w3 = ReadLE32 chunk 12;
          w4 = ReadLE32 chunk 16; w5 = ReadLE32 chunk 20; w6 = ReadLE32 chunk 24; w7 = ReadLE32 chunk 28;
          w8 = ReadLE32 chunk 32; w9 = ReadLE32 chunk 36; w10 = ReadLE32 chunk 40; w11 = ReadLE32 chunk 44;
          w12 = ReadLE32 chunk 48; w13 = ReadLE32 chunk 52; w14 = ReadLE32 chunk 56; w15 = ReadLE32 chunk 60
    in rmd_run s (rmd_steps w0 w1 w2 w3 w4 w5 w6 w7 w8 w9 w10 w11 w12 w13 w14 w15) (a1, b1, c1, d1, e1) (a2, b2, c2, d2, e2))"
  unfolding rmd_steps_def ripemd160_Transform_def rmd_run.simps by (rule refl)

section \<open>The class implements the specification\<close>

text \<open>
  The step table: round, word and rotation of the left line, word and rotation of the right line.
\<close>

definition rmd_row :: "nat \<Rightarrow> nat \<times> (nat \<times> nat) \<times> (nat \<times> nat)" where
  "rmd_row t =
     (let j = t div 16; k = rmd_word j (t mod 16); k' = rmd_word' j (t mod 16)
      in (j, (k, rmd_shift ! j ! k), (k', rmd_shift ! j ! k')))"

definition rmd_table :: "(nat \<times> (nat \<times> nat) \<times> (nat \<times> nat)) list" where
  "rmd_table =
     [(0, (0, 11), (5, 8)), (0, (1, 14), (14, 9)), (0, (2, 15), (7, 9)), (0, (3, 12), (0, 11)), (0, (4, 5), (9, 13)),
      (0, (5, 8), (2, 15)), (0, (6, 7), (11, 15)), (0, (7, 9), (4, 5)), (0, (8, 11), (13, 7)), (0, (9, 13), (6, 7)),
      (0, (10, 14), (15, 8)), (0, (11, 15), (8, 11)), (0, (12, 6), (1, 14)), (0, (13, 7), (10, 14)), (0, (14, 9), (3, 12)),
      (0, (15, 8), (12, 6)), (1, (7, 7), (6, 9)), (1, (4, 6), (11, 13)), (1, (13, 8), (3, 15)), (1, (1, 13), (7, 7)),
      (1, (10, 11), (0, 12)), (1, (6, 9), (13, 8)), (1, (15, 7), (5, 9)), (1, (3, 15), (10, 11)), (1, (12, 7), (14, 7)),
      (1, (0, 12), (15, 7)), (1, (9, 15), (8, 12)), (1, (5, 9), (12, 7)), (1, (2, 11), (4, 6)), (1, (14, 7), (9, 15)),
      (1, (11, 13), (1, 13)), (1, (8, 12), (2, 11)), (2, (3, 11), (15, 9)), (2, (10, 13), (5, 7)), (2, (14, 6), (1, 15)),
      (2, (4, 7), (3, 11)), (2, (9, 14), (7, 8)), (2, (15, 9), (14, 6)), (2, (8, 13), (6, 6)), (2, (1, 15), (9, 14)),
      (2, (2, 14), (11, 12)), (2, (7, 8), (8, 13)), (2, (0, 13), (12, 5)), (2, (6, 6), (2, 14)), (2, (13, 5), (10, 13)),
      (2, (11, 12), (0, 13)), (2, (5, 7), (4, 7)), (2, (12, 5), (13, 5)), (3, (1, 11), (8, 15)), (3, (9, 12), (6, 5)),
      (3, (11, 14), (4, 8)), (3, (10, 15), (1, 11)), (3, (0, 14), (3, 14)), (3, (8, 15), (11, 14)), (3, (12, 9), (15, 6)),
      (3, (4, 8), (0, 14)), (3, (13, 9), (5, 6)), (3, (3, 14), (12, 9)), (3, (7, 5), (2, 12)), (3, (15, 6), (13, 9)),
      (3, (14, 8), (9, 12)), (3, (5, 6), (7, 5)), (3, (6, 5), (10, 15)), (3, (2, 12), (14, 8)), (4, (4, 9), (12, 8)),
      (4, (0, 15), (15, 5)), (4, (5, 5), (10, 12)), (4, (9, 11), (4, 9)), (4, (7, 6), (1, 12)), (4, (12, 8), (5, 5)),
      (4, (2, 13), (8, 14)), (4, (10, 12), (7, 6)), (4, (14, 5), (6, 8)), (4, (1, 12), (2, 13)), (4, (3, 13), (13, 6)),
      (4, (8, 14), (14, 5)), (4, (11, 11), (0, 15)), (4, (6, 8), (3, 13)), (4, (15, 5), (9, 11)), (4, (13, 6), (11, 11))]"

lemma rmd_table_rows: "map rmd_row [0..<80] = rmd_table"
  by code_simp

lemma rmd_table_valid:
  "list_all (\<lambda>(j, (k, s), (k', s')). j < 5 \<and> 0 < s \<and> s < 32 \<and> 0 < s' \<and> s' < 32) rmd_table"
  by code_simp

definition rmd_left_fn :: "rmd_fn list" where
  "rmd_left_fn = [ripemd160_R11, ripemd160_R21, ripemd160_R31, ripemd160_R41, ripemd160_R51]"

definition rmd_right_fn :: "rmd_fn list" where
  "rmd_right_fn = [ripemd160_R12, ripemd160_R22, ripemd160_R32, ripemd160_R42, ripemd160_R52]"

fun rmd_instr :: "uint32 list \<Rightarrow> nat \<times> (nat \<times> nat) \<times> (nat \<times> nat) \<Rightarrow> (rmd_fn \<times> uint32 \<times> nat) \<times> (rmd_fn \<times> uint32 \<times> nat)" where
  "rmd_instr X (j, (k, s), (k', s')) = ((rmd_left_fn ! j, X ! k, s), (rmd_right_fn ! j, X ! k', s'))"

lemma rmd_steps_table:
  "rmd_steps (X ! 0) (X ! 1) (X ! 2) (X ! 3) (X ! 4) (X ! 5) (X ! 6) (X ! 7) (X ! 8) (X ! 9) (X ! 10) (X ! 11)
     (X ! 12) (X ! 13) (X ! 14) (X ! 15) =
   map (rmd_instr X) rmd_table"
  by (simp add: rmd_steps_def rmd_table_def rmd_left_fn_def rmd_right_fn_def)

fun rmd_app :: "rmd_fn \<times> uint32 \<times> nat \<Rightarrow> vars5 \<Rightarrow> vars5" where
  "rmd_app (R, x, r) (a, b, c, d, e) = (let (a, c) = R a b c d e x r in (e, a, b, c, d))"

lemma rmd_run_lines:
  "rmd_run s steps v1 v2 =
     rmd_combine s (foldl (\<lambda>v p. rmd_app (fst p) v) v1 steps) (foldl (\<lambda>v p. rmd_app (snd p) v) v2 steps)"
  by (induction s steps v1 v2 rule: rmd_run.induct) (auto split: prod.splits)

lemma ripemd160_rol_eq: "0 < r \<Longrightarrow> r < 32 \<Longrightarrow> ripemd160_rol x r = word_rotl r x"
  by (simp add: ripemd160_rol_def rotl_pair [of r "32 - r"])

lemma five_cases: "j < 5 \<longleftrightarrow> j = 0 \<or> j = 1 \<or> j = 2 \<or> j = 3 \<or> j = (4 :: nat)"
  by auto

lemma rmd_app_step:
  assumes "j < 5" "0 < r" "r < 32"
  shows "rmd_app (rmd_left_fn ! j, x, r) v = rmd_step (rmd_f j) (rmd_K ! j) x r v"
    and "rmd_app (rmd_right_fn ! j, x, r) v = rmd_step (rmd_f (4 - j)) (rmd_K' ! j) x r v"
proof -
  note defs = rmd_left_fn_def rmd_right_fn_def rmd_K_def rmd_K'_def rmd_f_def ripemd160_Round_def Let_def
    ripemd160_R11_def ripemd160_R21_def ripemd160_R31_def ripemd160_R41_def ripemd160_R51_def
    ripemd160_R12_def ripemd160_R22_def ripemd160_R32_def ripemd160_R42_def ripemd160_R52_def
    ripemd160_f1_def ripemd160_f2_def ripemd160_f3_def ripemd160_f4_def ripemd160_f5_def ripemd160_rol_eq
  obtain a b c d e where v: "v = (a, b, c, d, e)" by (cases v)
  from assms show "rmd_app (rmd_left_fn ! j, x, r) v = rmd_step (rmd_f j) (rmd_K ! j) x r v"
    unfolding five_cases v by (elim disjE) (simp_all add: defs)
  from assms show "rmd_app (rmd_right_fn ! j, x, r) v = rmd_step (rmd_f (4 - j)) (rmd_K' ! j) x r v"
    unfolding five_cases v by (elim disjE) (simp_all add: defs)
qed

lemma rmd_left_step_row:
  "rmd_left_step X v t = (case rmd_row t of (j, (k, s), _) \<Rightarrow> rmd_step (rmd_f j) (rmd_K ! j) (X ! k) s v)"
  by (simp add: rmd_left_step_def rmd_row_def Let_def)

lemma rmd_right_step_row:
  "rmd_right_step X v t = (case rmd_row t of (j, _, (k, s)) \<Rightarrow> rmd_step (rmd_f (4 - j)) (rmd_K' ! j) (X ! k) s v)"
  by (simp add: rmd_right_step_def rmd_row_def Let_def)

lemma rmd_lines:
  assumes "list_all (\<lambda>(j, (k, s), (k', s')). j < 5 \<and> 0 < s \<and> s < 32 \<and> 0 < s' \<and> s' < 32) (map rmd_row ts)"
  shows "foldl (\<lambda>v p. rmd_app (fst p) v) v (map (rmd_instr X) (map rmd_row ts)) = foldl (rmd_left_step X) v ts"
    and "foldl (\<lambda>v p. rmd_app (snd p) v) v (map (rmd_instr X) (map rmd_row ts)) = foldl (rmd_right_step X) v ts"
  using assms
  by (induction ts arbitrary: v)
    (auto simp: rmd_app_step rmd_left_step_row rmd_right_step_row split: prod.splits)

lemma ripemd160_Transform_compress: "ripemd160_Transform = rmd160_compress"
proof (intro ext)
  fix H :: "uint32 list" and block
  define X :: "uint32 list" where "X = map (\<lambda>t. of_nat (le_decode (take 4 (drop (4 * t) block)))) [0..<16]"
  have X: "ReadLE32 block (4 * t) = X ! t" if "t < 16" for t
    using that by (simp add: X_def ReadLE32_def)
  note reads = X [of 0] X [of 1] X [of 2] X [of 3] X [of 4] X [of 5] X [of 6] X [of 7]
    X [of 8] X [of 9] X [of 10] X [of 11] X [of 12] X [of 13] X [of 14] X [of 15]
  have valid: "list_all (\<lambda>(j, (k, s), (k', s')). j < 5 \<and> 0 < s \<and> s < 32 \<and> 0 < s' \<and> s' < 32) (map rmd_row [0..<80])"
    unfolding rmd_table_rows by (rule rmd_table_valid)
  have "ripemd160_Transform H block =
      rmd_run H (rmd_steps (X ! 0) (X ! 1) (X ! 2) (X ! 3) (X ! 4) (X ! 5) (X ! 6) (X ! 7) (X ! 8) (X ! 9)
        (X ! 10) (X ! 11) (X ! 12) (X ! 13) (X ! 14) (X ! 15))
        (H ! 0, H ! 1, H ! 2, H ! 3, H ! 4) (H ! 0, H ! 1, H ! 2, H ! 3, H ! 4)"
    unfolding ripemd160_Transform_unrolled Let_def reads [simplified] One_nat_def by (rule refl)
  then show "ripemd160_Transform H block = rmd160_compress H block"
    unfolding rmd_steps_table rmd_run_lines rmd_table_rows [symmetric] rmd_lines [OF valid]
      rmd160_compress_def Let_def X_def [symmetric] .
qed

interpretation rmdh: padded_hash 64 ripemd160_Transform 119 8 WriteLE64
  by unfold_locales simp_all

lemma length_rmd_combine [simp]: "length (rmd_combine s v w) = 5"
  by (cases v; cases w) simp

lemma ripemd160_Initialize_md4: "md4_initial = ripemd160_Initialize"
  by (simp add: md4_initial_def ripemd160_Initialize_def)

lemma CRIPEMD160_digest:
  assumes "hs h = ripemd160_Initialize" "hbytes h = 0" "length (hbuf h) = 64"
    and h': "h' = foldl CRIPEMD160_Write h ds"
  shows "fst (CRIPEMD160_Finalize h') = rmd160 (concat ds)" "length (hbuf (snd (CRIPEMD160_Finalize h'))) = 64"
proof -
  let ?h = "hasher_Finalize 64 ripemd160_Transform 119 WriteLE64 (foldl (hasher_Write 64 ripemd160_Transform) h ds)"
  note d = rmdh.digest_of_pieces [OF assms(1-3) refl, of ds]
  have "length (hs ?h) = 5"
    unfolding d(1) by (rule length_foldl_blocks)
      (simp_all add: ripemd160_Transform_compress rmd160_compress_def ripemd160_Initialize_def Let_def)
  from concat_map_5 [OF this, of "WriteLE32"]
  have "fst (CRIPEMD160_Finalize h') = concat (map WriteLE32 (hs ?h))"
    by (simp add: CRIPEMD160_Finalize_def CRIPEMD160_Write_def h' Let_def)
  then show "fst (CRIPEMD160_Finalize h') = rmd160 (concat ds)"
    unfolding d(1) WriteLE64_field
    by (simp only: rmd160_def ripemd160_Initialize_md4 ripemd160_Transform_compress WriteLE32_def [abs_def])
  show "length (hbuf (snd (CRIPEMD160_Finalize h'))) = 64"
    using d(2) by (simp add: CRIPEMD160_Finalize_def CRIPEMD160_Write_def h' Let_def)
qed

text \<open>
  C12: The class \<open>CRIPEMD160\<close> computes RIPEMD-160 for every message and every way of splitting it over
  \<open>Write\<close> calls, whatever the uninitialised buffer holds: the 160 unrolled steps are the two lines of
  the specification, with their word orders, rotations and constants.
\<close>

theorem ripemd160_correct:
  assumes "length junk = 64"
  shows "fst (CRIPEMD160_Finalize (foldl CRIPEMD160_Write (CRIPEMD160 junk) ds)) = rmd160 (concat ds)"
  by (rule CRIPEMD160_digest [OF _ _ _ refl]) (simp_all add: CRIPEMD160_def assms)

theorem ripemd160_correct_witness:
  "fst (CRIPEMD160_Finalize
     (foldl CRIPEMD160_Write (CRIPEMD160 (replicate 64 0xcc)) [[0x61], replicate 100 0x62, []])) =
   rmd160 (0x61 # replicate 100 0x62)"
  using ripemd160_correct [of "replicate 64 0xcc" "[[0x61], replicate 100 0x62, []]"] by simp

end
