(* ===== verification/Hash.thy ===== *)
theory Hash
  imports Sha256 Sha512 Ripemd160
begin

text \<open>
  What the node builds from the hash classes: the double and composite hashers of \<open>src/src/hash.h\<close>,
  HMAC (\<open>crypto/hmac_sha256.cpp\<close>, \<open>crypto/hmac_sha512.cpp\<close>), the BIP 32 derivation hash of \<open>hash.cpp\<close> and
  MurmurHash3. Objects that are created on the way take the contents of their uninitialised buffer as an
  argument.
\<close>

section \<open>Composite hashers\<close>

definition CHash256_Write :: "uint32 list hasher \<Rightarrow> byte list \<Rightarrow> uint32 list hasher" where
  "CHash256_Write = CSHA256_Write"

definition CHash256_Finalize :: "uint32 list hasher \<Rightarrow> byte list \<times> uint32 list hasher" where
  "CHash256_Finalize sha =
     (let (buf, sha) = CSHA256_Finalize sha
      in CSHA256_Finalize (CSHA256_Write (CSHA256_Reset sha) buf))"

definition CHash256_Reset :: "uint32 list hasher \<Rightarrow> uint32 list hasher" where
  "CHash256_Reset = CSHA256_Reset"

definition CHash512_Write :: "uint64 list hasher \<Rightarrow> byte list \<Rightarrow> uint64 list hasher" where
  "CHash512_Write = CSHA512_Write"

definition CHash512_Finalize :: "uint64 list hasher \<Rightarrow> byte list \<times> uint64 list hasher" where
  "CHash512_Finalize sha =
     (let (buf, sha) = CSHA512_Finalize sha
      in CSHA512_Finalize (CSHA512_Write (CSHA512_Reset sha) buf))"

definition CHash160_Write :: "uint32 list hasher \<Rightarrow> byte list \<Rightarrow> uint32 list hasher" where
  "CHash160_Write = CSHA256_Write"

definition CHash160_Finalize :: "byte list \<Rightarrow> uint32 list hasher \<Rightarrow> byte list" where
  "CHash160_Finalize junk sha =
     (let (buf, sha) = CSHA256_Finalize sha
      in fst (CRIPEMD160_Finalize (CRIPEMD160_Write (CRIPEMD160 junk) buf)))"

text \<open>\<open>Hash\<close> of one to six ranges: one \<open>Write\<close> per range, in order.\<close>

definition Hash :: "byte list \<Rightarrow> byte list list \<Rightarrow> byte list" where
  "Hash junk ranges = fst (CHash256_Finalize (foldl CHash256_Write (CSHA256 junk) ranges))"

definition Hash512 :: "byte list \<Rightarrow> byte list list \<Rightarrow> byte list" where
  "Hash512 junk ranges = fst (CHash512_Finalize (foldl CHash512_Write (CSHA512 junk) ranges))"

definition Hash160 :: "byte list \<Rightarrow> byte list \<Rightarrow> byte list \<Rightarrow> byte list" where
  "Hash160 junk junk' vch = CHash160_Finalize junk' (CHash160_Write (CSHA256 junk) vch)"

section \<open>HMAC\<close>

record hmac_sha256 =
  outer256 :: "uint32 list hasher"
  inner256 :: "uint32 list hasher"

definition CHMAC_SHA256 :: "byte list \<Rightarrow> byte list \<Rightarrow> byte list \<Rightarrow> byte list \<Rightarrow> hmac_sha256" where
  "CHMAC_SHA256 j1 j2 j3 key =
     (let keylen = length key;
          rkey = (if keylen \<le> 64 then key @ replicate (64 - keylen) 0
                  else fst (CSHA256_Finalize (CSHA256_Write (CSHA256 j1) key)) @ replicate 32 0);
          rkey = map (\<lambda>x. x XOR 0x5c) rkey;
          outer = CSHA256_Write (CSHA256 j2) rkey;
          rkey = map (\<lambda>x. x XOR (0x5c XOR 0x36)) rkey;
          inner = CSHA256_Write (CSHA256 j3) rkey
      in \<lparr>outer256 = outer, inner256 = inner\<rparr>)"

definition CHMAC_SHA256_Write :: "hmac_sha256 \<Rightarrow> byte list \<Rightarrow> hmac_sha256" where
  "CHMAC_SHA256_Write m data = m\<lparr>inner256 := CSHA256_Write (inner256 m) data\<rparr>"

definition CHMAC_SHA256_Finalize :: "hmac_sha256 \<Rightarrow> byte list" where
  "CHMAC_SHA256_Finalize m =
     (let (temp, inner) = CSHA256_Finalize (inner256 m)
      in fst (CSHA256_Finalize (CSHA256_Write (outer256 m) temp)))"

record hmac_sha512 =
  outer512 :: "uint64 list hasher"
  inner512 :: "uint64 list hasher"

definition CHMAC_SHA512 :: "byte list \<Rightarrow> byte list \<Rightarrow> byte list \<Rightarrow> byte list \<Rightarrow> hmac_sha512" where
  "CHMAC_SHA512 j1 j2 j3 key =
     (let keylen = length key;
          rkey = (if keylen \<le> 128 then key @ replicate (128 - keylen) 0
                  else fst (CSHA512_Finalize (CSHA512_Write (CSHA512 j1) key)) @ replicate 64 0);
          rkey = map (\<lambda>x. x XOR 0x5c) rkey;
          outer = CSHA512_Write (CSHA512 j2) rkey;
          rkey = map (\<lambda>x. x XOR (0x5c XOR 0x36)) rkey;
          inner = CSHA512_Write (CSHA512 j3) rkey
      in \<lparr>outer512 = outer, inner512 = inner\<rparr>)"

definition CHMAC_SHA512_Write :: "hmac_sha512 \<Rightarrow> byte list \<Rightarrow> hmac_sha512" where
  "CHMAC_SHA512_Write m data = m\<lparr>inner512 := CSHA512_Write (inner512 m) data\<rparr>"

definition CHMAC_SHA512_Finalize :: "hmac_sha512 \<Rightarrow> byte list" where
  "CHMAC_SHA512_Finalize m =
     (let (temp, inner) = CSHA512_Finalize (inner512 m)
      in fst (CSHA512_Finalize (CSHA512_Write (outer512 m) temp)))"

definition BIP32Hash ::
    "byte list \<Rightarrow> byte list \<Rightarrow> byte list \<Rightarrow> byte list \<Rightarrow> uint32 \<Rightarrow> byte \<Rightarrow> byte list \<Rightarrow> byte list" where
  "BIP32Hash j1 j2 j3 chainCode nChild header data =
     (let num = [ucast (drop_bit 24 nChild AND 0xff), ucast (drop_bit 16 nChild AND 0xff),
                 ucast (drop_bit 8 nChild AND 0xff), ucast (drop_bit 0 nChild AND 0xff)]
      in CHMAC_SHA512_Finalize
           (CHMAC_SHA512_Write (CHMAC_SHA512_Write (CHMAC_SHA512_Write
             (CHMAC_SHA512 j1 j2 j3 chainCode) [header]) data) num))"

section \<open>MurmurHash3\<close>

definition ROTL32 :: "uint32 \<Rightarrow> nat \<Rightarrow> uint32" where
  "ROTL32 x r = push_bit r x OR drop_bit (32 - r) x"

definition murmur_c1 :: uint32 where "murmur_c1 = 0xcc9e2d51"
definition murmur_c2 :: uint32 where "murmur_c2 = 0x1b873593"

text \<open>The body loop over the four-byte blocks that the data starts with.\<close>

fun murmur_body :: "uint32 \<Rightarrow> byte list \<Rightarrow> uint32" where
  "murmur_body h1 (b0 # b1 # b2 # b3 # rest) =
     (let k1 = ReadLE32 [b0, b1, b2, b3] 0;
          k1 = k1 * murmur_c1; k1 = ROTL32 k1 15; k1 = k1 * murmur_c2;
          h1 = h1 XOR k1; h1 = ROTL32 h1 13; h1 = h1 * 5 + 0xe6546b64
      in murmur_body h1 rest)"
| "murmur_body h1 rest = h1"

text \<open>The \<open>switch\<close> falls through: the cases three, two and one share the end.\<close>

definition murmur_tail :: "uint32 \<Rightarrow> byte list \<Rightarrow> uint32" where
  "murmur_tail h1 tail =
     (let n = length tail;
          k1 = 0;
          k1 = (if n = 3 then k1 XOR push_bit 16 (ucast (tail ! 2)) else k1);
          k1 = (if n = 3 \<or> n = 2 then k1 XOR push_bit 8 (ucast (tail ! 1)) else k1)
      in if n = 0 then h1
         else let k1 = k1 XOR ucast (tail ! 0);
                  k1 = k1 * murmur_c1; k1 = ROTL32 k1 15; k1 = k1 * murmur_c2
              in h1 XOR k1)"

definition MurmurHash3 :: "uint32 \<Rightarrow> byte list \<Rightarrow> uint32" where
  "MurmurHash3 nHashSeed vDataToHash =
     (let h1 = nHashSeed;
          h1 = (if length vDataToHash > 0
                then let nblocks = length vDataToHash div 4
                     in murmur_tail (murmur_body h1 (take (4 * nblocks) vDataToHash))
                          (drop (4 * nblocks) vDataToHash)
                else h1);
          h1 = h1 XOR of_nat (length vDataToHash);
          h1 = h1 XOR drop_bit 16 h1; h1 = h1 * 0x85ebca6b;
          h1 = h1 XOR drop_bit 13 h1; h1 = h1 * 0xc2b2ae35;
          h1 = h1 XOR drop_bit 16 h1
      in h1)"

section \<open>What they compute\<close>

lemma Write_concat: "foldl CSHA256_Write h [d] = CSHA256_Write h d" "foldl CSHA512_Write k [e] = CSHA512_Write k e"
  "foldl CRIPEMD160_Write r [d] = CRIPEMD160_Write r d"
  by simp_all

lemma CHash256_digest:
  assumes "length junk = 64"
  shows "fst (CHash256_Finalize (foldl CHash256_Write (CSHA256 junk) ds)) = fips_sha256 (fips_sha256 (concat ds))"
proof -
  note d = CSHA256_digest [of "CSHA256 junk" _ ds, OF _ _ _ refl]
  obtain buf sha where f: "CSHA256_Finalize (foldl CSHA256_Write (CSHA256 junk) ds) = (buf, sha)" by fastforce
  have "buf = fips_sha256 (concat ds)" "length (hbuf sha) = 64"
    using d f assms by (simp_all add: CSHA256_def)
  moreover have "fst (CSHA256_Finalize (foldl CSHA256_Write (CSHA256_Reset sha) [buf])) = fips_sha256 (concat [buf])"
    using calculation by (intro CSHA256_digest [OF _ _ _ refl]) (simp_all add: CSHA256_Reset_def)
  ultimately show ?thesis
    using f by (simp add: CHash256_Finalize_def CHash256_Write_def)
qed

lemma Hash_eq: "length junk = 64 \<Longrightarrow> Hash junk rs = fips_sha256 (fips_sha256 (concat rs))"
  by (simp add: Hash_def CHash256_digest)

lemma Hash160_eq:
  assumes "length junk = 64" "length junk' = 64"
  shows "Hash160 junk junk' m = rmd160 (fips_sha256 m)"
proof -
  have 1: "fst (CSHA256_Finalize (foldl CSHA256_Write (CSHA256 junk) [m])) = fips_sha256 (concat [m])"
    using assms by (intro CSHA256_digest [OF _ _ _ refl]) (simp_all add: CSHA256_def)
  have 2: "fst (CRIPEMD160_Finalize (foldl CRIPEMD160_Write (CRIPEMD160 junk') [buf])) = rmd160 (concat [buf])" for buf
    using assms by (intro CRIPEMD160_digest [OF _ _ _ refl]) (simp_all add: CRIPEMD160_def)
  obtain buf sha where f: "CSHA256_Finalize (CSHA256_Write (CSHA256 junk) m) = (buf, sha)" by fastforce
  with 1 2 [of buf] show ?thesis
    by (simp add: Hash160_def CHash160_Finalize_def CHash160_Write_def)
qed

lemma length_fips_sha256 [simp]: "length (fips_sha256 m) = 32"
  using CSHA256_digest(1) [of "CSHA256 (replicate 64 0)" _ "[m]", OF _ _ _ refl]
  by (simp add: CSHA256_def) (metis length_CSHA256_Finalize)

lemma length_rmd160 [simp]: "length (rmd160 m) = 20"
  using CRIPEMD160_digest(1) [of "CRIPEMD160 (replicate 64 0)" _ "[m]", OF _ _ _ refl]
  by (simp add: CRIPEMD160_def) (metis length_CRIPEMD160_Finalize)

text \<open>
  HMAC of RFC 2104 over a hash \<open>H\<close> with block size \<open>B\<close>: a long key is hashed first, a short one is
  filled up with zeros.
\<close>

definition hmac_key :: "nat \<Rightarrow> (byte list \<Rightarrow> byte list) \<Rightarrow> byte list \<Rightarrow> byte list" where
  "hmac_key B H K = (let K = (if length K > B then H K else K) in K @ replicate (B - length K) 0)"

definition rfc2104_hmac :: "nat \<Rightarrow> (byte list \<Rightarrow> byte list) \<Rightarrow> byte list \<Rightarrow> byte list \<Rightarrow> byte list" where
  "rfc2104_hmac B H K text =
     (let K = hmac_key B H K
      in H (map ((XOR) 0x5c) K @ H (map ((XOR) 0x36) K @ text)))"

lemma le_encode_4: "le_encode 4 n = [of_nat n, of_nat (n div 2 ^ 8), of_nat (n div 2 ^ 16), of_nat (n div 2 ^ 24)]"
proof -
  have "le_encode (Suc (Suc (Suc (Suc 0)))) n =
      [of_nat n, of_nat (n div 2 ^ 8), of_nat (n div 2 ^ 16), of_nat (n div 2 ^ 24)]"
    by (simp flip: div_mult2_eq)
  moreover have "Suc (Suc (Suc (Suc 0))) = 4" by simp
  ultimately show ?thesis by (simp only:)
qed

lemma big_endian_bytes:
  "[ucast (drop_bit 24 (x :: uint32) AND 0xff), ucast (drop_bit 16 x AND 0xff), ucast (drop_bit 8 x AND 0xff),
    ucast (drop_bit 0 x AND 0xff)] = be_encode 4 (unat x)"
proof -
  have b: "ucast (drop_bit n x AND 0xff) = (of_nat (unat x div 2 ^ n) :: byte)" for n
  proof -
    have "drop_bit n x AND 0xff = take_bit 8 (drop_bit n x)"
      by (simp add: take_bit_eq_mask mask_eq_exp_minus_1)
    then have "ucast (drop_bit n x AND 0xff) = (ucast (drop_bit n x) :: byte)"
      by (simp add: bit_eq_iff bit_simps)
    also have "\<dots> = of_nat (unat (drop_bit n x))" by simp
    also have "unat (drop_bit n x) = unat x div 2 ^ n"
      by (simp only: unat_drop_bit_eq drop_bit_eq_div [of n "unat x"])
    finally show ?thesis .
  qed
  show ?thesis by (simp only: b be_encode_def le_encode_4) simp
qed

lemma hmac_pads:
  "map (\<lambda>x :: byte. x XOR (0x5c XOR 0x36)) (map ((XOR) 0x5c) K) = map ((XOR) 0x36) K"
  "map (\<lambda>x :: byte. x XOR 0x5c) K = map ((XOR) 0x5c) K"
  by (simp_all add: comp_def ac_simps flip: xor.assoc)

lemma CHMAC_SHA256_Writes:
  "inner256 (foldl CHMAC_SHA256_Write m ds) = foldl CSHA256_Write (inner256 m) ds"
  "outer256 (foldl CHMAC_SHA256_Write m ds) = outer256 m"
  by (induction ds arbitrary: m) (simp_all add: CHMAC_SHA256_Write_def)

lemma CHMAC_SHA256_digest:
  assumes j: "length j1 = 64" "length j2 = 64" "length j3 = 64"
  shows "CHMAC_SHA256_Finalize (foldl CHMAC_SHA256_Write (CHMAC_SHA256 j1 j2 j3 key) ds) =
    rfc2104_hmac 64 fips_sha256 key (concat ds)"
proof -
  let ?K = "hmac_key 64 fips_sha256 key"
  let ?m = "CHMAC_SHA256 j1 j2 j3 key"
  have lK: "length ?K = 64" by (simp add: hmac_key_def Let_def)
  have "fst (CSHA256_Finalize (foldl CSHA256_Write (CSHA256 j1) [key])) = fips_sha256 (concat [key])"
    by (rule CSHA256_digest [OF _ _ _ refl]) (simp_all add: CSHA256_def j)
  then have rk: "(if length key \<le> 64 then key @ replicate (64 - length key) 0
      else fst (CSHA256_Finalize (CSHA256_Write (CSHA256 j1) key)) @ replicate 32 0) = ?K"
    by (simp add: hmac_key_def)
  have m: "outer256 ?m = CSHA256_Write (CSHA256 j2) (map ((XOR) 0x5c) ?K)"
    "inner256 ?m = CSHA256_Write (CSHA256 j3) (map ((XOR) 0x36) ?K)"
    unfolding CHMAC_SHA256_def Let_def rk hmac_pads by simp_all
  have "fst (CSHA256_Finalize (foldl CSHA256_Write (CSHA256 j3) (map ((XOR) 0x36) ?K # ds))) =
      fips_sha256 (concat (map ((XOR) 0x36) ?K # ds))"
    by (rule CSHA256_digest [OF _ _ _ refl]) (simp_all add: CSHA256_def j lK)
  then have i: "fst (CSHA256_Finalize (inner256 (foldl CHMAC_SHA256_Write ?m ds))) =
      fips_sha256 (map ((XOR) 0x36) ?K @ concat ds)"
    by (simp add: CHMAC_SHA256_Writes m)
  have o: "fst (CSHA256_Finalize (foldl CSHA256_Write (CSHA256 j2) [map ((XOR) 0x5c) ?K, t])) =
      fips_sha256 (concat [map ((XOR) 0x5c) ?K, t])" for t
    by (rule CSHA256_digest [OF _ _ _ refl]) (simp_all add: CSHA256_def j lK)
  obtain temp inner where f: "CSHA256_Finalize (inner256 (foldl CHMAC_SHA256_Write ?m ds)) = (temp, inner)"
    by fastforce
  with f i o [of temp] show ?thesis
    by (simp add: CHMAC_SHA256_Finalize_def CHMAC_SHA256_Writes rfc2104_hmac_def Let_def m)
qed

lemma length_fips_sha512: "length m < 2 ^ 61 \<Longrightarrow> length (fips_sha512 m) = 64"
  using CSHA512_digest(1) [of "CSHA512 (replicate 128 0)" "[m]", OF _ _ _ _ refl]
  by (simp add: CSHA512_def) (metis length_CSHA512_Finalize)

lemma CHMAC_SHA512_Writes:
  "inner512 (foldl CHMAC_SHA512_Write m ds) = foldl CSHA512_Write (inner512 m) ds"
  "outer512 (foldl CHMAC_SHA512_Write m ds) = outer512 m"
  by (induction ds arbitrary: m) (simp_all add: CHMAC_SHA512_Write_def)

lemma CHMAC_SHA512_digest:
  assumes j: "length j1 = 128" "length j2 = 128" "length j3 = 128" "length key < 2 ^ 61" "length (concat ds) < 2 ^ 61 - 128"
  shows "CHMAC_SHA512_Finalize (foldl CHMAC_SHA512_Write (CHMAC_SHA512 j1 j2 j3 key) ds) =
    rfc2104_hmac 128 fips_sha512 key (concat ds)"
proof -
  let ?K = "hmac_key 128 fips_sha512 key"
  let ?m = "CHMAC_SHA512 j1 j2 j3 key"
  have lh: "length (fips_sha512 key) = 64" using assms(4) by (rule length_fips_sha512)
  have lK: "length ?K = 128" by (simp add: hmac_key_def Let_def lh)
  have "fst (CSHA512_Finalize (foldl CSHA512_Write (CSHA512 j1) [key])) = fips_sha512 (concat [key])"
    by (rule CSHA512_digest [OF _ _ _ _ refl]) (use assms(4-5) in \<open>simp_all add: CSHA512_def j\<close>)
  then have rk: "(if length key \<le> 128 then key @ replicate (128 - length key) 0
      else fst (CSHA512_Finalize (CSHA512_Write (CSHA512 j1) key)) @ replicate 64 0) = ?K"
    by (simp add: hmac_key_def lh)
  have m: "outer512 ?m = CSHA512_Write (CSHA512 j2) (map ((XOR) 0x5c) ?K)"
    "inner512 ?m = CSHA512_Write (CSHA512 j3) (map ((XOR) 0x36) ?K)"
    unfolding CHMAC_SHA512_def Let_def rk hmac_pads by simp_all
  have "fst (CSHA512_Finalize (foldl CSHA512_Write (CSHA512 j3) (map ((XOR) 0x36) ?K # ds))) =
      fips_sha512 (concat (map ((XOR) 0x36) ?K # ds))"
    by (rule CSHA512_digest [OF _ _ _ _ refl]) (use assms(4-5) in \<open>simp_all add: CSHA512_def j lK\<close>)
  then have i: "fst (CSHA512_Finalize (inner512 (foldl CHMAC_SHA512_Write ?m ds))) =
      fips_sha512 (map ((XOR) 0x36) ?K @ concat ds)"
    by (simp add: CHMAC_SHA512_Writes m)
  have o: "fst (CSHA512_Finalize (foldl CSHA512_Write (CSHA512 j2) [map ((XOR) 0x5c) ?K, t])) =
      fips_sha512 (concat [map ((XOR) 0x5c) ?K, t])" if "length t < 2 ^ 60" for t
    by (rule CSHA512_digest [OF _ _ _ _ refl]) (use that in \<open>simp_all add: CSHA512_def j lK\<close>)
  obtain temp inner where f: "CSHA512_Finalize (inner512 (foldl CHMAC_SHA512_Write ?m ds)) = (temp, inner)"
    by fastforce
  have "length temp = 64" using f by (metis fst_conv length_CSHA512_Finalize)
  with f i o [of temp] show ?thesis
    by (simp add: CHMAC_SHA512_Finalize_def CHMAC_SHA512_Writes rfc2104_hmac_def Let_def m lh)
qed

section \<open>Properties\<close>

text \<open>
  C15: The HMAC classes compute HMAC of RFC 2104: \<open>CHMAC_SHA256\<close> over SHA-256 for keys and messages of
  any length, with keys longer than a block hashed first and the two pads derived from one key
  buffer by exclusive or, whatever the message is split into.
\<close>

theorem hmac_sha256_correct:
  assumes "length j1 = 64" "length j2 = 64" "length j3 = 64"
  shows "CHMAC_SHA256_Finalize (foldl CHMAC_SHA256_Write (CHMAC_SHA256 j1 j2 j3 key) ds) =
    rfc2104_hmac 64 fips_sha256 key (concat ds)"
  using assms by (rule CHMAC_SHA256_digest)

theorem hmac_sha256_correct_witness:
  "CHMAC_SHA256_Finalize
     (foldl CHMAC_SHA256_Write
       (CHMAC_SHA256 (replicate 64 1) (replicate 64 2) (replicate 64 3) (replicate 70 0xaa)) [[1, 2], [3]]) =
   rfc2104_hmac 64 fips_sha256 (replicate 70 0xaa) [1, 2, 3]"
  using hmac_sha256_correct [of "replicate 64 1" "replicate 64 2" "replicate 64 3" "replicate 70 0xaa" "[[1, 2], [3]]"]
  by simp

text \<open>
  The hashes the protocol is built on are the intended compositions: \<open>Hash\<close> over any number of
  ranges is SHA-256 twice over their concatenation, \<open>Hash160\<close> is RIPEMD-160 after SHA-256, and the
  child-key hash of BIP 32 is HMAC-SHA-512 under the chain code over the header, the 32 data bytes
  and the big-endian child number.
\<close>

theorem protocol_hashes:
  assumes "length junk = 64" "length junk' = 64"
    and "length j1 = 128" "length j2 = 128" "length j3 = 128" "length chainCode < 2 ^ 61" "length data = 32"
  shows "Hash junk ranges = fips_sha256 (fips_sha256 (concat ranges)) \<and>
    Hash160 junk junk' m = rmd160 (fips_sha256 m) \<and>
    BIP32Hash j1 j2 j3 chainCode nChild header data =
      rfc2104_hmac 128 fips_sha512 chainCode (header # data @ be_encode 4 (unat nChild))"
proof -
  let ?num = "be_encode 4 (unat nChild)"
  have "length (concat [[header], data, ?num]) < 2 ^ 61 - 128" using assms by simp
  from CHMAC_SHA512_digest [OF assms(3-6) this]
  have "CHMAC_SHA512_Finalize (foldl CHMAC_SHA512_Write (CHMAC_SHA512 j1 j2 j3 chainCode) [[header], data, ?num]) =
      rfc2104_hmac 128 fips_sha512 chainCode (header # data @ ?num)" by simp
  then show ?thesis
    using assms unfolding BIP32Hash_def Let_def big_endian_bytes by (simp add: Hash_eq Hash160_eq)
qed

theorem protocol_hashes_witness:
  "Hash (replicate 64 9) [[1], [2]] = fips_sha256 (fips_sha256 [1, 2])"
  using protocol_hashes [of "replicate 64 9" "replicate 64 8" "replicate 128 1" "replicate 128 2" "replicate 128 3"
      "replicate 32 4" "replicate 32 5" "[[1], [2]]"] by simp

end
