(* ===== verification/Interpreter.thy ===== *)
theory Interpreter
  imports SigEncoding Hash
begin

text \<open>
  \<open>EvalScript\<close> and \<open>VerifyScript\<close> of \<open>src/src/script/interpreter.cpp\<close>. The stack is a list in the order of
  the C++ vector, with the top at the end. Every \<open>case\<close> of the switch is one definition below, in the
  order of the source; it maps the state to an outcome: \<open>Fail\<close> for \<open>return set_error\<close>, \<open>Throw\<close> for the
  exceptions of \<open>vector::at\<close>, \<open>popstack\<close> and \<open>CScriptNum\<close>, \<open>Abort\<close> for iterator arithmetic outside the
  vector and for failed assertions. The signature checker is the argument it is in the code.
\<close>

section \<open>State\<close>

record script_env =
  flags :: uint32
  CheckSig :: "valtype \<Rightarrow> valtype \<Rightarrow> byte list \<Rightarrow> bool"
  CheckLowS :: "valtype \<Rightarrow> bool"

record eval_state =
  stack :: "valtype list"
  altstack :: "valtype list"
  vfExec :: "bool list"
  nOpCount :: int
  pbegincodehash :: "byte list"

type_synonym 'a eval = "(ScriptError, 'a) outcome"

abbreviation invalid_stack :: "'a eval" where
  "invalid_stack \<equiv> Fail SCRIPT_ERR_INVALID_STACK_OPERATION"

definition vchFalse :: valtype where "vchFalse = []"
definition vchTrue :: valtype where "vchTrue = [1]"

definition fRequireMinimal :: "script_env \<Rightarrow> bool" where
  "fRequireMinimal env = (flags env AND SCRIPT_VERIFY_MINIMALDATA \<noteq> 0)"

definition MAX_SCRIPT_ELEMENT_SIZE :: nat where "MAX_SCRIPT_ELEMENT_SIZE = 520"

subsection \<open>Vector access\<close>

definition stacktop :: "valtype list \<Rightarrow> int \<Rightarrow> valtype eval" where
  "stacktop st i =
     (let k = int (length st) + i
      in if 0 \<le> k \<and> k < int (length st) then Ok (st ! nat k) else Throw out_of_range)"

definition popstack :: "valtype list \<Rightarrow> valtype list eval" where
  "popstack st = (if st = [] then Throw runtime_error else Ok (butlast st))"

text \<open>\<open>swap(stacktop(i), stacktop(j))\<close>.\<close>

definition swap_top :: "valtype list \<Rightarrow> int \<Rightarrow> int \<Rightarrow> valtype list eval" where
  "swap_top st i j =
     bindO (stacktop st i) (\<lambda>x. bindO (stacktop st j) (\<lambda>y.
       Ok ((st[nat (int (length st) + i) := y])[nat (int (length st) + j) := x])))"

text \<open>\<open>erase(end() - a, end() - b)\<close> and \<open>insert(end() - a, x)\<close>.\<close>

definition erase_top :: "valtype list \<Rightarrow> nat \<Rightarrow> nat \<Rightarrow> valtype list eval" where
  "erase_top st a b =
     (if b \<le> a \<and> a \<le> length st then Ok (take (length st - a) st @ drop (length st - b) st) else Abort)"

definition insert_top :: "valtype list \<Rightarrow> nat \<Rightarrow> valtype \<Rightarrow> valtype list eval" where
  "insert_top st a x =
     (if a \<le> length st then Ok (take (length st - a) st @ [x] @ drop (length st - a) st) else Abort)"

section \<open>Stack operations\<close>

definition op_2DROP :: "valtype list \<Rightarrow> valtype list eval" where
  "op_2DROP st = (if length st < 2 then invalid_stack else bindO (popstack st) popstack)"

definition op_2DUP :: "valtype list \<Rightarrow> valtype list eval" where
  "op_2DUP st =
     (if length st < 2 then invalid_stack
      else bindO (stacktop st (-2)) (\<lambda>vch1. bindO (stacktop st (-1)) (\<lambda>vch2.
             Ok (st @ [vch1] @ [vch2]))))"

definition op_3DUP :: "valtype list \<Rightarrow> valtype list eval" where
  "op_3DUP st =
     (if length st < 3 then invalid_stack
      else bindO (stacktop st (-3)) (\<lambda>vch1. bindO (stacktop st (-2)) (\<lambda>vch2.
             bindO (stacktop st (-1)) (\<lambda>vch3. Ok (st @ [vch1] @ [vch2] @ [vch3])))))"

definition op_2OVER :: "valtype list \<Rightarrow> valtype list eval" where
  "op_2OVER st =
     (if length st < 4 then invalid_stack
      else bindO (stacktop st (-4)) (\<lambda>vch1. bindO (stacktop st (-3)) (\<lambda>vch2.
             Ok (st @ [vch1] @ [vch2]))))"

definition op_2ROT :: "valtype list \<Rightarrow> valtype list eval" where
  "op_2ROT st =
     (if length st < 6 then invalid_stack
      else bindO (stacktop st (-6)) (\<lambda>vch1. bindO (stacktop st (-5)) (\<lambda>vch2.
             bindO (erase_top st 6 4) (\<lambda>st. Ok (st @ [vch1] @ [vch2])))))"

definition op_2SWAP :: "valtype list \<Rightarrow> valtype list eval" where
  "op_2SWAP st =
     (if length st < 4 then invalid_stack
      else bindO (swap_top st (-4) (-2)) (\<lambda>st. swap_top st (-3) (-1)))"

definition op_IFDUP :: "valtype list \<Rightarrow> valtype list eval" where
  "op_IFDUP st =
     (if length st < 1 then invalid_stack
      else bindO (stacktop st (-1)) (\<lambda>vch. if CastToBool vch then Ok (st @ [vch]) else Ok st))"

definition op_DEPTH :: "valtype list \<Rightarrow> valtype list eval" where
  "op_DEPTH st = Ok (st @ [getvch (int (length st))])"

definition op_DROP :: "valtype list \<Rightarrow> valtype list eval" where
  "op_DROP st = (if length st < 1 then invalid_stack else popstack st)"

definition op_DUP :: "valtype list \<Rightarrow> valtype list eval" where
  "op_DUP st =
     (if length st < 1 then invalid_stack
      else bindO (stacktop st (-1)) (\<lambda>vch. Ok (st @ [vch])))"

definition op_NIP :: "valtype list \<Rightarrow> valtype list eval" where
  "op_NIP st = (if length st < 2 then invalid_stack else erase_top st 2 1)"

definition op_OVER :: "valtype list \<Rightarrow> valtype list eval" where
  "op_OVER st =
     (if length st < 2 then invalid_stack
      else bindO (stacktop st (-2)) (\<lambda>vch. Ok (st @ [vch])))"

definition op_PICK_ROLL :: "bool \<Rightarrow> bool \<Rightarrow> valtype list \<Rightarrow> valtype list eval" where
  "op_PICK_ROLL minimal roll st =
     (if length st < 2 then invalid_stack
      else bindO (stacktop st (-1)) (\<lambda>v. bindO (CScriptNum_of_vch v minimal) (\<lambda>bn.
        let n = getint bn in
        bindO (popstack st) (\<lambda>st.
          if n < 0 \<or> n \<ge> int (length st) then invalid_stack
          else bindO (stacktop st (- n - 1)) (\<lambda>vch.
            bindO (if roll then erase_top st (nat n + 1) (nat n) else Ok st) (\<lambda>st.
              Ok (st @ [vch])))))))"

definition op_ROT :: "valtype list \<Rightarrow> valtype list eval" where
  "op_ROT st =
     (if length st < 3 then invalid_stack
      else bindO (swap_top st (-3) (-2)) (\<lambda>st. swap_top st (-2) (-1)))"

definition op_SWAP :: "valtype list \<Rightarrow> valtype list eval" where
  "op_SWAP st = (if length st < 2 then invalid_stack else swap_top st (-2) (-1))"

definition op_TUCK :: "valtype list \<Rightarrow> valtype list eval" where
  "op_TUCK st =
     (if length st < 2 then invalid_stack
      else bindO (stacktop st (-1)) (\<lambda>vch. insert_top st 2 vch))"

definition op_SIZE :: "valtype list \<Rightarrow> valtype list eval" where
  "op_SIZE st =
     (if length st < 1 then invalid_stack
      else bindO (stacktop st (-1)) (\<lambda>vch. Ok (st @ [getvch (int (length vch))])))"

definition op_VERIFY :: "valtype list \<Rightarrow> valtype list eval" where
  "op_VERIFY st =
     (if length st < 1 then invalid_stack
      else bindO (stacktop st (-1)) (\<lambda>vch.
        if CastToBool vch then popstack st else Fail SCRIPT_ERR_VERIFY))"

definition op_EQUAL :: "bool \<Rightarrow> valtype list \<Rightarrow> valtype list eval" where
  "op_EQUAL verify st =
     (if length st < 2 then invalid_stack
      else bindO (stacktop st (-2)) (\<lambda>vch1. bindO (stacktop st (-1)) (\<lambda>vch2.
        let fEqual = (vch1 = vch2) in
        bindO (popstack st) (\<lambda>st. bindO (popstack st) (\<lambda>st.
          let st = st @ [if fEqual then vchTrue else vchFalse] in
          if verify then (if fEqual then popstack st else Fail SCRIPT_ERR_EQUALVERIFY) else Ok st)))))"

section \<open>Numeric operations\<close>

text \<open>A comparison assigned to a \<open>CScriptNum\<close> is the number one or zero.\<close>

definition of_cond :: "bool \<Rightarrow> CScriptNum" where
  "of_cond b = (if b then 1 else 0)"

definition unary_num :: "opcodetype \<Rightarrow> CScriptNum \<Rightarrow> CScriptNum eval" where
  "unary_num opcode bn =
     (if opcode = OP_1ADD then num_plus_assign bn 1
      else if opcode = OP_1SUB then num_minus_assign bn 1
      else if opcode = OP_NEGATE then num_uminus bn
      else if opcode = OP_ABS then (if bn < 0 then num_uminus bn else Ok bn)
      else if opcode = OP_NOT then Ok (of_cond (bn = 0))
      else if opcode = OP_0NOTEQUAL then Ok (of_cond (bn \<noteq> 0))
      else Abort)"

definition op_UNARY :: "bool \<Rightarrow> opcodetype \<Rightarrow> valtype list \<Rightarrow> valtype list eval" where
  "op_UNARY minimal opcode st =
     (if length st < 1 then invalid_stack
      else bindO (stacktop st (-1)) (\<lambda>v. bindO (CScriptNum_of_vch v minimal) (\<lambda>bn.
        bindO (unary_num opcode bn) (\<lambda>bn. bindO (popstack st) (\<lambda>st. Ok (st @ [getvch bn]))))))"

definition binary_num :: "opcodetype \<Rightarrow> CScriptNum \<Rightarrow> CScriptNum \<Rightarrow> CScriptNum eval" where
  "binary_num opcode bn1 bn2 =
     (if opcode = OP_ADD then num_plus bn1 bn2
      else if opcode = OP_SUB then num_minus bn1 bn2
      else if opcode = OP_BOOLAND then Ok (of_cond (bn1 \<noteq> 0 \<and> bn2 \<noteq> 0))
      else if opcode = OP_BOOLOR then Ok (of_cond (bn1 \<noteq> 0 \<or> bn2 \<noteq> 0))
      else if opcode = OP_NUMEQUAL then Ok (of_cond (bn1 = bn2))
      else if opcode = OP_NUMEQUALVERIFY then Ok (of_cond (bn1 = bn2))
      else if opcode = OP_NUMNOTEQUAL then Ok (of_cond (bn1 \<noteq> bn2))
      else if opcode = OP_LESSTHAN then Ok (of_cond (bn1 < bn2))
      else if opcode = OP_GREATERTHAN then Ok (of_cond (bn1 > bn2))
      else if opcode = OP_LESSTHANOREQUAL then Ok (of_cond (bn1 \<le> bn2))
      else if opcode = OP_GREATERTHANOREQUAL then Ok (of_cond (bn1 \<ge> bn2))
      else if opcode = OP_MIN then Ok (if bn1 < bn2 then bn1 else bn2)
      else if opcode = OP_MAX then Ok (if bn1 > bn2 then bn1 else bn2)
      else Abort)"

definition op_BINARY :: "bool \<Rightarrow> opcodetype \<Rightarrow> valtype list \<Rightarrow> valtype list eval" where
  "op_BINARY minimal opcode st =
     (if length st < 2 then invalid_stack
      else bindO (stacktop st (-2)) (\<lambda>v1. bindO (CScriptNum_of_vch v1 minimal) (\<lambda>bn1.
        bindO (stacktop st (-1)) (\<lambda>v2. bindO (CScriptNum_of_vch v2 minimal) (\<lambda>bn2.
        bindO (binary_num opcode bn1 bn2) (\<lambda>bn.
        bindO (popstack st) (\<lambda>st. bindO (popstack st) (\<lambda>st.
          let st = st @ [getvch bn] in
          if opcode = OP_NUMEQUALVERIFY
          then bindO (stacktop st (-1)) (\<lambda>vch.
                 if CastToBool vch then popstack st else Fail SCRIPT_ERR_NUMEQUALVERIFY)
          else Ok st))))))))"

definition op_WITHIN :: "bool \<Rightarrow> valtype list \<Rightarrow> valtype list eval" where
  "op_WITHIN minimal st =
     (if length st < 3 then invalid_stack
      else bindO (stacktop st (-3)) (\<lambda>v1. bindO (CScriptNum_of_vch v1 minimal) (\<lambda>bn1.
        bindO (stacktop st (-2)) (\<lambda>v2. bindO (CScriptNum_of_vch v2 minimal) (\<lambda>bn2.
        bindO (stacktop st (-1)) (\<lambda>v3. bindO (CScriptNum_of_vch v3 minimal) (\<lambda>bn3.
        let fValue = (bn2 \<le> bn1 \<and> bn1 < bn3) in
        bindO (popstack st) (\<lambda>st. bindO (popstack st) (\<lambda>st. bindO (popstack st) (\<lambda>st.
          Ok (st @ [if fValue then vchTrue else vchFalse])))))))))))"

section \<open>Hashes and signatures\<close>

text \<open>
  The hashers are created on the spot; their buffers are uninitialised memory, of which the digests
  do not depend. Zeros stand for it here.
\<close>

definition uninit :: "byte list" where "uninit = replicate 64 0"

definition hash_value :: "opcodetype \<Rightarrow> valtype \<Rightarrow> valtype" where
  "hash_value opcode vch =
     (let vchHash = replicate (if opcode = OP_RIPEMD160 \<or> opcode = OP_SHA1 \<or> opcode = OP_HASH160 then 20 else 32) 0
      in if opcode = OP_RIPEMD160 then fst (CRIPEMD160_Finalize (CRIPEMD160_Write (CRIPEMD160 uninit) vch))
         else if opcode = OP_SHA1 then fst (CSHA1_Finalize (CSHA1_Write (CSHA1 uninit) vch))
         else if opcode = OP_SHA256 then fst (CSHA256_Finalize (CSHA256_Write (CSHA256 uninit) vch))
         else if opcode = OP_HASH160 then CHash160_Finalize uninit (CHash160_Write (CSHA256 uninit) vch)
         else if opcode = OP_HASH256 then fst (CHash256_Finalize (CHash256_Write (CSHA256 uninit) vch))
         else vchHash)"

definition op_HASH :: "opcodetype \<Rightarrow> valtype list \<Rightarrow> valtype list eval" where
  "op_HASH opcode st =
     (if length st < 1 then invalid_stack
      else bindO (stacktop st (-1)) (\<lambda>vch.
        bindO (popstack st) (\<lambda>st. Ok (st @ [hash_value opcode vch]))))"

definition op_CHECKSIG :: "script_env \<Rightarrow> bool \<Rightarrow> byte list \<Rightarrow> valtype list \<Rightarrow> valtype list eval" where
  "op_CHECKSIG env verify codehash st =
     (if length st < 2 then invalid_stack
      else bindO (stacktop st (-2)) (\<lambda>vchSig. bindO (stacktop st (-1)) (\<lambda>vchPubKey.
        let scriptCode = snd (FindAndDelete codehash (push_data [] vchSig)) in
        bindO (CheckSignatureEncoding (CheckLowS env) vchSig (flags env)) (\<lambda>_.
        bindO (CheckPubKeyEncoding vchPubKey (flags env)) (\<lambda>_.
        let fSuccess = CheckSig env vchSig vchPubKey scriptCode in
        bindO (popstack st) (\<lambda>st. bindO (popstack st) (\<lambda>st.
          let st = st @ [if fSuccess then vchTrue else vchFalse] in
          if verify then (if fSuccess then popstack st else Fail SCRIPT_ERR_CHECKSIGVERIFY) else Ok st)))))))"

subsection \<open>Multiple signatures\<close>

text \<open>\<open>for (k = 0; k < nSigsCount; k++)\<close>: drop every signature from the script code.\<close>

fun drop_signatures :: "valtype list \<Rightarrow> int \<Rightarrow> nat \<Rightarrow> byte list \<Rightarrow> byte list eval" where
  "drop_signatures st isig 0 scriptCode = Ok scriptCode"
| "drop_signatures st isig (Suc n) scriptCode =
     bindO (stacktop st (- isig)) (\<lambda>vchSig.
       drop_signatures st (isig + 1) n (snd (FindAndDelete scriptCode (push_data [] vchSig))))"

function multisig_loop ::
    "script_env \<Rightarrow> valtype list \<Rightarrow> byte list \<Rightarrow> int \<Rightarrow> int \<Rightarrow> int \<Rightarrow> int \<Rightarrow> bool eval" where
  "multisig_loop env st scriptCode isig ikey nSigsCount nKeysCount =
     (if nSigsCount > 0
      then bindO (stacktop st (- isig)) (\<lambda>vchSig. bindO (stacktop st (- ikey)) (\<lambda>vchPubKey.
        bindO (CheckSignatureEncoding (CheckLowS env) vchSig (flags env)) (\<lambda>_.
        bindO (CheckPubKeyEncoding vchPubKey (flags env)) (\<lambda>_.
        let fOk = CheckSig env vchSig vchPubKey scriptCode;
            (isig, nSigsCount) = (if fOk then (isig + 1, nSigsCount - 1) else (isig, nSigsCount));
            ikey = ikey + 1;
            nKeysCount = nKeysCount - 1
        in if nSigsCount > nKeysCount then Ok False
           else multisig_loop env st scriptCode isig ikey nSigsCount nKeysCount))))
      else Ok True)"
  by pat_completeness auto
termination
  by (relation "measure (\<lambda>(env, st, code, isig, ikey, nSigs, nKeys). nat nKeys + nat nSigs)")
    (auto split: if_splits)

declare multisig_loop.simps [simp del]

text \<open>\<open>while (i-- > 1) popstack(stack)\<close> pops \<open>i - 1\<close> elements.\<close>

fun pop_n :: "nat \<Rightarrow> valtype list \<Rightarrow> valtype list eval" where
  "pop_n 0 st = Ok st"
| "pop_n (Suc n) st = bindO (popstack st) (pop_n n)"

text \<open>The result carries the operation count, which the number of keys is added to.\<close>

definition op_CHECKMULTISIG ::
    "script_env \<Rightarrow> bool \<Rightarrow> byte list \<Rightarrow> int \<Rightarrow> valtype list \<Rightarrow> (int \<times> valtype list) eval" where
  "op_CHECKMULTISIG env verify codehash opcount st =
     (let i = 1 in
      if int (length st) < i then invalid_stack
      else bindO (stacktop st (- i)) (\<lambda>v. bindO (CScriptNum_of_vch v (fRequireMinimal env)) (\<lambda>bn.
      let nKeysCount = getint bn in
      if nKeysCount < 0 \<or> nKeysCount > 20 then Fail SCRIPT_ERR_PUBKEY_COUNT
      else let opcount = opcount + nKeysCount in
      if opcount > 201 then Fail SCRIPT_ERR_OP_COUNT
      else let ikey = i + 1; i = i + 1 + nKeysCount in
      if int (length st) < i then invalid_stack
      else bindO (stacktop st (- i)) (\<lambda>v. bindO (CScriptNum_of_vch v (fRequireMinimal env)) (\<lambda>bn.
      let nSigsCount = getint bn in
      if nSigsCount < 0 \<or> nSigsCount > nKeysCount then Fail SCRIPT_ERR_SIG_COUNT
      else let isig = i + 1; i = i + 1 + nSigsCount in
      if int (length st) < i then invalid_stack
      else bindO (drop_signatures st isig (nat nSigsCount) codehash) (\<lambda>scriptCode.
      bindO (multisig_loop env st scriptCode isig ikey nSigsCount nKeysCount) (\<lambda>fSuccess.
      bindO (pop_n (nat (i - 1)) st) (\<lambda>st.
      if length st < 1 then invalid_stack
      else bindO (stacktop st (-1)) (\<lambda>dummy.
      if flags env AND SCRIPT_VERIFY_NULLDUMMY \<noteq> 0 \<and> length dummy \<noteq> 0 then Fail SCRIPT_ERR_SIG_NULLDUMMY
      else bindO (popstack st) (\<lambda>st.
      let st = st @ [if fSuccess then vchTrue else vchFalse] in
      if verify
      then (if fSuccess then bindO (popstack st) (\<lambda>st. Ok (opcount, st)) else Fail SCRIPT_ERR_CHECKMULTISIGVERIFY)
      else Ok (opcount, st)))))))))))"

section \<open>Control\<close>

definition op_PUSHNUM :: "opcodetype \<Rightarrow> eval_state \<Rightarrow> eval_state eval" where
  "op_PUSHNUM opcode s =
     (let bn = int opcode - (int OP_1 - 1) in Ok (s\<lparr>stack := stack s @ [getvch bn]\<rparr>))"

definition op_NOPn :: "script_env \<Rightarrow> eval_state \<Rightarrow> eval_state eval" where
  "op_NOPn env s =
     (if flags env AND SCRIPT_VERIFY_DISCOURAGE_UPGRADABLE_NOPS \<noteq> 0
      then Fail SCRIPT_ERR_DISCOURAGE_UPGRADABLE_NOPS else Ok s)"

definition op_IF :: "bool \<Rightarrow> opcodetype \<Rightarrow> eval_state \<Rightarrow> eval_state eval" where
  "op_IF fExec opcode s =
     bindO
       (if fExec
        then if length (stack s) < 1 then Fail SCRIPT_ERR_UNBALANCED_CONDITIONAL
             else bindO (stacktop (stack s) (-1)) (\<lambda>vch.
                    let fValue = (if opcode = OP_NOTIF then \<not> CastToBool vch else CastToBool vch)
                    in bindO (popstack (stack s)) (\<lambda>st. Ok (fValue, st)))
        else Ok (False, stack s))
       (\<lambda>(fValue, st). Ok (s\<lparr>stack := st, vfExec := vfExec s @ [fValue]\<rparr>))"

definition op_ELSE :: "eval_state \<Rightarrow> eval_state eval" where
  "op_ELSE s =
     (if vfExec s = [] then Fail SCRIPT_ERR_UNBALANCED_CONDITIONAL
      else Ok (s\<lparr>vfExec := butlast (vfExec s) @ [\<not> last (vfExec s)]\<rparr>))"

definition op_ENDIF :: "eval_state \<Rightarrow> eval_state eval" where
  "op_ENDIF s =
     (if vfExec s = [] then Fail SCRIPT_ERR_UNBALANCED_CONDITIONAL
      else Ok (s\<lparr>vfExec := butlast (vfExec s)\<rparr>))"

definition op_TOALTSTACK :: "eval_state \<Rightarrow> eval_state eval" where
  "op_TOALTSTACK s =
     (if length (stack s) < 1 then invalid_stack
      else bindO (stacktop (stack s) (-1)) (\<lambda>vch. bindO (popstack (stack s)) (\<lambda>st.
        Ok (s\<lparr>stack := st, altstack := altstack s @ [vch]\<rparr>))))"

definition op_FROMALTSTACK :: "eval_state \<Rightarrow> eval_state eval" where
  "op_FROMALTSTACK s =
     (if length (altstack s) < 1 then Fail SCRIPT_ERR_INVALID_ALTSTACK_OPERATION
      else bindO (stacktop (altstack s) (-1)) (\<lambda>vch. bindO (popstack (altstack s)) (\<lambda>alt.
        Ok (s\<lparr>stack := stack s @ [vch], altstack := alt\<rparr>))))"

section \<open>The switch\<close>

text \<open>A handler that only touches the main stack, run on the state.\<close>

definition on_stack :: "(valtype list \<Rightarrow> valtype list eval) \<Rightarrow> eval_state \<Rightarrow> eval_state eval" where
  "on_stack f s = bindO (f (stack s)) (\<lambda>st. Ok (s\<lparr>stack := st\<rparr>))"

text \<open>
  The switch of \<open>EvalScript\<close>, by the sections it has in the source. Each section passes an opcode it
  has no case for to the next one, and the last one is the \<open>default\<close> label.
\<close>

definition crypto_switch :: "script_env \<Rightarrow> opcodetype \<Rightarrow> byte list \<Rightarrow> eval_state \<Rightarrow> eval_state eval" where
  "crypto_switch env opcode pc s =
     (if opcode \<in> set [OP_RIPEMD160, OP_SHA1, OP_SHA256, OP_HASH160, OP_HASH256]
      then on_stack (op_HASH opcode) s
      else if opcode = OP_CODESEPARATOR then Ok (s\<lparr>pbegincodehash := pc\<rparr>)
      else if opcode = OP_CHECKSIG \<or> opcode = OP_CHECKSIGVERIFY
      then on_stack (op_CHECKSIG env (opcode = OP_CHECKSIGVERIFY) (pbegincodehash s)) s
      else if opcode = OP_CHECKMULTISIG \<or> opcode = OP_CHECKMULTISIGVERIFY
      then bindO (op_CHECKMULTISIG env (opcode = OP_CHECKMULTISIGVERIFY) (pbegincodehash s) (nOpCount s) (stack s))
             (\<lambda>(n, st). Ok (s\<lparr>stack := st, nOpCount := n\<rparr>))
      else Fail SCRIPT_ERR_BAD_OPCODE)"

definition numeric_switch :: "script_env \<Rightarrow> opcodetype \<Rightarrow> byte list \<Rightarrow> eval_state \<Rightarrow> eval_state eval" where
  "numeric_switch env opcode pc s =
     (if opcode \<in> set [OP_1ADD, OP_1SUB, OP_NEGATE, OP_ABS, OP_NOT, OP_0NOTEQUAL]
      then on_stack (op_UNARY (fRequireMinimal env) opcode) s
      else if opcode \<in> set [OP_ADD, OP_SUB, OP_BOOLAND, OP_BOOLOR, OP_NUMEQUAL, OP_NUMEQUALVERIFY,
        OP_NUMNOTEQUAL, OP_LESSTHAN, OP_GREATERTHAN, OP_LESSTHANOREQUAL, OP_GREATERTHANOREQUAL, OP_MIN, OP_MAX]
      then on_stack (op_BINARY (fRequireMinimal env) opcode) s
      else if opcode = OP_WITHIN then on_stack (op_WITHIN (fRequireMinimal env)) s
      else crypto_switch env opcode pc s)"

definition stack_switch :: "script_env \<Rightarrow> opcodetype \<Rightarrow> byte list \<Rightarrow> eval_state \<Rightarrow> eval_state eval" where
  "stack_switch env opcode pc s =
     (if opcode = OP_TOALTSTACK then op_TOALTSTACK s
      else if opcode = OP_FROMALTSTACK then op_FROMALTSTACK s
      else if opcode = OP_2DROP then on_stack op_2DROP s
      else if opcode = OP_2DUP then on_stack op_2DUP s
      else if opcode = OP_3DUP then on_stack op_3DUP s
      else if opcode = OP_2OVER then on_stack op_2OVER s
      else if opcode = OP_2ROT then on_stack op_2ROT s
      else if opcode = OP_2SWAP then on_stack op_2SWAP s
      else if opcode = OP_IFDUP then on_stack op_IFDUP s
      else if opcode = OP_DEPTH then on_stack op_DEPTH s
      else if opcode = OP_DROP then on_stack op_DROP s
      else if opcode = OP_DUP then on_stack op_DUP s
      else if opcode = OP_NIP then on_stack op_NIP s
      else if opcode = OP_OVER then on_stack op_OVER s
      else if opcode = OP_PICK \<or> opcode = OP_ROLL
      then on_stack (op_PICK_ROLL (fRequireMinimal env) (opcode = OP_ROLL)) s
      else if opcode = OP_ROT then on_stack op_ROT s
      else if opcode = OP_SWAP then on_stack op_SWAP s
      else if opcode = OP_TUCK then on_stack op_TUCK s
      else if opcode = OP_SIZE then on_stack op_SIZE s
      else if opcode = OP_EQUAL \<or> opcode = OP_EQUALVERIFY then on_stack (op_EQUAL (opcode = OP_EQUALVERIFY)) s
      else numeric_switch env opcode pc s)"

definition exec_switch ::
    "script_env \<Rightarrow> bool \<Rightarrow> opcodetype \<Rightarrow> byte list \<Rightarrow> eval_state \<Rightarrow> eval_state eval" where
  "exec_switch env fExec opcode pc s =
     (if opcode = OP_1NEGATE \<or> OP_1 \<le> opcode \<and> opcode \<le> OP_16 then op_PUSHNUM opcode s
      else if opcode = OP_NOP then Ok s
      else if opcode \<in> set [OP_NOP1, OP_NOP2, OP_NOP3, OP_NOP4, OP_NOP5, OP_NOP6, OP_NOP7, OP_NOP8, OP_NOP9, OP_NOP10]
      then op_NOPn env s
      else if opcode = OP_IF \<or> opcode = OP_NOTIF then op_IF fExec opcode s
      else if opcode = OP_ELSE then op_ELSE s
      else if opcode = OP_ENDIF then op_ENDIF s
      else if opcode = OP_VERIFY then on_stack op_VERIFY s
      else if opcode = OP_RETURN then Fail SCRIPT_ERR_OP_RETURN
      else stack_switch env opcode pc s)"

section \<open>The interpreter\<close>

definition disabled_opcodes :: "opcodetype list" where
  "disabled_opcodes =
     [OP_CAT, OP_SUBSTR, OP_LEFT, OP_RIGHT, OP_INVERT, OP_AND, OP_OR, OP_XOR, OP_2MUL, OP_2DIV,
      OP_MUL, OP_DIV, OP_MOD, OP_LSHIFT, OP_RSHIFT]"

text \<open>One iteration of the loop, after the instruction has been read; \<open>pc\<close> is the iterator behind it.\<close>

definition exec_instr ::
    "script_env \<Rightarrow> opcodetype \<Rightarrow> valtype \<Rightarrow> byte list \<Rightarrow> eval_state \<Rightarrow> eval_state eval" where
  "exec_instr env opcode vchPushValue pc s =
     (let fExec = (count_list (vfExec s) False = 0) in
      if length vchPushValue > MAX_SCRIPT_ELEMENT_SIZE then Fail SCRIPT_ERR_PUSH_SIZE
      else let s = (if opcode > OP_16 then s\<lparr>nOpCount := nOpCount s + 1\<rparr> else s) in
      if opcode > OP_16 \<and> nOpCount s > 201 then Fail SCRIPT_ERR_OP_COUNT
      else if opcode \<in> set disabled_opcodes then Fail SCRIPT_ERR_DISABLED_OPCODE
      else bindO
        (if fExec \<and> opcode \<le> OP_PUSHDATA4
         then if fRequireMinimal env \<and> \<not> CheckMinimalPush vchPushValue opcode then Fail SCRIPT_ERR_MINIMALDATA
              else Ok (s\<lparr>stack := stack s @ [vchPushValue]\<rparr>)
         else if fExec \<or> OP_IF \<le> opcode \<and> opcode \<le> OP_ENDIF then exec_switch env fExec opcode pc s
         else Ok s)
        (\<lambda>s. if length (stack s) + length (altstack s) > 1000 then Fail SCRIPT_ERR_STACK_SIZE else Ok s))"

function eval_loop :: "script_env \<Rightarrow> byte list \<Rightarrow> eval_state \<Rightarrow> eval_state eval" where
  "eval_loop env pc s =
     (if pc = [] then Ok s
      else let (ok, opcode, vchPushValue, pc') = GetOp2 pc
           in if \<not> ok then Fail SCRIPT_ERR_BAD_OPCODE
              else bindO (exec_instr env opcode vchPushValue pc' s) (eval_loop env pc'))"
  by pat_completeness auto
termination
  by (relation "measure (\<lambda>(env, pc, s). length pc)") (auto dest: GetOp2_decreases [OF sym])

declare eval_loop.simps [simp del]

definition initial_state :: "valtype list \<Rightarrow> byte list \<Rightarrow> eval_state" where
  "initial_state st script =
     \<lparr>stack = st, altstack = [], vfExec = [], nOpCount = 0, pbegincodehash = script\<rparr>"

text \<open>\<open>catch (...)\<close>: every exception becomes an unknown error.\<close>

fun catch_all :: "'a eval \<Rightarrow> 'a eval" where
  "catch_all (Throw x) = Fail SCRIPT_ERR_UNKNOWN_ERROR"
| "catch_all r = r"

definition EvalScript :: "script_env \<Rightarrow> valtype list \<Rightarrow> byte list \<Rightarrow> valtype list eval" where
  "EvalScript env st script =
     (if length script > 10000 then Fail SCRIPT_ERR_SCRIPT_SIZE
      else bindO (catch_all (eval_loop env script (initial_state st script))) (\<lambda>s.
        if vfExec s \<noteq> [] then Fail SCRIPT_ERR_UNBALANCED_CONDITIONAL else Ok (stack s)))"

definition VerifyScript :: "script_env \<Rightarrow> byte list \<Rightarrow> byte list \<Rightarrow> unit eval" where
  "VerifyScript env scriptSig scriptPubKey =
     (if flags env AND SCRIPT_VERIFY_SIGPUSHONLY \<noteq> 0 \<and> \<not> IsPushOnly scriptSig then Fail SCRIPT_ERR_SIG_PUSHONLY
      else bindO (EvalScript env [] scriptSig) (\<lambda>st.
      let stackCopy = (if flags env AND SCRIPT_VERIFY_P2SH \<noteq> 0 then st else []) in
      bindO (EvalScript env st scriptPubKey) (\<lambda>st.
      if st = [] then Fail SCRIPT_ERR_EVAL_FALSE
      else if CastToBool (last st) = False then Fail SCRIPT_ERR_EVAL_FALSE
      else if flags env AND SCRIPT_VERIFY_P2SH \<noteq> 0 \<and> IsPayToScriptHash scriptPubKey
      then if \<not> IsPushOnly scriptSig then Fail SCRIPT_ERR_SIG_PUSHONLY
           else if stackCopy = [] then Abort
           else let pubKey2 = last stackCopy in
             bindO (popstack stackCopy) (\<lambda>stackCopy.
             bindO (EvalScript env stackCopy pubKey2) (\<lambda>stackCopy.
               if stackCopy = [] then Fail SCRIPT_ERR_EVAL_FALSE
               else if \<not> CastToBool (last stackCopy) then Fail SCRIPT_ERR_EVAL_FALSE
               else Ok ()))
      else Ok ())))"

end
