(* ===== verification/StackOps.thy ===== *)
theory StackOps
  imports Interpreter
begin

text \<open>
  What the handlers of the interpreter do to the stack, written top first. The comments of the
  source give each operation's effect as \<open>(x1 x2 -- x2 x1)\<close>; \<open>stack_effect\<close> is that notation as a
  function, and the lemmas show that the vector code of \<open>EvalScript\<close> computes it, for every stack
  that is too short included.
\<close>

section \<open>The vector read from its end\<close>

lemma top_index: "k < n \<Longrightarrow> nat (int n + - int (Suc k)) = n - Suc k"
  by linarith

lemma numeral_le_iff: "numeral n \<le> (l :: nat) \<longleftrightarrow> pred_numeral n < l"
  by (simp add: numeral_eq_Suc Suc_le_eq)

lemma stacktop_rev_Suc: "k < length r \<Longrightarrow> stacktop (rev r) (- int (Suc k)) = Ok (r ! k)"
  unfolding stacktop_def Let_def by (simp only: length_rev top_index) (auto simp: rev_nth)

lemma stacktop_rev:
  "r \<noteq> [] \<Longrightarrow> stacktop (rev r) (-1) = Ok (r ! 0)"
  "numeral n \<le> length r \<Longrightarrow> stacktop (rev r) (- numeral n) = Ok (r ! pred_numeral n)"
  using stacktop_rev_Suc [of 0 r] stacktop_rev_Suc [of "pred_numeral n" r]
  by (simp_all add: numeral_le_iff flip: numeral_eq_Suc)

lemma stacktop_last: "xs \<noteq> [] \<Longrightarrow> stacktop xs (-1) = Ok (last xs)"
  by (cases xs rule: rev_cases) (simp_all add: stacktop_def)

lemma popstack_rev: "popstack (rev r) = (case r of [] \<Rightarrow> Throw runtime_error | _ # r \<Rightarrow> Ok (rev r))"
  by (simp add: popstack_def split: list.split)

lemma swap_top_rev_Suc:
  "i < length r \<Longrightarrow> j < length r \<Longrightarrow>
   swap_top (rev r) (- int (Suc i)) (- int (Suc j)) = Ok (rev ((r[i := r ! j])[j := r ! i]))"
  unfolding swap_top_def
  by (simp only: stacktop_rev_Suc bindO.simps length_rev top_index) (simp add: rev_update)

lemma swap_top_rev:
  "numeral i \<le> length r \<Longrightarrow>
   swap_top (rev r) (- numeral i) (-1) = Ok (rev ((r[pred_numeral i := r ! 0])[0 := r ! pred_numeral i]))"
  "numeral i \<le> length r \<Longrightarrow> numeral j \<le> length r \<Longrightarrow>
   swap_top (rev r) (- numeral i) (- numeral j) =
     Ok (rev ((r[pred_numeral i := r ! pred_numeral j])[pred_numeral j := r ! pred_numeral i]))"
  using swap_top_rev_Suc [of "pred_numeral i" r 0] swap_top_rev_Suc [of "pred_numeral i" r "pred_numeral j"]
  by (cases r; simp add: numeral_le_iff flip: numeral_eq_Suc)+

lemma erase_top_rev: "b \<le> a \<Longrightarrow> a \<le> length r \<Longrightarrow> erase_top (rev r) a b = Ok (rev (take b r @ drop a r))"
  by (simp add: erase_top_def take_rev drop_rev)

lemma insert_top_rev: "a \<le> length r \<Longrightarrow> insert_top (rev r) a x = Ok (rev (take a r @ [x] @ drop a r))"
  by (simp add: insert_top_def take_rev drop_rev)

lemma rev_snoc: "rev r @ [x] = rev (x # r)" by simp

lemma stacktop_snoc [simp]:
  "stacktop (st @ [x]) (-1) = Ok x" "stacktop (st @ [y, x]) (-1) = Ok x" "stacktop (st @ [z, y, x]) (-1) = Ok x"
  "stacktop (st @ [y, x]) (-2) = Ok y" "stacktop (st @ [z, y, x]) (-2) = Ok y" "stacktop (st @ [z, y, x]) (-3) = Ok z"
  using stacktop_rev(2) [of "num.Bit0 num.One" "[x, y] @ rev st"] stacktop_rev(2) [of "num.Bit0 num.One" "[x, y, z] @ rev st"]
    stacktop_rev(2) [of "num.Bit1 num.One" "[x, y, z] @ rev st"]
  by (simp_all add: stacktop_last)

lemma popstack_snoc [simp]: "popstack (st @ [x]) = Ok st" "popstack (st @ [y, x]) = Ok (st @ [y])"
  "popstack (st @ [z, y, x]) = Ok (st @ [z, y])"
  by (simp_all add: popstack_def butlast_append)

lemma popstack_Nil [simp]: "popstack [] = Throw runtime_error"
  by (simp add: popstack_def)

text \<open>The shapes a stack can have for an operation on two and on three elements.\<close>

lemma two_cases:
  obtains (short) "length st < 2" | (two) st' y x where "st = st' @ [y, x]"
  by (cases st rule: rev_cases; cases "butlast st" rule: rev_cases) (auto simp: not_less_eq_eq)

lemma three_cases:
  obtains (short) "length st < 3" | (three) st' z y x where "st = st' @ [z, y, x]"
proof (cases st rule: two_cases)
  case (two st' y x)
  then show ?thesis using that by (cases st' rule: rev_cases) auto
qed (use that(1) in simp)

lemmas top_simps = stacktop_rev stacktop_last popstack_rev swap_top_rev erase_top_rev insert_top_rev

section \<open>Documented stack effects\<close>

fun stack_effect :: "opcodetype \<Rightarrow> valtype list \<Rightarrow> valtype list option" where
  "stack_effect opcode r =
     (if opcode = OP_2DROP then (case r of b # a # r \<Rightarrow> Some r | _ \<Rightarrow> None)
      else if opcode = OP_2DUP then (case r of b # a # r \<Rightarrow> Some (b # a # b # a # r) | _ \<Rightarrow> None)
      else if opcode = OP_3DUP
      then (case r of c # b # a # r \<Rightarrow> Some (c # b # a # c # b # a # r) | _ \<Rightarrow> None)
      else if opcode = OP_2OVER
      then (case r of d # c # b # a # r \<Rightarrow> Some (b # a # d # c # b # a # r) | _ \<Rightarrow> None)
      else if opcode = OP_2ROT
      then (case r of f # e # d # c # b # a # r \<Rightarrow> Some (b # a # f # e # d # c # r) | _ \<Rightarrow> None)
      else if opcode = OP_2SWAP
      then (case r of d # c # b # a # r \<Rightarrow> Some (b # a # d # c # r) | _ \<Rightarrow> None)
      else if opcode = OP_IFDUP then (case r of a # r \<Rightarrow> Some (if CastToBool a then a # a # r else a # r) | _ \<Rightarrow> None)
      else if opcode = OP_DEPTH then Some (getvch (int (length r)) # r)
      else if opcode = OP_DROP then (case r of a # r \<Rightarrow> Some r | _ \<Rightarrow> None)
      else if opcode = OP_DUP then (case r of a # r \<Rightarrow> Some (a # a # r) | _ \<Rightarrow> None)
      else if opcode = OP_NIP then (case r of b # a # r \<Rightarrow> Some (b # r) | _ \<Rightarrow> None)
      else if opcode = OP_OVER then (case r of b # a # r \<Rightarrow> Some (a # b # a # r) | _ \<Rightarrow> None)
      else if opcode = OP_ROT then (case r of c # b # a # r \<Rightarrow> Some (a # c # b # r) | _ \<Rightarrow> None)
      else if opcode = OP_SWAP then (case r of b # a # r \<Rightarrow> Some (a # b # r) | _ \<Rightarrow> None)
      else if opcode = OP_TUCK then (case r of b # a # r \<Rightarrow> Some (b # a # b # r) | _ \<Rightarrow> None)
      else if opcode = OP_SIZE then (case r of a # r \<Rightarrow> Some (getvch (int (length a)) # a # r) | _ \<Rightarrow> None)
      else None)"

declare stack_effect.simps [simp del]

definition stack_words :: "opcodetype list" where
  "stack_words =
     [OP_TOALTSTACK, OP_FROMALTSTACK, OP_2DROP, OP_2DUP, OP_3DUP, OP_2OVER, OP_2ROT, OP_2SWAP, OP_IFDUP, OP_DEPTH,
      OP_DROP, OP_DUP, OP_NIP, OP_OVER, OP_PICK, OP_ROLL, OP_ROT, OP_SWAP, OP_TUCK, OP_SIZE]"

definition implements :: "(valtype list \<Rightarrow> valtype list eval) \<Rightarrow> (valtype list \<Rightarrow> valtype list option) \<Rightarrow> bool" where
  "implements f e \<longleftrightarrow> (\<forall>r. f (rev r) = (case e r of Some r' \<Rightarrow> Ok (rev r') | None \<Rightarrow> invalid_stack))"

lemma implements_words:
  "implements op_2DROP (stack_effect OP_2DROP)" "implements op_2DUP (stack_effect OP_2DUP)"
  "implements op_3DUP (stack_effect OP_3DUP)" "implements op_2OVER (stack_effect OP_2OVER)"
  "implements op_2ROT (stack_effect OP_2ROT)" "implements op_2SWAP (stack_effect OP_2SWAP)"
  "implements op_IFDUP (stack_effect OP_IFDUP)" "implements op_DEPTH (stack_effect OP_DEPTH)"
  "implements op_DROP (stack_effect OP_DROP)" "implements op_DUP (stack_effect OP_DUP)"
  "implements op_NIP (stack_effect OP_NIP)" "implements op_OVER (stack_effect OP_OVER)"
  "implements op_ROT (stack_effect OP_ROT)" "implements op_SWAP (stack_effect OP_SWAP)"
  "implements op_TUCK (stack_effect OP_TUCK)" "implements op_SIZE (stack_effect OP_SIZE)"
  by (simp_all add: implements_def stack_effect.simps top_simps
        op_2DROP_def op_2DUP_def op_3DUP_def op_2OVER_def op_2ROT_def op_2SWAP_def op_IFDUP_def op_DEPTH_def
        op_DROP_def op_DUP_def op_NIP_def op_OVER_def op_ROT_def op_SWAP_def op_TUCK_def op_SIZE_def
        split: list.split)

lemma implements_on_stack:
  assumes "implements f e" "m = on_stack f s"
  shows "m = (case e (rev (stack s)) of Some r \<Rightarrow> Ok (s\<lparr>stack := rev r\<rparr>) | None \<Rightarrow> invalid_stack)"
  using assms(1) [unfolded implements_def, rule_format, of "rev (stack s)"] assms(2)
  by (simp add: on_stack_def split: option.split)

text \<open>
  The words that take their operand from the stack or move between the two stacks: \<open>OP_PICK\<close> and \<open>OP_ROLL\<close>
  pop a number \<open>n\<close> and copy or move the element \<open>n\<close> places below the top. Both stacks are written top first.
\<close>

fun pick_effect :: "bool \<Rightarrow> bool \<Rightarrow> valtype list \<Rightarrow> valtype list eval" where
  "pick_effect minimal roll (v # x # r) =
     bindO (CScriptNum_of_vch v minimal) (\<lambda>n.
       if 0 \<le> n \<and> n < int (length (x # r))
       then let e = (x # r) ! nat n
            in Ok (e # (if roll then take (nat n) (x # r) @ drop (Suc (nat n)) (x # r) else x # r))
       else invalid_stack)"
| "pick_effect minimal roll _ = invalid_stack"

definition state_effect ::
    "bool \<Rightarrow> opcodetype \<Rightarrow> valtype list \<Rightarrow> valtype list \<Rightarrow> (valtype list \<times> valtype list) eval" where
  "state_effect minimal opcode r alt =
     (if opcode = OP_TOALTSTACK then (case r of [] \<Rightarrow> invalid_stack | x # r \<Rightarrow> Ok (r, x # alt))
      else if opcode = OP_FROMALTSTACK
      then (case alt of [] \<Rightarrow> Fail SCRIPT_ERR_INVALID_ALTSTACK_OPERATION | x # alt \<Rightarrow> Ok (x # r, alt))
      else if opcode = OP_PICK \<or> opcode = OP_ROLL
      then bindO (pick_effect minimal (opcode = OP_ROLL) r) (\<lambda>r. Ok (r, alt))
      else (case stack_effect opcode r of None \<Rightarrow> invalid_stack | Some r \<Rightarrow> Ok (r, alt)))"

lemma op_PICK_ROLL_effect: "op_PICK_ROLL minimal roll (rev r) = bindO (pick_effect minimal roll r) (\<lambda>r. Ok (rev r))"
proof (cases "\<exists>v x r'. r = v # x # r'")
  case True
  then obtain v x r' where r: "r = v # x # r'" by blast
  define q where "q = x # r'"
  define f where "f n = (let n = getint n in bindO (popstack (rev r)) (\<lambda>st.
      if n < 0 \<or> n \<ge> int (length st) then invalid_stack
      else bindO (stacktop st (- n - 1)) (\<lambda>vch.
        bindO (if roll then erase_top st (nat n + 1) (nat n) else Ok st) (\<lambda>st. Ok (st @ [vch])))))" for n
  define g where "g n = (if 0 \<le> n \<and> n < int (length q)
      then let e = q ! nat n in Ok (e # (if roll then take (nat n) q @ drop (Suc (nat n)) q else q))
      else invalid_stack)" for n
  have pop: "popstack (rev r) = Ok (rev q)" using popstack_rev [of r] by (simp add: r q_def)
  have fg: "f n = bindO (g n) (\<lambda>r. Ok (rev r))" if "\<bar>n\<bar> < 2 ^ 31" for n
  proof (cases "0 \<le> n \<and> n < int (length q)")
    case True
    have n: "- n - 1 = - int (Suc (nat n))" using True by simp
    have "nat n < length q" using True by (simp add: nat_less_iff)
    then have "stacktop (rev q) (- n - 1) = Ok (q ! nat n)" unfolding n by (rule stacktop_rev_Suc)
    moreover have "erase_top (rev q) (nat n + 1) (nat n) = Ok (rev (take (nat n) q @ drop (Suc (nat n)) q))"
      using True by (subst erase_top_rev) auto
    ultimately show ?thesis using True pop getint_small [OF that] by (simp add: f_def g_def Let_def)
  next
    case False
    then show ?thesis using pop getint_small [OF that] by (auto simp: f_def g_def Let_def)
  qed
  have "stacktop (rev r) (-1) = Ok v" using stacktop_rev(1) [of r] r by simp
  then have "op_PICK_ROLL minimal roll (rev r) = bindO (CScriptNum_of_vch v minimal) f"
    using r by (simp add: op_PICK_ROLL_def f_def [abs_def])
  moreover have "pick_effect minimal roll r = bindO (CScriptNum_of_vch v minimal) g"
    unfolding r g_def [abs_def] q_def by simp
  moreover have "outcome_all (\<lambda>n. \<bar>n\<bar> < 2 ^ 31) (CScriptNum_of_vch v minimal :: CScriptNum eval)"
    by (rule CScriptNum_of_vch_outcome)
  ultimately show ?thesis
    using fg by (cases "CScriptNum_of_vch v minimal :: CScriptNum eval") simp_all
next
  case False
  then show ?thesis by (cases r; cases "tl r") (auto simp: op_PICK_ROLL_def)
qed

lemma state_effect_word:
  assumes "m = (case stack_effect opcode (rev (stack s)) of Some r \<Rightarrow> Ok (s\<lparr>stack := rev r\<rparr>) | None \<Rightarrow> invalid_stack)"
    "opcode \<notin> {OP_TOALTSTACK, OP_FROMALTSTACK, OP_PICK, OP_ROLL}"
  shows "m = bindO (state_effect minimal opcode (rev (stack s)) (rev (altstack s))) (\<lambda>(r, alt).
    Ok (s\<lparr>stack := rev r, altstack := rev alt\<rparr>))"
  using assms by (cases s) (simp add: state_effect_def split: option.split)

lemma moving_words:
  "exec_switch env fExec OP_TOALTSTACK pc s = op_TOALTSTACK s"
  "exec_switch env fExec OP_FROMALTSTACK pc s = op_FROMALTSTACK s"
  "exec_switch env fExec OP_PICK pc s = on_stack (op_PICK_ROLL (fRequireMinimal env) False) s"
  "exec_switch env fExec OP_ROLL pc s = on_stack (op_PICK_ROLL (fRequireMinimal env) True) s"
  by (simp_all add: exec_switch_def stack_switch_def)

lemma moving_words_effect:
  assumes "opcode \<in> {OP_TOALTSTACK, OP_FROMALTSTACK, OP_PICK, OP_ROLL}"
  shows "exec_switch env fExec opcode pc s =
    bindO (state_effect (fRequireMinimal env) opcode (rev (stack s)) (rev (altstack s))) (\<lambda>(r, alt).
      Ok (s\<lparr>stack := rev r, altstack := rev alt\<rparr>))"
proof -
  have "on_stack (op_PICK_ROLL minimal roll) s = bindO (pick_effect minimal roll (rev (stack s))) (\<lambda>r. Ok (s\<lparr>stack := rev r\<rparr>))"
    for minimal roll
    using op_PICK_ROLL_effect [of minimal roll "rev (stack s)"] by (simp add: on_stack_def bindO_assoc)
  moreover have "op_TOALTSTACK s = (case rev (stack s) of [] \<Rightarrow> invalid_stack
      | x # r \<Rightarrow> Ok (s\<lparr>stack := rev r, altstack := altstack s @ [x]\<rparr>))"
    by (cases "stack s" rule: rev_cases) (simp_all add: op_TOALTSTACK_def)
  moreover have "op_FROMALTSTACK s = (case rev (altstack s) of [] \<Rightarrow> Fail SCRIPT_ERR_INVALID_ALTSTACK_OPERATION
      | x # r \<Rightarrow> Ok (s\<lparr>stack := stack s @ [x], altstack := rev r\<rparr>))"
    by (cases "altstack s" rule: rev_cases) (simp_all add: op_FROMALTSTACK_def)
  ultimately show ?thesis
    using assms by (elim insertE emptyE; hypsubst)
      (simp_all add: moving_words state_effect_def bindO_assoc split: list.split)
qed

text \<open>
  C9: the stack operations of \<open>EvalScript\<close> (\<open>OP_TOALTSTACK\<close> to \<open>OP_TUCK\<close>, and \<open>OP_SIZE\<close>), which index, swap, erase
  and insert at the end of a vector, do exactly what their comments document, \<open>OP_PICK\<close>, \<open>OP_ROLL\<close> and
  the alternative stack included: with enough elements both stacks are the documented ones and nothing
  else of the state changes; with too few, or an index outside the stack, the script fails with the
  stack error of the operation; an index that is not a number of at most four bytes raises \<open>scriptnum_error\<close>.
\<close>

theorem stack_words_refine:
  assumes "opcode \<in> set stack_words"
  shows "exec_switch env fExec opcode pc s =
    bindO (state_effect (fRequireMinimal env) opcode (rev (stack s)) (rev (altstack s))) (\<lambda>(r, alt).
      Ok (s\<lparr>stack := rev r, altstack := rev alt\<rparr>))"
proof (cases "opcode \<in> {OP_TOALTSTACK, OP_FROMALTSTACK, OP_PICK, OP_ROLL}")
  case False
  with assms have "opcode \<in> set [OP_2DROP, OP_2DUP, OP_3DUP, OP_2OVER, OP_2ROT, OP_2SWAP, OP_IFDUP, OP_DEPTH, OP_DROP,
      OP_DUP, OP_NIP, OP_OVER, OP_ROT, OP_SWAP, OP_TUCK, OP_SIZE]" by (auto simp: stack_words_def)
  then show ?thesis
    unfolding list.set insert_iff empty_iff
    by - ((elim disjE FalseE);
      (hypsubst, rule state_effect_word, rule implements_on_stack, rule implements_words,
        simp add: exec_switch_def stack_switch_def, simp))
qed (rule moving_words_effect)

theorem stack_words_refine_witness:
  "exec_switch \<lparr>flags = 0, CheckSig = \<lambda>_ _ _. True, CheckLowS = \<lambda>_. True\<rparr> True OP_2ROT []
     (initial_state [[1], [2], [3], [4], [5], [6]] []) =
   Ok (initial_state [[3], [4], [5], [6], [1], [2]] [])"
  using stack_words_refine [of OP_2ROT "\<lparr>flags = 0, CheckSig = \<lambda>_ _ _. True, CheckLowS = \<lambda>_. True\<rparr>" True "[]"
      "initial_state [[1], [2], [3], [4], [5], [6]] []"]
  by (simp add: stack_words_def stack_effect.simps state_effect_def initial_state_def)

end
