(* ===== verification/Multisig.thy ===== *)
theory Multisig
  imports StackOps
begin

text \<open>
  \<open>OP_CHECKMULTISIG\<close>: the index arithmetic of the handler is replaced by lists of signatures and of
  keys, both top first, and the greedy matching loop is shown to accept exactly the signature lists
  that can be assigned to keys in the keys' order.
\<close>

section \<open>The loop on lists\<close>

definition sig_key_encoding :: "script_env \<Rightarrow> valtype \<Rightarrow> valtype \<Rightarrow> unit eval" where
  "sig_key_encoding env sig key =
     bindO (CheckSignatureEncoding (CheckLowS env) sig (flags env)) (\<lambda>_. CheckPubKeyEncoding key (flags env))"

fun multisig_match :: "script_env \<Rightarrow> byte list \<Rightarrow> valtype list \<Rightarrow> valtype list \<Rightarrow> bool eval" where
  "multisig_match env code [] keys = Ok True"
| "multisig_match env code (sig # sigs) [] = Ok False"
| "multisig_match env code (sig # sigs) (key # keys) =
     bindO (sig_key_encoding env sig key) (\<lambda>_.
       let rest = (if CheckSig env sig key code then sigs else sig # sigs)
       in if length rest > length keys then Ok False else multisig_match env code rest keys)"

lemma bindO_cong: "m = m' \<Longrightarrow> (\<And>x. m' = Ok x \<Longrightarrow> f x = g x) \<Longrightarrow> bindO m f = bindO m' g"
  by (cases m') auto

lemma take_drop_Suc: "i < length r \<Longrightarrow> take (Suc n) (drop i r) = r ! i # take n (drop (Suc i) r)"
  by (simp flip: Cons_nth_drop_Suc)

lemma multisig_loop_lists:
  assumes "i + m \<le> length r" "j + n \<le> length r" "m \<le> n"
  shows "multisig_loop env (rev r) code (int (Suc i)) (int (Suc j)) (int m) (int n) =
    multisig_match env code (take m (drop i r)) (take n (drop j r))"
  using assms
proof (induction n arbitrary: i j m)
  case 0
  then show ?case by (simp add: multisig_loop.simps)
next
  case (Suc n)
  show ?case
  proof (cases m)
    case 0
    then show ?thesis by (simp add: multisig_loop.simps)
  next
    case (Suc m')
    have tops: "stacktop (rev r) (- int (Suc i)) = Ok (r ! i)" "stacktop (rev r) (- int (Suc j)) = Ok (r ! j)"
      using Suc Suc.prems by (simp_all only: stacktop_rev_Suc)
    have lists: "take m (drop i r) = r ! i # take m' (drop (Suc i) r)"
      "take (Suc n) (drop j r) = r ! j # take n (drop (Suc j) r)"
      using Suc Suc.prems by (auto simp: take_drop_Suc)
    have len: "length (take m' (drop (Suc i) r)) = m'" "length (take n (drop (Suc j) r)) = n"
      using Suc Suc.prems by auto
    have IH1: "multisig_loop env (rev r) code (int (Suc i) + 1) (int (Suc j) + 1) (int m') (int n) =
        multisig_match env code (take m' (drop (Suc i) r)) (take n (drop (Suc j) r))" if "m' \<le> n"
      using Suc.IH [of "Suc i" m' "Suc j"] Suc Suc.prems that by (simp add: add.commute)
    have IH2: "multisig_loop env (rev r) code (int (Suc i)) (int (Suc j) + 1) (int m) (int n) =
        multisig_match env code (take m (drop i r)) (take n (drop (Suc j) r))" if "m \<le> n"
      using Suc.IH [of i m "Suc j"] Suc Suc.prems that by (simp add: add.commute)
    show ?thesis
      unfolding multisig_loop.simps [of env "rev r" code "int (Suc i)"] tops lists multisig_match.simps
        sig_key_encoding_def bindO_assoc bindO.simps
      using Suc Suc.prems IH1 IH2 lists len
      by (auto simp: Let_def intro!: bindO_cong)
  qed
qed

section \<open>The handler on lists\<close>

definition delete_sig :: "byte list \<Rightarrow> valtype \<Rightarrow> byte list" where
  "delete_sig code sig = snd (FindAndDelete code (push_data [] sig))"

lemma drop_signatures_lists:
  "i + m \<le> length r \<Longrightarrow>
   drop_signatures (rev r) (int (Suc i)) m code = Ok (foldl delete_sig code (take m (drop i r)))"
proof (induction m arbitrary: i code)
  case (Suc m)
  have "stacktop (rev r) (- int (Suc i)) = Ok (r ! i)" using Suc.prems by (intro stacktop_rev_Suc) simp
  moreover have "take (Suc m) (drop i r) = r ! i # take m (drop (Suc i) r)"
    using Suc.prems by (intro take_drop_Suc) simp
  ultimately show ?case
    using Suc.IH [of "Suc i" "delete_sig code (r ! i)"] Suc.prems
    by (simp add: delete_sig_def add.commute)
qed simp

lemma pop_n_rev: "n \<le> length r \<Longrightarrow> pop_n n (rev r) = Ok (rev (drop n r))"
proof (induction n arbitrary: r)
  case (Suc n)
  then show ?case by (cases r) simp_all
qed simp

text \<open>The handler after the counts have been read: \<open>r3\<close> is the stack below the arguments.\<close>

definition multisig_finish :: "script_env \<Rightarrow> bool \<Rightarrow> int \<Rightarrow> valtype list \<Rightarrow> bool \<Rightarrow> (int \<times> valtype list) eval" where
  "multisig_finish env verify opcount r3 fSuccess =
     (case r3 of [] \<Rightarrow> invalid_stack
      | dummy # r4 \<Rightarrow>
        if flags env AND SCRIPT_VERIFY_NULLDUMMY \<noteq> 0 \<and> dummy \<noteq> [] then Fail SCRIPT_ERR_SIG_NULLDUMMY
        else if verify then if fSuccess then Ok (opcount, rev r4) else Fail SCRIPT_ERR_CHECKMULTISIGVERIFY
        else Ok (opcount, rev ((if fSuccess then vchTrue else vchFalse) # r4)))"

definition multisig_spec ::
    "script_env \<Rightarrow> bool \<Rightarrow> byte list \<Rightarrow> int \<Rightarrow> valtype list \<Rightarrow> (int \<times> valtype list) eval" where
  "multisig_spec env verify code opcount r =
     (case r of [] \<Rightarrow> invalid_stack
      | vn # r1 \<Rightarrow> bindO (CScriptNum_of_vch vn (fRequireMinimal env)) (\<lambda>n.
        if n < 0 \<or> n > 20 then Fail SCRIPT_ERR_PUBKEY_COUNT
        else if opcount + n > 201 then Fail SCRIPT_ERR_OP_COUNT
        else if length r1 < Suc (nat n) then invalid_stack
        else bindO (CScriptNum_of_vch (r1 ! nat n) (fRequireMinimal env)) (\<lambda>m.
          if m < 0 \<or> m > n then Fail SCRIPT_ERR_SIG_COUNT
          else let keys = take (nat n) r1; r2 = drop (Suc (nat n)) r1; sigs = take (nat m) r2 in
          if length r2 < Suc (nat m) then invalid_stack
          else bindO (multisig_match env (foldl delete_sig code sigs) sigs keys)
                 (multisig_finish env verify (opcount + n) (drop (nat m) r2)))))"

lemma multisig_finish_code:
  "(if length (rev r3) < 1 then invalid_stack
    else bindO (stacktop (rev r3) (-1)) (\<lambda>dummy.
      if flags env AND SCRIPT_VERIFY_NULLDUMMY \<noteq> 0 \<and> length dummy \<noteq> 0 then Fail SCRIPT_ERR_SIG_NULLDUMMY
      else bindO (popstack (rev r3)) (\<lambda>st.
        let st = st @ [if fSuccess then vchTrue else vchFalse] in
        if verify
        then (if fSuccess then bindO (popstack st) (\<lambda>st. Ok (opcount, st)) else Fail SCRIPT_ERR_CHECKMULTISIGVERIFY)
        else Ok (opcount, st)))) =
   multisig_finish env verify opcount r3 fSuccess"
  by (cases r3) (simp_all add: multisig_finish_def Let_def)

lemma bindO_Ok: "m = Ok x \<Longrightarrow> bindO m f = f x" by simp

lemma CHECKMULTISIG_tail:
  assumes n: "0 \<le> n" "n \<le> 20" and r1: "Suc (nat n) \<le> length r1" and m: "0 \<le> m" "m \<le> n"
    and len: "nat m \<le> length r1 - Suc (nat n)"
  defines "r2 \<equiv> drop (Suc (nat n)) r1"
  shows "bindO (drop_signatures (rev (vn # r1)) (n + 3) (nat m) code) (\<lambda>scriptCode.
      bindO (multisig_loop env (rev (vn # r1)) scriptCode (n + 3) 2 m n) (\<lambda>fSuccess.
      bindO (pop_n (nat (n + 2 + m)) (rev (vn # r1))) (f fSuccess))) =
    bindO (multisig_match env (foldl delete_sig code (take (nat m) r2)) (take (nat m) r2) (take (nat n) r1))
      (\<lambda>fSuccess. f fSuccess (rev (drop (nat m) r2)))"
proof -
  have i: "n + 3 = int (Suc (Suc (Suc (nat n))))" "(2 :: int) = int (Suc 1)" using n by auto
  have drops: "drop (Suc (Suc (nat n))) (vn # r1) = r2" "drop 1 (vn # r1) = r1" by (simp_all add: r2_def)
  have d: "drop_signatures (rev (vn # r1)) (n + 3) (nat m) code = Ok (foldl delete_sig code (take (nat m) r2))"
    unfolding i using len r1 by (subst drop_signatures_lists) (simp_all add: r2_def)
  have l: "multisig_loop env (rev (vn # r1)) sc (n + 3) 2 m n =
      multisig_match env sc (take (nat m) r2) (take (nat n) r1)" for sc
    using multisig_loop_lists [of "Suc (Suc (nat n))" "nat m" "vn # r1" 1 "nat n" env sc] n m r1 len
    unfolding drops by (simp add: add.commute)
  have "pop_n (nat (n + 2 + m)) (rev (vn # r1)) = Ok (rev (drop (nat (n + 2 + m)) (vn # r1)))"
    using n m r1 len by (intro pop_n_rev) simp
  moreover have "nat (n + 2 + m) = Suc (Suc (nat n + nat m))" using n m by simp
  ultimately have p: "pop_n (nat (n + 2 + m)) (rev (vn # r1)) = Ok (rev (drop (nat m) r2))"
    by (simp add: r2_def add.commute)
  show ?thesis unfolding d l p bindO.simps ..
qed

lemma CHECKMULTISIG_counts:
  assumes "0 \<le> n" "Suc (nat n) \<le> length r1"
  shows "stacktop (rev (vn # r1)) (- (2 + n)) = Ok (r1 ! nat n)"
    "0 \<le> m \<Longrightarrow> int (length (rev (vn # r1))) < n + 3 + m \<longleftrightarrow> length (drop (Suc (nat n)) r1) < Suc (nat m)"
  using stacktop_rev_Suc [of "Suc (nat n)" "vn # r1"] assms by (auto simp: algebra_simps)

lemma op_CHECKMULTISIG_lists: "op_CHECKMULTISIG env verify code opcount (rev r) = multisig_spec env verify code opcount r"
proof (cases r)
  case (Cons vn r1)
  have i: "2 + (n :: int) + 1 = n + 3" "n + 3 + m - 1 = n + 2 + m" "(1 :: int) + 1 = 2" for n m by simp_all
  have top1: "stacktop (rev (vn # r1)) (- 1) = Ok vn" by simp
  show ?thesis
    unfolding op_CHECKMULTISIG_def multisig_spec_def Cons Let_def list.case i top1 bindO.simps
    apply (subst if_not_P, simp)
    apply (rule bindO_cong [OF refl])
    subgoal for n
      apply (simp only: getint_small [OF CScriptNum_of_vch_range])
      apply (intro if_cong refl)
      subgoal by auto
      apply (subst CHECKMULTISIG_counts(1), (simp; fail)+, subst bindO.simps)
      apply (rule bindO_cong [OF refl])
      subgoal for m
        apply (simp only: getint_small [OF CScriptNum_of_vch_range])
        apply (intro if_cong refl)
        subgoal by (subst CHECKMULTISIG_counts(2)) auto
        apply (subst CHECKMULTISIG_tail)
        by (simp_all only: multisig_finish_code [unfolded Let_def]) auto
      done
    done
qed (simp add: op_CHECKMULTISIG_def multisig_spec_def)

section \<open>Greedy matching is complete\<close>

text \<open>The signatures can be assigned to keys in the keys' order.\<close>

definition ordered_match :: "('s \<Rightarrow> 'k \<Rightarrow> bool) \<Rightarrow> 's list \<Rightarrow> 'k list \<Rightarrow> bool" where
  "ordered_match check sigs keys \<longleftrightarrow> (\<exists>ks. subseq ks keys \<and> list_all2 check sigs ks)"

lemma ordered_match_Nil [simp]: "ordered_match check [] keys"
  by (auto simp: ordered_match_def)

lemma ordered_match_length: "ordered_match check sigs keys \<Longrightarrow> length sigs \<le> length keys"
  by (auto simp: ordered_match_def dest!: list_all2_lengthD list_emb_length)

lemma ordered_match_Cons:
  "ordered_match check (sig # sigs) (key # keys) \<longleftrightarrow>
     (if check sig key then ordered_match check sigs keys else ordered_match check (sig # sigs) keys)"
proof -
  have tl: "subseq ks keys" if "subseq (k # ks) (key # keys)" for k ks
    using that by (metis subseq_Cons2_iff subseq_Cons')
  have hd: "subseq (k # ks) keys" if "subseq (k # ks) (key # keys)" "k \<noteq> key" for k ks
    using that by simp
  show ?thesis
    by (auto simp: ordered_match_def list_all2_Cons1 intro: tl hd)
qed

lemma subseq_revI: "subseq xs ys \<Longrightarrow> subseq (rev xs) (rev ys)"
proof (induction xs ys rule: list_emb.induct)
  case (list_emb_Cons xs ys y)
  then show ?case by (metis append_Nil2 list_emb_append_mono list_emb_Nil rev.simps(2))
next
  case (list_emb_Cons2 x y xs ys)
  then show ?case by (simp add: list_emb_append_mono)
qed simp

lemma ordered_match_rev: "ordered_match check (rev sigs) (rev keys) \<longleftrightarrow> ordered_match check sigs keys"
proof -
  have "ordered_match check (rev sigs) (rev keys)" if "ordered_match check sigs keys" for sigs keys
    using that unfolding ordered_match_def by (metis list_all2_rev subseq_revI)
  from this [of sigs keys] this [of "rev sigs" "rev keys"] show ?thesis by auto
qed

lemma multisig_match_complete:
  assumes "\<forall>s \<in> set sigs. \<forall>k \<in> set keys. sig_key_encoding env s k = Ok ()"
  shows "multisig_match env code sigs keys = Ok (ordered_match (\<lambda>s k. CheckSig env s k code) sigs keys)"
  using assms
proof (induction env code sigs keys rule: multisig_match.induct)
  case (2 env code sig sigs)
  then show ?case by (auto dest: ordered_match_length)
next
  case (3 env code sig sigs key keys)
  then show ?case
    by (auto simp: ordered_match_Cons Let_def dest: ordered_match_length)
qed simp

text \<open>
  C8: \<open>OP_CHECKMULTISIG\<close> with \<open>m\<close> signatures and \<open>n\<close> keys on the stack, as a script pushes them,
  pushes true exactly when the signatures can be assigned to keys in the order of the keys, each key
  used at most once, so that every pair passes the signature check. The greedy loop, which gives up
  as soon as fewer keys than signatures are left, loses no assignment. The signature check is made
  against the script code from which all the signatures have been deleted, and the operation counts
  one operation per key.
\<close>

theorem checkmultisig_accepts_ordered_matches:
  assumes "length keys \<le> 20" "length sigs \<le> length keys" "opcount + int (length keys) \<le> 201"
    and "\<forall>s \<in> set sigs. \<forall>k \<in> set keys. sig_key_encoding env s k = Ok ()"
  shows "op_CHECKMULTISIG env False code opcount
      (st @ [[]] @ sigs @ [getvch (int (length sigs))] @ keys @ [getvch (int (length keys))]) =
    Ok (opcount + int (length keys),
        st @ [if ordered_match (\<lambda>s k. CheckSig env s k (foldl delete_sig code (rev sigs))) sigs keys
              then vchTrue else vchFalse])"
proof -
  let ?r = "getvch (int (length keys)) # rev keys @ getvch (int (length sigs)) # rev sigs @ [] # rev st"
  have num: "CScriptNum_of_vch (getvch (int k)) f = Ok (int k)" if "k \<le> 20" for k f
    using that by (intro CScriptNum_of_getvch) simp
  have "op_CHECKMULTISIG env False code opcount (rev ?r) =
      multisig_spec env False code opcount ?r" by (rule op_CHECKMULTISIG_lists)
  also have "\<dots> = bindO (multisig_match env (foldl delete_sig code (rev sigs)) (rev sigs) (rev keys))
      (multisig_finish env False (opcount + int (length keys)) ([] # rev st))"
    using assms by (simp add: multisig_spec_def num nth_append Let_def)
  also have "\<dots> = Ok (opcount + int (length keys),
      st @ [if ordered_match (\<lambda>s k. CheckSig env s k (foldl delete_sig code (rev sigs))) sigs keys
            then vchTrue else vchFalse])"
    using assms by (subst multisig_match_complete) (simp_all add: multisig_finish_def ordered_match_rev)
  finally show ?thesis by simp
qed

theorem checkmultisig_accepts_ordered_matches_witness:
  "op_CHECKMULTISIG \<lparr>flags = 0, CheckSig = \<lambda>s k _. s = k, CheckLowS = \<lambda>_. True\<rparr> False [] 0
     [[9], [], [1], [3], [2], [1], [2], [3], [3]] = Ok (3, [[9], vchTrue])"
proof -
  let ?env = "\<lparr>flags = 0, CheckSig = \<lambda>s k _. s = k, CheckLowS = \<lambda>_. True\<rparr> :: script_env"
  have g: "getvch 2 = [2]" "getvch 3 = [3]" by code_simp+
  have m: "ordered_match (=) [[1], [3]] [[1], [2], [3 :: byte]]"
    by (simp add: ordered_match_Cons)
  show ?thesis
    using checkmultisig_accepts_ordered_matches [of "[[1], [2], [3]]" "[[1], [3]]" 0 ?env "[]" "[[9]]"] g m
    by (simp add: sig_key_encoding_def CheckSignatureEncoding_def CheckPubKeyEncoding_def)
qed

end
