(* ===== verification/EvalSafety.thy ===== *)
theory EvalSafety
  imports Multisig
begin

text \<open>
  The interpreter stays inside its resource limits and inside defined behaviour: every handler,
  started on a stack within the limits, neither aborts nor throws anything but the
  \<open>scriptnum_error\<close> of an over-long or non-minimal number, and leaves elements of at most
  \<open>MAX_SCRIPT_ELEMENT_SIZE\<close> bytes. The loop keeps the limits as an invariant, and so \<open>EvalScript\<close> and
  \<open>VerifyScript\<close> always end in success or in one of the error codes.
\<close>

section \<open>Stacks within the limits\<close>

definition stack_ok :: "valtype list \<Rightarrow> bool" where
  "stack_ok st \<longleftrightarrow> (\<forall>v \<in> set st. length v \<le> MAX_SCRIPT_ELEMENT_SIZE)"

lemma stack_ok_simps [simp]:
  "stack_ok []" "stack_ok (v # st) \<longleftrightarrow> length v \<le> MAX_SCRIPT_ELEMENT_SIZE \<and> stack_ok st"
  "stack_ok (st @ st') \<longleftrightarrow> stack_ok st \<and> stack_ok st'" "stack_ok (rev st) \<longleftrightarrow> stack_ok st"
  by (auto simp: stack_ok_def)

lemma stack_ok_subset: "stack_ok st \<Longrightarrow> set st' \<subseteq> set st \<Longrightarrow> stack_ok st'"
  by (auto simp: stack_ok_def)

lemma stack_ok_nth: "stack_ok st \<Longrightarrow> i < length st \<Longrightarrow> length (st ! i) \<le> MAX_SCRIPT_ELEMENT_SIZE"
  by (simp add: stack_ok_def)

lemma stack_ok_take_drop [simp]: "stack_ok st \<Longrightarrow> stack_ok (take n st)" "stack_ok st \<Longrightarrow> stack_ok (drop n st)"
  by (auto intro: stack_ok_subset dest: in_set_takeD in_set_dropD)

lemma vch_lengths [simp]:
  "length vchTrue \<le> MAX_SCRIPT_ELEMENT_SIZE" "length vchFalse \<le> MAX_SCRIPT_ELEMENT_SIZE"
  by (simp_all add: vchTrue_def vchFalse_def MAX_SCRIPT_ELEMENT_SIZE_def)

lemma length_getvch:
  assumes "\<bar>n\<bar> < 2 ^ 39"
  shows "length (getvch n) \<le> MAX_SCRIPT_ELEMENT_SIZE"
proof -
  have "length (serialize n) \<le> Suc 4" using assms by (intro length_serialize) simp
  then show ?thesis by (simp add: getvch_def MAX_SCRIPT_ELEMENT_SIZE_def)
qed

lemma hash_value_eq:
  "hash_value OP_RIPEMD160 v = rmd160 v" "hash_value OP_SHA1 v = fips_sha1 v"
  "hash_value OP_SHA256 v = fips_sha256 v" "hash_value OP_HASH160 v = rmd160 (fips_sha256 v)"
  "hash_value OP_HASH256 v = fips_sha256 (fips_sha256 v)"
  using CRIPEMD160_digest(1) [of "CRIPEMD160 uninit" _ "[v]", OF _ _ _ refl]
    CSHA1_digest(1) [of "CSHA1 uninit" _ "[v]", OF _ _ _ refl]
    CSHA256_digest(1) [of "CSHA256 uninit" _ "[v]", OF _ _ _ refl]
    Hash160_eq [of uninit uninit v] Hash_eq [of uninit "[v]"]
  by (simp_all add: hash_value_def uninit_def CRIPEMD160_def CSHA1_def CSHA256_def Hash160_def Hash_def)

lemma length_hash_value: "length (hash_value opcode v) \<le> MAX_SCRIPT_ELEMENT_SIZE"
  by (simp add: hash_value_def MAX_SCRIPT_ELEMENT_SIZE_def Let_def CHash160_Finalize_def CHash256_Finalize_def
      split: prod.split)

section \<open>Handlers on the main stack\<close>

definition safe :: "(valtype list \<Rightarrow> valtype list eval) \<Rightarrow> bool" where
  "safe f \<longleftrightarrow> (\<forall>st. stack_ok st \<longrightarrow> length st \<le> 1000 \<longrightarrow> outcome_all stack_ok (f st))"

lemma safeI:
  assumes "\<And>r. stack_ok r \<Longrightarrow> length r \<le> 1000 \<Longrightarrow> outcome_all stack_ok (f (rev r))"
  shows "safe f"
  unfolding safe_def using assms by (metis length_rev rev_rev_ident stack_ok_simps(4))

lemma stack_effect_ok:
  assumes "stack_effect opcode r = Some r'" "stack_ok r" "length r \<le> 1000"
  shows "stack_ok r'"
proof -
  have g: "length (getvch (int (length r))) \<le> MAX_SCRIPT_ELEMENT_SIZE"
    using assms(3) by (intro length_getvch) simp
  have h: "length (getvch (int (length a))) \<le> MAX_SCRIPT_ELEMENT_SIZE"
    if "length a \<le> MAX_SCRIPT_ELEMENT_SIZE" for a :: valtype
    using that unfolding MAX_SCRIPT_ELEMENT_SIZE_def by (intro length_getvch [unfolded MAX_SCRIPT_ELEMENT_SIZE_def]) simp
  show ?thesis
    using assms g by (auto simp: h stack_effect.simps split: if_splits list.splits)
qed

lemma implements_safe: "implements f (stack_effect opcode) \<Longrightarrow> safe f"
  by (intro safeI) (auto simp: implements_def stack_effect_ok split: option.split)

lemma safe_words:
  "safe op_2DROP" "safe op_2DUP" "safe op_3DUP" "safe op_2OVER" "safe op_2ROT" "safe op_2SWAP" "safe op_IFDUP"
  "safe op_DEPTH" "safe op_DROP" "safe op_DUP" "safe op_NIP" "safe op_OVER" "safe op_ROT" "safe op_SWAP"
  "safe op_TUCK" "safe op_SIZE"
  by (rule implements_safe, rule implements_words)+

lemma safe_VERIFY: "safe op_VERIFY"
  unfolding safe_def
proof (intro allI impI)
  fix st assume "stack_ok st"
  then show "outcome_all stack_ok (op_VERIFY st)" by (cases st rule: rev_cases) (simp_all add: op_VERIFY_def)
qed

lemma safe_EQUAL: "safe (op_EQUAL verify)"
  unfolding safe_def
proof (intro allI impI)
  fix st assume "stack_ok st"
  then show "outcome_all stack_ok (op_EQUAL verify st)" by (cases st rule: two_cases) (simp_all add: op_EQUAL_def Let_def)
qed

lemma safe_HASH: "safe (op_HASH opcode)"
  unfolding safe_def
proof (intro allI impI)
  fix st assume "stack_ok st"
  then show "outcome_all stack_ok (op_HASH opcode st)"
    by (cases st rule: rev_cases) (simp_all add: op_HASH_def length_hash_value)
qed

subsection \<open>Numbers\<close>

lemma outcome_all_num:
  assumes "\<And>n. \<bar>n\<bar> < 2 ^ 31 \<Longrightarrow> outcome_all P (f n)"
  shows "outcome_all P (bindO (CScriptNum_of_vch v minimal) f)"
  by (rule outcome_all_bind [OF CScriptNum_of_vch_outcome]) (rule assms)

lemma outcome_all_result:
  "\<exists>m. r = Ok m \<and> \<bar>m\<bar> < 2 ^ 39 \<Longrightarrow> (\<And>m. \<bar>m\<bar> < 2 ^ 39 \<Longrightarrow> outcome_all P (f m)) \<Longrightarrow> outcome_all P (bindO r f)"
  by auto

lemma unary_num_ok:
  assumes "\<bar>n\<bar> < 2 ^ 31" "opcode \<in> set [OP_1ADD, OP_1SUB, OP_NEGATE, OP_ABS, OP_NOT, OP_0NOTEQUAL]"
  shows "\<exists>m. unary_num opcode n = Ok m \<and> \<bar>m\<bar> < 2 ^ 39"
  using assms by (auto simp: unary_num_def of_cond_def num_ops_exact [OF assms(1), of 1, simplified])

definition binary_words :: "opcodetype list" where
  "binary_words = [OP_ADD, OP_SUB, OP_BOOLAND, OP_BOOLOR, OP_NUMEQUAL, OP_NUMEQUALVERIFY, OP_NUMNOTEQUAL,
     OP_LESSTHAN, OP_GREATERTHAN, OP_LESSTHANOREQUAL, OP_GREATERTHANOREQUAL, OP_MIN, OP_MAX]"

lemma binary_num_ok:
  assumes "\<bar>a\<bar> < 2 ^ 31" "\<bar>b\<bar> < 2 ^ 31" "opcode \<in> set binary_words"
  shows "\<exists>m. binary_num opcode a b = Ok m \<and> \<bar>m\<bar> < 2 ^ 39"
  using assms unfolding binary_words_def list.set insert_iff empty_iff
  by - (elim disjE FalseE; force simp: binary_num_def of_cond_def num_ops_exact [OF assms(1,2)])

lemma safe_UNARY:
  assumes "opcode \<in> set [OP_1ADD, OP_1SUB, OP_NEGATE, OP_ABS, OP_NOT, OP_0NOTEQUAL]"
  shows "safe (op_UNARY minimal opcode)"
  unfolding safe_def
proof (intro allI impI)
  fix st assume "stack_ok st"
  then show "outcome_all stack_ok (op_UNARY minimal opcode st)"
    by (cases st rule: rev_cases)
      (auto simp: op_UNARY_def length_getvch intro!: outcome_all_num outcome_all_result unary_num_ok [OF _ assms])
qed

lemma safe_BINARY:
  assumes "opcode \<in> set binary_words"
  shows "safe (op_BINARY minimal opcode)"
  unfolding safe_def
proof (intro allI impI)
  fix st assume "stack_ok st"
  then show "outcome_all stack_ok (op_BINARY minimal opcode st)"
    by (cases st rule: two_cases)
      (auto simp: op_BINARY_def Let_def length_getvch intro!: outcome_all_num outcome_all_result binary_num_ok [OF _ _ assms])
qed

lemma safe_WITHIN: "safe (op_WITHIN minimal)"
  unfolding safe_def
proof (intro allI impI)
  fix st assume "stack_ok st"
  then show "outcome_all stack_ok (op_WITHIN minimal st)"
    by (cases st rule: three_cases) (auto simp: op_WITHIN_def intro!: outcome_all_num)
qed

lemma safe_PICK_ROLL: "safe (op_PICK_ROLL minimal roll)"
proof (rule safeI)
  fix r assume ok: "stack_ok r"
  show "outcome_all stack_ok (op_PICK_ROLL minimal roll (rev r))"
  proof (cases r)
    case (Cons v r')
    have "outcome_all stack_ok
        (bindO (stacktop (rev r') (- n - 1)) (\<lambda>vch.
          bindO (if roll then erase_top (rev r') (nat n + 1) (nat n) else Ok (rev r')) (\<lambda>st. Ok (st @ [vch]))))"
      if n: "0 \<le> n" "n < int (length r')" for n
    proof -
      have "- n - 1 = - int (Suc (nat n))" using n by simp
      then have "stacktop (rev r') (- n - 1) = Ok (r' ! nat n)"
        using n by (simp only: stacktop_rev_Suc)
      then show ?thesis
        using n ok Cons by (auto simp: erase_top_rev stack_ok_nth)
    qed
    then show ?thesis
      using Cons by (auto simp: op_PICK_ROLL_def Let_def getint_small not_le intro!: outcome_all_num)
  qed (simp add: op_PICK_ROLL_def)
qed

subsection \<open>Signatures\<close>

lemma CheckSignatureEncoding_total: "outcome_all (\<lambda>_. True) (CheckSignatureEncoding low sig fl)"
  by (simp add: CheckSignatureEncoding_def IsValidSignatureEncoding_checks IsLowDERSignature_def)

lemma CheckPubKeyEncoding_total: "outcome_all (\<lambda>_. True) (CheckPubKeyEncoding key fl)"
  by (simp add: CheckPubKeyEncoding_def)

lemma safe_CHECKSIG: "safe (op_CHECKSIG env verify code)"
  unfolding safe_def
proof (intro allI impI)
  fix st assume "stack_ok st"
  then show "outcome_all stack_ok (op_CHECKSIG env verify code st)"
    by (cases st rule: two_cases)
      (auto simp: op_CHECKSIG_def Let_def
        intro!: outcome_all_bind [OF CheckSignatureEncoding_total] outcome_all_bind [OF CheckPubKeyEncoding_total])
qed

lemma multisig_match_total: "outcome_all (\<lambda>_. True) (multisig_match env code sigs keys)"
proof (induction env code sigs keys rule: multisig_match.induct)
  case (3 env code sig sigs key keys)
  then show ?case
    by (auto simp: sig_key_encoding_def bindO_assoc Let_def
        intro!: outcome_all_bind [OF CheckSignatureEncoding_total] outcome_all_bind [OF CheckPubKeyEncoding_total])
qed simp_all

lemma CHECKMULTISIG_safe:
  assumes "stack_ok st" "0 \<le> opcount"
  shows "outcome_all (\<lambda>(n, st). stack_ok st \<and> 0 \<le> n \<and> n \<le> 201) (op_CHECKMULTISIG env verify code opcount st)"
proof -
  have fin: "outcome_all (\<lambda>(n, st). stack_ok st \<and> 0 \<le> n \<and> n \<le> 201) (multisig_finish env verify n r b)"
    if "stack_ok r" "0 \<le> n" "n \<le> 201" for n r b
    using that by (auto simp: multisig_finish_def split: list.split)
  have "outcome_all (\<lambda>(n, st). stack_ok st \<and> 0 \<le> n \<and> n \<le> 201) (multisig_spec env verify code opcount (rev st))"
  proof (cases "rev st")
    case (Cons vn r1)
    then have "stack_ok r1" using assms(1) by (metis stack_ok_simps(2,4))
    then show ?thesis
      using Cons assms(2)
      by (auto simp: multisig_spec_def Let_def
          intro!: outcome_all_num outcome_all_bind [OF multisig_match_total] fin)
  qed (simp add: multisig_spec_def)
  then show ?thesis using op_CHECKMULTISIG_lists [of env verify code opcount "rev st"] by simp
qed

section \<open>The switch and the loop\<close>

definition state_ok :: "eval_state \<Rightarrow> bool" where
  "state_ok s \<longleftrightarrow> stack_ok (stack s) \<and> stack_ok (altstack s) \<and> 0 \<le> nOpCount s \<and> nOpCount s \<le> 201"

lemma on_stack_safe:
  assumes "safe f" "state_ok s" "length (stack s) \<le> 1000"
  shows "outcome_all state_ok (on_stack f s)"
  unfolding on_stack_def using assms
  by (intro outcome_all_bind [where Q = stack_ok]) (auto simp: safe_def state_ok_def)

lemma crypto_switch_safe:
  "state_ok s \<Longrightarrow> length (stack s) \<le> 1000 \<Longrightarrow> outcome_all state_ok (crypto_switch env opcode pc s)"
  unfolding crypto_switch_def
  by (auto intro!: on_stack_safe safe_HASH safe_CHECKSIG
        outcome_all_bind [OF CHECKMULTISIG_safe] simp: state_ok_def)

lemma numeric_switch_safe:
  "state_ok s \<Longrightarrow> length (stack s) \<le> 1000 \<Longrightarrow> outcome_all state_ok (numeric_switch env opcode pc s)"
  unfolding numeric_switch_def binary_words_def [symmetric]
  by (auto simp del: list.set intro!: on_stack_safe safe_UNARY safe_BINARY safe_WITHIN crypto_switch_safe)

lemma stack_switch_safe:
  assumes "state_ok s" "length (stack s) \<le> 1000"
  shows "outcome_all state_ok (stack_switch env opcode pc s)"
proof -
  have "outcome_all state_ok (op_TOALTSTACK s)" "outcome_all state_ok (op_FROMALTSTACK s)"
    using assms by (cases "stack s" rule: rev_cases; cases "altstack s" rule: rev_cases;
        simp add: op_TOALTSTACK_def op_FROMALTSTACK_def state_ok_def)+
  with assms show ?thesis
    unfolding stack_switch_def
    by (simp add: on_stack_safe safe_words safe_PICK_ROLL safe_EQUAL numeric_switch_safe)
qed

lemma exec_switch_safe:
  assumes "state_ok s" "length (stack s) \<le> 1000" "opcode < 256"
  shows "outcome_all state_ok (exec_switch env fExec opcode pc s)"
proof -
  have "\<bar>int opcode - (int OP_1 - 1)\<bar> < 2 ^ 39" using assms(3) by simp
  from length_getvch [OF this] have "outcome_all state_ok (op_PUSHNUM opcode s)"
    using assms(1) by (simp add: op_PUSHNUM_def state_ok_def)
  moreover have "outcome_all state_ok (op_NOPn env s)" "outcome_all state_ok (op_ELSE s)" "outcome_all state_ok (op_ENDIF s)"
    using assms(1) by (simp_all add: op_NOPn_def op_ELSE_def op_ENDIF_def state_ok_def)
  moreover have "outcome_all state_ok (op_IF fExec opcode s)"
    using assms(1) by (cases "stack s" rule: rev_cases) (auto simp: op_IF_def state_ok_def Let_def)
  ultimately show ?thesis
    unfolding exec_switch_def using assms
    by (simp add: on_stack_safe safe_VERIFY stack_switch_safe)
qed

lemma outcome_all_if:
  "(c \<Longrightarrow> outcome_all P a) \<Longrightarrow> (\<not> c \<Longrightarrow> outcome_all P b) \<Longrightarrow> outcome_all P (if c then a else b)"
  by simp

definition within_limits :: "eval_state \<Rightarrow> bool" where
  "within_limits s \<longleftrightarrow> state_ok s \<and> length (stack s) + length (altstack s) \<le> 1000"

lemma exec_instr_safe:
  assumes "within_limits s" "opcode < 256"
  shows "outcome_all within_limits (exec_instr env opcode vch pc s)"
proof -
  define s' where "s' = (if opcode > OP_16 then s\<lparr>nOpCount := nOpCount s + 1\<rparr> else s)"
  have ok: "state_ok s'" "length (stack s') \<le> 1000" if "\<not> (opcode > OP_16 \<and> nOpCount s' > 201)"
    using that assms(1) by (auto simp: s'_def within_limits_def state_ok_def)
  have end_check: "outcome_all within_limits
      (bindO m (\<lambda>s. if length (stack s) + length (altstack s) > 1000 then Fail SCRIPT_ERR_STACK_SIZE else Ok s))"
    if "outcome_all state_ok m" for m
    using that by (rule outcome_all_bind) (simp add: within_limits_def)
  have push: "state_ok (s'\<lparr>stack := stack s' @ [vch]\<rparr>)" if "state_ok s'" "length vch \<le> MAX_SCRIPT_ELEMENT_SIZE"
    using that by (simp add: state_ok_def)
  show ?thesis
    unfolding exec_instr_def Let_def s'_def [symmetric]
    by (intro outcome_all_if end_check exec_switch_safe) (simp_all add: ok push assms(2) not_less)
qed

text \<open>
  The loop as a transition system: a configuration is the iterator and the state, and a step is one
  iteration that does not return. \<open>code_suffix\<close> relates a configuration to the script it came from.
\<close>

inductive eval_step :: "script_env \<Rightarrow> byte list \<times> eval_state \<Rightarrow> byte list \<times> eval_state \<Rightarrow> bool"
  for env where
  step: "GetOp2 pc = (True, opcode, vch, pc') \<Longrightarrow> exec_instr env opcode vch pc' s = Ok s' \<Longrightarrow>
    eval_step env (pc, s) (pc', s')"

inductive_cases eval_stepE: "eval_step env (pc, s) c"

lemma eval_loop_Nil [simp]: "eval_loop env [] s = Ok s"
  by (simp add: eval_loop.simps)

lemma eval_loop_step:
  "GetOp2 pc = (True, opcode, vch, pc') \<Longrightarrow>
   eval_loop env pc s = bindO (exec_instr env opcode vch pc' s) (eval_loop env pc')"
  by (subst eval_loop.simps) (auto dest: GetOp2_ok_nonempty)

lemma eval_loop_bad: "GetOp2 pc = (False, opcode, vch, pc') \<Longrightarrow> pc \<noteq> [] \<Longrightarrow> eval_loop env pc s = Fail SCRIPT_ERR_BAD_OPCODE"
  by (subst eval_loop.simps) auto

lemma eval_loop_cases:
  obtains (finished) "pc = []" | (bad) opcode vch pc' where "pc \<noteq> []" "GetOp2 pc = (False, opcode, vch, pc')"
    | (instr) opcode vch pc' where "GetOp2 pc = (True, opcode, vch, pc')"
  by (metis (full_types) prod_cases4)

lemma eval_loop_steps: "eval_loop env pc s = Ok s' \<longleftrightarrow> (eval_step env)\<^sup>*\<^sup>* (pc, s) ([], s')"
proof
  show "(eval_step env)\<^sup>*\<^sup>* (pc, s) ([], s')" if "eval_loop env pc s = Ok s'"
    using that
  proof (induction env pc s rule: eval_loop.induct)
    case (1 env pc s)
    show ?case
    proof (cases pc rule: eval_loop_cases)
      case (instr opcode vch pc')
      then obtain s1 where s1: "exec_instr env opcode vch pc' s = Ok s1" "eval_loop env pc' s1 = Ok s'"
        using "1.prems" by (auto simp: eval_loop_step outcome_simps)
      have "(eval_step env)\<^sup>*\<^sup>* (pc', s1) ([], s')"
        using "1.IH" [OF _ instr [symmetric] refl refl refl, of s1] s1 GetOp2_ok_nonempty [OF instr] by simp
      then show ?thesis using eval_step.step [OF instr s1(1)] by (rule converse_rtranclp_into_rtranclp [rotated])
    qed (use "1.prems" in \<open>simp_all add: eval_loop_bad\<close>)
  qed
  show "eval_loop env pc s = Ok s'" if "(eval_step env)\<^sup>*\<^sup>* (pc, s) ([], s')"
    using that
    by (induction "(pc, s)" arbitrary: pc s rule: converse_rtranclp_induct)
      (auto elim!: eval_stepE simp: eval_loop_step)
qed

lemma eval_step_safe: "eval_step env (pc, s) (pc', s') \<Longrightarrow> within_limits s \<Longrightarrow> within_limits s'"
  by (auto elim!: eval_stepE dest: GetOp2_opcode_lt outcome_all_OkD [OF exec_instr_safe])

lemma eval_loop_safe: "within_limits s \<Longrightarrow> outcome_all within_limits (eval_loop env pc s)"
proof (induction env pc s rule: eval_loop.induct)
  case (1 env pc s)
  show ?case
  proof (cases pc rule: eval_loop_cases)
    case (instr opcode vch pc')
    note exec_instr_safe [OF "1.prems" GetOp2_opcode_lt [OF instr], of env vch pc']
    then show ?thesis
      unfolding eval_loop_step [OF instr]
      using "1.IH" [OF _ instr [symmetric] refl refl refl] GetOp2_ok_nonempty [OF instr]
      by (auto intro: outcome_all_bind)
  qed (use "1.prems" in \<open>simp_all add: eval_loop_bad\<close>)
qed

lemma initial_within_limits: "stack_ok st \<Longrightarrow> length st \<le> 1000 \<Longrightarrow> within_limits (initial_state st script)"
  by (simp add: within_limits_def state_ok_def initial_state_def)

definition result_within_limits :: "valtype list eval \<Rightarrow> bool" where
  "result_within_limits r \<longleftrightarrow> (case r of Ok st \<Rightarrow> stack_ok st \<and> length st \<le> 1000 | Fail e \<Rightarrow> True | _ \<Rightarrow> False)"

lemma EvalScript_total:
  assumes "stack_ok st" "length st \<le> 1000"
  shows "result_within_limits (EvalScript env st script)"
  using eval_loop_safe [OF initial_within_limits [OF assms, of script], of env script]
  by (cases "eval_loop env script (initial_state st script)")
    (auto simp: EvalScript_def result_within_limits_def within_limits_def state_ok_def)

subsection \<open>The code a signature commits to\<close>

lemma on_stack_codehash: "on_stack f s = Ok s' \<Longrightarrow> pbegincodehash s' = pbegincodehash s"
  by (auto simp: on_stack_def outcome_simps)

lemma crypto_switch_codehash:
  "crypto_switch env opcode pc s = Ok s' \<Longrightarrow> pbegincodehash s' = pbegincodehash s \<or> pbegincodehash s' = pc"
  by (auto simp: crypto_switch_def outcome_simps dest: on_stack_codehash split: if_splits)

lemma numeric_switch_codehash:
  "numeric_switch env opcode pc s = Ok s' \<Longrightarrow> pbegincodehash s' = pbegincodehash s \<or> pbegincodehash s' = pc"
  unfolding numeric_switch_def by (auto dest: on_stack_codehash crypto_switch_codehash split: if_splits)

lemma stack_switch_codehash:
  "stack_switch env opcode pc s = Ok s' \<Longrightarrow> pbegincodehash s' = pbegincodehash s \<or> pbegincodehash s' = pc"
  unfolding stack_switch_def op_TOALTSTACK_def op_FROMALTSTACK_def
  by (auto simp: outcome_simps dest: on_stack_codehash numeric_switch_codehash split: if_splits)

lemma exec_switch_codehash:
  "exec_switch env fExec opcode pc s = Ok s' \<Longrightarrow> pbegincodehash s' = pbegincodehash s \<or> pbegincodehash s' = pc"
  unfolding exec_switch_def op_PUSHNUM_def op_NOPn_def op_IF_def op_ELSE_def op_ENDIF_def
  by (auto simp: outcome_simps Let_def dest: on_stack_codehash stack_switch_codehash split: if_splits)

lemma exec_instr_codehash:
  assumes "exec_instr env opcode vch pc s = Ok s'"
  shows "pbegincodehash s' = pbegincodehash s \<or> pbegincodehash s' = pc"
  using assms unfolding exec_instr_def Let_def
  by (auto simp: outcome_simps dest: exec_switch_codehash split: if_splits)

lemma eval_steps_invariant:
  assumes "(eval_step env)\<^sup>*\<^sup>* (pc, s) (pc', s')"
  shows "within_limits s \<Longrightarrow> suffix pc script \<Longrightarrow> suffix (pbegincodehash s) script \<Longrightarrow>
    within_limits s' \<and> suffix pc' script \<and> suffix (pbegincodehash s') script"
  using assms
proof (induction "(pc', s')" arbitrary: pc' s' rule: rtranclp_induct)
  case (step c)
  obtain pc1 s1 where c: "c = (pc1, s1)" by (cases c)
  have inv: "within_limits s1" "suffix pc1 script" "suffix (pbegincodehash s1) script"
    using step.hyps(3) [OF c] step.prems by auto
  from step.hyps(2) [unfolded c] obtain opcode vch where
    g: "GetOp2 pc1 = (True, opcode, vch, pc')" and x: "exec_instr env opcode vch pc' s1 = Ok s'"
    by (auto elim!: eval_stepE)
  have "suffix pc' pc1" using GetOp2_split [OF g] by (auto simp: suffix_def)
  then have pc': "suffix pc' script" using inv(2) by (rule suffix_order.trans)
  moreover have "suffix (pbegincodehash s') script"
    using exec_instr_codehash [OF x] inv(3) pc' by auto
  ultimately show ?case using eval_step_safe [OF step.hyps(2) [unfolded c] inv(1)] by simp
qed simp

text \<open>
  C5: at every iteration of the loop of \<open>EvalScript\<close>, whatever the script, the flags and the signature
  checker, the two stacks together hold at most 1000 elements, every element has at most 520
  bytes, at most 201 operations have been counted, and the iterator and the code position that
  signatures commit to point into the script.
\<close>

theorem eval_resource_limits:
  assumes "(eval_step env)\<^sup>*\<^sup>* (script, initial_state st script) (pc, s)"
    and "\<forall>v \<in> set st. length v \<le> MAX_SCRIPT_ELEMENT_SIZE" "length st \<le> 1000"
  shows "length (stack s) + length (altstack s) \<le> 1000 \<and>
    (\<forall>v \<in> set (stack s) \<union> set (altstack s). length v \<le> MAX_SCRIPT_ELEMENT_SIZE) \<and>
    0 \<le> nOpCount s \<and> nOpCount s \<le> 201 \<and> suffix pc script \<and> suffix (pbegincodehash s) script"
proof -
  have "within_limits s \<and> suffix pc script \<and> suffix (pbegincodehash s) script"
    using assms
    by (intro eval_steps_invariant [OF assms(1)] initial_within_limits)
      (simp_all add: stack_ok_def initial_state_def)
  then show ?thesis
    by (auto simp: within_limits_def state_ok_def stack_ok_def)
qed

theorem eval_resource_limits_witness:
  "\<exists>s. (eval_step \<lparr>flags = 0, CheckSig = \<lambda>_ _ _. True, CheckLowS = \<lambda>_. True\<rparr>)\<^sup>*\<^sup>*
      ([0x51, 0x76], initial_state [[7]] [0x51, 0x76]) ([], s) \<and>
    stack s = [[7], [1], [1]] \<and> length (stack s) + length (altstack s) \<le> 1000"
proof -
  let ?env = "\<lparr>flags = 0, CheckSig = \<lambda>_ _ _. True, CheckLowS = \<lambda>_. True\<rparr> :: script_env"
  let ?s = "initial_state [[7], [1], [1]] [0x51, 0x76]\<lparr>nOpCount := 1\<rparr>"
  have g: "getvch 1 = [1]" by code_simp
  have "eval_loop ?env [0x51, 0x76] (initial_state [[7]] [0x51, 0x76]) = Ok ?s"
    by (simp add: eval_loop.simps exec_instr_def exec_switch_def op_PUSHNUM_def stack_switch_def on_stack_def
        op_DUP_def initial_state_def disabled_opcodes_def MAX_SCRIPT_ELEMENT_SIZE_def stacktop_def Let_def g
        Cons_eq_append_conv)
  then have "(eval_step ?env)\<^sup>*\<^sup>* ([0x51, 0x76], initial_state [[7]] [0x51, 0x76]) ([], ?s)"
    by (simp only: eval_loop_steps)
  moreover note eval_resource_limits [OF this]
  ultimately show ?thesis
    by (intro exI [of _ ?s]) (simp add: MAX_SCRIPT_ELEMENT_SIZE_def initial_state_def)
qed

text \<open>
  C6: \<open>EvalScript\<close> is total and safe. On any script and any stack within the limits its loop ends without an
  access outside a stack (\<open>out_of_range\<close>), a \<open>popstack\<close> of an empty stack (\<open>runtime_error\<close>), iterator arithmetic
  outside a vector, a failed assertion or signed overflow: already before the \<open>catch\<close> clause, the only exception that can
  arise is the \<open>scriptnum_error\<close> of an operand that is not a number. \<open>EvalScript\<close> then returns a stack within
  the limits or an error code, and no exception leaves it.
\<close>

theorem eval_script_total:
  assumes "\<forall>v \<in> set st. length v \<le> MAX_SCRIPT_ELEMENT_SIZE" "length st \<le> 1000"
  shows "eval_loop env script (initial_state st script) \<notin> {Abort, Throw out_of_range, Throw runtime_error, Throw ios_failure} \<and>
    ((\<exists>e. EvalScript env st script = Fail e) \<or>
     (\<exists>st'. EvalScript env st script = Ok st' \<and>
       (\<forall>v \<in> set st'. length v \<le> MAX_SCRIPT_ELEMENT_SIZE) \<and> length st' \<le> 1000))"
proof
  have st: "stack_ok st" using assms(1) by (simp add: stack_ok_def)
  show "eval_loop env script (initial_state st script) \<notin> {Abort, Throw out_of_range, Throw runtime_error, Throw ios_failure}"
    using eval_loop_safe [OF initial_within_limits [OF st assms(2), of script], of env script] by auto
qed (use EvalScript_total [of st env script] assms in \<open>auto simp: result_within_limits_def stack_ok_def split: outcome.splits\<close>)

theorem eval_script_total_witness:
  "let env = \<lparr>flags = 0, CheckSig = \<lambda>_ _ _. True, CheckLowS = \<lambda>_. True\<rparr> in
   eval_loop env [0x93, 0xff] (initial_state [[1], []] [0x93, 0xff]) \<notin>
     {Abort, Throw out_of_range, Throw runtime_error, Throw ios_failure} \<and>
   ((\<exists>e. EvalScript env [[1], []] [0x93, 0xff] = Fail e) \<or>
    (\<exists>st'. EvalScript env [[1], []] [0x93, 0xff] = Ok st' \<and>
       (\<forall>v \<in> set st'. length v \<le> MAX_SCRIPT_ELEMENT_SIZE) \<and> length st' \<le> 1000))"
  unfolding Let_def by (rule eval_script_total) (simp_all add: MAX_SCRIPT_ELEMENT_SIZE_def)

end
