(* ===== verification/ScriptVerify.thy ===== *)
theory ScriptVerify
  imports EvalSafety
begin

text \<open>
  \<open>VerifyScript\<close> on the standard output scripts. The lemmas evaluate straight-line scripts one
  instruction at a time; the properties say when a pay-to-public-key-hash output and a
  pay-to-script-hash output can be spent, and that \<open>VerifyScript\<close> never reaches its assertion.
\<close>

section \<open>Straight-line evaluation\<close>

lemma eval_loop_opcode:
  assumes "OP_PUSHDATA4 < opcode" "opcode < 256"
  shows "eval_loop env (of_nat opcode # rest) s = bindO (exec_instr env opcode [] rest s) (eval_loop env rest)"
  using assms by (intro eval_loop_step GetOp2_opcode) simp_all

definition pushable :: "script_env \<Rightarrow> valtype \<Rightarrow> bool" where
  "pushable env v \<longleftrightarrow> length v \<le> MAX_SCRIPT_ELEMENT_SIZE \<and> (fRequireMinimal env \<longrightarrow> CheckMinimalPush v (push_opcode_of v))"

lemma pushable_long: "2 \<le> length v \<Longrightarrow> length v \<le> MAX_SCRIPT_ELEMENT_SIZE \<Longrightarrow> pushable env v"
  by (auto simp: pushable_def CheckMinimalPush_def push_opcode_of_def MAX_SCRIPT_ELEMENT_SIZE_def)

lemma push_opcode_of_le: "push_opcode_of v \<le> OP_PUSHDATA4"
  by (simp add: push_opcode_of_def)

lemma push_not_disabled: "opcode \<le> OP_PUSHDATA4 \<Longrightarrow> opcode \<notin> set disabled_opcodes"
  by (auto simp: disabled_opcodes_def)

lemma eval_loop_push:
  assumes "pushable env v" "vfExec s = []" "length (stack s) + length (altstack s) < 1000"
    and "length rest \<le> 10000"
  shows "eval_loop env (push_data [] v @ rest) s = eval_loop env rest (s\<lparr>stack := stack s @ [v]\<rparr>)"
proof -
  have len: "length v \<le> 520" using assms(1) by (simp add: pushable_def MAX_SCRIPT_ELEMENT_SIZE_def)
  then have "GetOp2 (push_data [] v @ rest) = (True, push_opcode_of v, v, rest)"
    using assms(4) by (intro GetOp2_push_data) simp
  then show ?thesis
    using assms push_opcode_of_le [of v] push_not_disabled [OF push_opcode_of_le [of v]]
    by (subst eval_loop_step) (auto simp: exec_instr_def pushable_def)
qed

lemma exec_instr_op:
  assumes "vfExec s = []" "OP_16 < opcode" "opcode \<notin> set disabled_opcodes" "nOpCount s < 201"
  shows "exec_instr env opcode [] pc s =
    bindO (exec_switch env True opcode pc (s\<lparr>nOpCount := nOpCount s + 1\<rparr>))
      (\<lambda>s. if length (stack s) + length (altstack s) > 1000 then Fail SCRIPT_ERR_STACK_SIZE else Ok s)"
  using assms by (simp add: exec_instr_def)

lemma switch_ops:
  "exec_switch env fExec OP_DUP pc s = on_stack op_DUP s"
  "exec_switch env fExec OP_HASH160 pc s = on_stack (op_HASH OP_HASH160) s"
  "exec_switch env fExec OP_EQUAL pc s = on_stack (op_EQUAL False) s"
  "exec_switch env fExec OP_EQUALVERIFY pc s = on_stack (op_EQUAL True) s"
  "exec_switch env fExec OP_CHECKSIG pc s = on_stack (op_CHECKSIG env False (pbegincodehash s)) s"
  by (simp_all add: exec_switch_def stack_switch_def numeric_switch_def crypto_switch_def)

section \<open>The standard scripts\<close>

definition p2pkh_script :: "valtype \<Rightarrow> byte list" where
  "p2pkh_script h = of_nat OP_DUP # of_nat OP_HASH160 # push_data [] h @ [of_nat OP_EQUALVERIFY, of_nat OP_CHECKSIG]"

definition p2sh_script :: "valtype \<Rightarrow> byte list" where
  "p2sh_script h = of_nat OP_HASH160 # push_data [] h @ [of_nat OP_EQUAL]"

lemma eval_step_op:
  assumes "OP_16 < opcode" "opcode < 256" "opcode \<notin> set disabled_opcodes" "vfExec s = []" "nOpCount s < 201"
  shows "eval_loop env (of_nat opcode # rest) s =
    bindO (exec_switch env True opcode rest (s\<lparr>nOpCount := nOpCount s + 1\<rparr>))
      (\<lambda>s. if length (stack s) + length (altstack s) > 1000 then Fail SCRIPT_ERR_STACK_SIZE
           else eval_loop env rest s)"
proof -
  have "eval_loop env (of_nat opcode # rest) s = bindO (exec_instr env opcode [] rest s) (eval_loop env rest)"
    using assms by (intro eval_loop_opcode) simp_all
  then show ?thesis
    using assms by (auto simp: exec_instr_op bindO_assoc intro!: bindO_cong)
qed

definition next_iteration :: "script_env \<Rightarrow> byte list \<Rightarrow> eval_state \<Rightarrow> eval_state eval" where
  "next_iteration env pc s =
     (if length (stack s) + length (altstack s) > 1000 then Fail SCRIPT_ERR_STACK_SIZE else eval_loop env pc s)"

lemma eval_ops:
  assumes "vfExec s = []" "nOpCount s < 201"
  defines "s1 \<equiv> s\<lparr>nOpCount := nOpCount s + 1\<rparr>"
  shows "eval_loop env (0x76 # rest) s = bindO (on_stack op_DUP s1) (next_iteration env rest)"
    "eval_loop env (0xa9 # rest) s = bindO (on_stack (op_HASH OP_HASH160) s1) (next_iteration env rest)"
    "eval_loop env (0x87 # rest) s = bindO (on_stack (op_EQUAL False) s1) (next_iteration env rest)"
    "eval_loop env (0x88 # rest) s = bindO (on_stack (op_EQUAL True) s1) (next_iteration env rest)"
    "eval_loop env (0xac # rest) s = bindO (on_stack (op_CHECKSIG env False (pbegincodehash s)) s1) (next_iteration env rest)"
  using assms(1,2) eval_step_op [of OP_DUP s env rest] eval_step_op [of OP_HASH160 s env rest]
    eval_step_op [of OP_EQUAL s env rest] eval_step_op [of OP_EQUALVERIFY s env rest]
    eval_step_op [of OP_CHECKSIG s env rest]
  by (simp_all add: switch_ops disabled_opcodes_def s1_def next_iteration_def [abs_def])

lemma op_EQUAL_snoc:
  "op_EQUAL verify (st @ [a, b]) =
     (if verify then if a = b then Ok st else Fail SCRIPT_ERR_EQUALVERIFY
      else Ok (st @ [if a = b then vchTrue else vchFalse]))"
  by (simp add: op_EQUAL_def Let_def)

lemma p2pkh_loop:
  assumes s: "stack s = st @ [sig, pk]" "vfExec s = []" "altstack s = []" "nOpCount s \<le> 190"
    and h: "length h = 20" and st: "length st + 4 \<le> 1000"
  shows "eval_loop env (p2pkh_script h) s =
    (if rmd160 (fips_sha256 pk) \<noteq> h then Fail SCRIPT_ERR_EQUALVERIFY
     else bindO (op_CHECKSIG env False (pbegincodehash s) (st @ [sig, pk])) (\<lambda>st'.
       if length st' > 1000 then Fail SCRIPT_ERR_STACK_SIZE
       else Ok (s\<lparr>nOpCount := 4 + nOpCount s, stack := st'\<rparr>)))"
proof -
  have p: "pushable env h" using h by (intro pushable_long) (simp_all add: MAX_SCRIPT_ELEMENT_SIZE_def)
  have "eval_loop env (p2pkh_script h) s =
      eval_loop env (push_data [] h @ [of_nat OP_EQUALVERIFY, of_nat OP_CHECKSIG])
        (s\<lparr>nOpCount := 2 + nOpCount s, stack := st @ [sig, pk, rmd160 (fips_sha256 pk)]\<rparr>)"
    using s st unfolding p2pkh_script_def
    by (simp add: eval_ops next_iteration_def on_stack_def op_DUP_def op_HASH_def hash_value_eq)
  also have "\<dots> = eval_loop env [of_nat OP_EQUALVERIFY, of_nat OP_CHECKSIG]
        (s\<lparr>nOpCount := 2 + nOpCount s, stack := st @ [sig, pk, rmd160 (fips_sha256 pk), h]\<rparr>)"
    using s st by (subst eval_loop_push [OF p]) simp_all
  also have "\<dots> = (if rmd160 (fips_sha256 pk) \<noteq> h then Fail SCRIPT_ERR_EQUALVERIFY
     else eval_loop env [of_nat OP_CHECKSIG] (s\<lparr>nOpCount := 3 + nOpCount s, stack := st @ [sig, pk]\<rparr>))"
    using s st op_EQUAL_snoc [of True "st @ [sig, pk]"]
    by (simp add: eval_ops next_iteration_def on_stack_def)
  also have "eval_loop env [of_nat OP_CHECKSIG] (s\<lparr>nOpCount := 3 + nOpCount s, stack := st @ [sig, pk]\<rparr>) =
     bindO (op_CHECKSIG env False (pbegincodehash s) (st @ [sig, pk])) (\<lambda>st'.
       if length st' > 1000 then Fail SCRIPT_ERR_STACK_SIZE
       else Ok (s\<lparr>nOpCount := 4 + nOpCount s, stack := st'\<rparr>))"
    using s st
    by (simp add: eval_ops next_iteration_def on_stack_def bindO_assoc if_distrib cong: if_cong)
  finally show ?thesis .
qed

lemma op_CHECKSIG_snoc:
  "op_CHECKSIG env False code (st @ [sig, pk]) =
     bindO (sig_key_encoding env sig pk) (\<lambda>_.
       Ok (st @ [if CheckSig env sig pk (delete_sig code sig) then vchTrue else vchFalse]))"
  by (simp add: op_CHECKSIG_def sig_key_encoding_def bindO_assoc delete_sig_def Let_def)

lemma length_push_20: "length h = 20 \<Longrightarrow> push_data [] h = 20 # h"
  by (simp add: push_data_def)

lemma EvalScript_p2pkh:
  assumes "length h = 20"
  shows "EvalScript env [sig, pk] (p2pkh_script h) =
    (if rmd160 (fips_sha256 pk) \<noteq> h then Fail SCRIPT_ERR_EQUALVERIFY
     else catch_all (bindO (sig_key_encoding env sig pk) (\<lambda>_.
       Ok [if CheckSig env sig pk (delete_sig (p2pkh_script h) sig) then vchTrue else vchFalse])))"
proof -
  have "length (p2pkh_script h) \<le> 10000" using assms by (simp add: p2pkh_script_def length_push_20)
  moreover have "eval_loop env (p2pkh_script h) (initial_state [sig, pk] (p2pkh_script h)) =
      (if rmd160 (fips_sha256 pk) \<noteq> h then Fail SCRIPT_ERR_EQUALVERIFY
       else bindO (sig_key_encoding env sig pk) (\<lambda>_.
         Ok (initial_state [if CheckSig env sig pk (delete_sig (p2pkh_script h) sig) then vchTrue else vchFalse]
               (p2pkh_script h)\<lparr>nOpCount := 4\<rparr>)))"
    using assms op_CHECKSIG_snoc [of env "p2pkh_script h" "[]" sig pk]
    by (subst p2pkh_loop [where st = "[]"]) (auto simp: initial_state_def bindO_assoc)
  ultimately show ?thesis
    by (cases "sig_key_encoding env sig pk") (simp_all add: EvalScript_def initial_state_def)
qed

lemma sig_key_encoding_total: "outcome_all (\<lambda>_. True) (sig_key_encoding env sig pk)"
  unfolding sig_key_encoding_def
  by (intro outcome_all_bind [OF CheckSignatureEncoding_total] CheckPubKeyEncoding_total)

lemma IsPushOnly_Nil [simp]: "IsPushOnly []"
  by (simp add: IsPushOnly.simps)

lemma IsPushOnly_push:
  assumes "length v + length rest < 2 ^ 32"
  shows "IsPushOnly (push_data [] v @ rest) = IsPushOnly rest"
proof -
  have "push_data [] v @ rest \<noteq> []" by (simp add: push_data_def Let_def)
  then show ?thesis
    using push_opcode_of_le [of v] GetOp2_push_data [OF assms]
    by (subst IsPushOnly.simps) simp
qed

lemma length_push_data_le: "length v \<le> 520 \<Longrightarrow> length (push_data [] v) \<le> 525"
  by (auto simp: push_data_def Let_def)

lemma EvalScript_two_pushes:
  assumes "pushable env sig" "pushable env pk"
  shows "EvalScript env [] (push_data [] sig @ push_data [] pk) = Ok [sig, pk]"
    "IsPushOnly (push_data [] sig @ push_data [] pk)"
proof -
  have len: "length sig \<le> 520" "length pk \<le> 520"
    using assms by (simp_all add: pushable_def MAX_SCRIPT_ELEMENT_SIZE_def)
  note l = length_push_data_le [OF len(1)] length_push_data_le [OF len(2)]
  have "eval_loop env (push_data [] sig @ push_data [] pk @ []) s = Ok (s\<lparr>stack := [sig, pk]\<rparr>)"
    if "s = initial_state [] (push_data [] sig @ push_data [] pk)" for s
    using that l by (simp add: eval_loop_push [OF assms(1)] eval_loop_push [OF assms(2), of _ "[]", simplified] initial_state_def)
  then show "EvalScript env [] (push_data [] sig @ push_data [] pk) = Ok [sig, pk]"
    using l by (simp add: EvalScript_def initial_state_def)
  show "IsPushOnly (push_data [] sig @ push_data [] pk)"
    using IsPushOnly_push [of sig "push_data [] pk"] IsPushOnly_push [of pk "[]"] l len by simp
qed

lemma CastToBool_vch [simp]: "CastToBool vchTrue" "\<not> CastToBool vchFalse"
  by (simp_all add: vchTrue_def vchFalse_def CastToBool_set_vch, code_simp+)

lemma not_p2sh: "length h = 20 \<Longrightarrow> \<not> IsPayToScriptHash (p2pkh_script h)"
  by (simp add: IsPayToScriptHash_def p2pkh_script_def length_push_20)

text \<open>
  C3: a pay-to-public-key-hash output with the hash \<open>h\<close> is spent by a signature script that pushes
  a signature and a public key exactly when the key hashes to \<open>h\<close> under RIPEMD-160 of SHA-256, both
  are encoded as the flags require, and the signature checker accepts the signature for that key and
  the output's script without the signature; under every combination of flags.
\<close>

theorem p2pkh_spend:
  assumes "length h = 20" "2 \<le> length sig" "length sig \<le> MAX_SCRIPT_ELEMENT_SIZE"
    "2 \<le> length pk" "length pk \<le> MAX_SCRIPT_ELEMENT_SIZE"
  shows "VerifyScript env (push_data [] sig @ push_data [] pk) (p2pkh_script h) = Ok () \<longleftrightarrow>
    rmd160 (fips_sha256 pk) = h \<and> sig_key_encoding env sig pk = Ok () \<and>
    CheckSig env sig pk (delete_sig (p2pkh_script h) sig)"
  using EvalScript_two_pushes [OF pushable_long [OF assms(2,3)] pushable_long [OF assms(4,5)]]
    sig_key_encoding_total [of env sig pk]
  by (cases "sig_key_encoding env sig pk")
    (auto simp: VerifyScript_def EvalScript_p2pkh [OF assms(1)] not_p2sh [OF assms(1)] Let_def)

theorem p2pkh_spend_witness:
  "VerifyScript \<lparr>flags = 0, CheckSig = \<lambda>_ _ _. True, CheckLowS = \<lambda>_. True\<rparr>
     (push_data [] [1, 2] @ push_data [] [3, 4]) (p2pkh_script (rmd160 (fips_sha256 [3, 4]))) = Ok ()"
  using p2pkh_spend [of "rmd160 (fips_sha256 [3, 4])" "[1, 2]" "[3, 4]"
      "\<lparr>flags = 0, CheckSig = \<lambda>_ _ _. True, CheckLowS = \<lambda>_. True\<rparr>"]
  by (simp add: MAX_SCRIPT_ELEMENT_SIZE_def sig_key_encoding_def CheckSignatureEncoding_def CheckPubKeyEncoding_def)

section \<open>Pay to script hash\<close>

lemma p2sh_loop:
  assumes "length h = 20" "vfExec s = []" "altstack s = []" "nOpCount s \<le> 190" "length (stack s) \<le> 999"
  shows "eval_loop env (p2sh_script h) s =
    (case rev (stack s) of [] \<Rightarrow> invalid_stack
     | v # r \<Rightarrow> Ok (s\<lparr>nOpCount := 2 + nOpCount s,
         stack := rev r @ [if rmd160 (fips_sha256 v) = h then vchTrue else vchFalse]\<rparr>))"
proof (cases "stack s" rule: rev_cases)
  case Nil
  then show ?thesis
    using assms by (simp add: p2sh_script_def eval_ops on_stack_def op_HASH_def)
next
  case (snoc st v)
  have p: "pushable env h" using assms(1) by (intro pushable_long) (simp_all add: MAX_SCRIPT_ELEMENT_SIZE_def)
  have "eval_loop env (p2sh_script h) s = eval_loop env (push_data [] h @ [of_nat OP_EQUAL])
      (s\<lparr>nOpCount := 1 + nOpCount s, stack := st @ [rmd160 (fips_sha256 v)]\<rparr>)"
    using assms snoc
    by (simp add: p2sh_script_def eval_ops next_iteration_def on_stack_def op_HASH_def hash_value_eq add.commute)
  also have "\<dots> = eval_loop env [of_nat OP_EQUAL]
      (s\<lparr>nOpCount := 1 + nOpCount s, stack := st @ [rmd160 (fips_sha256 v), h]\<rparr>)"
    using assms snoc by (subst eval_loop_push [OF p]) simp_all
  also have "\<dots> = Ok (s\<lparr>nOpCount := 2 + nOpCount s,
      stack := st @ [if rmd160 (fips_sha256 v) = h then vchTrue else vchFalse]\<rparr>)"
    using assms snoc by (simp add: eval_ops next_iteration_def on_stack_def op_EQUAL_snoc)
  finally show ?thesis using snoc by simp
qed

lemma EvalScript_p2sh:
  assumes "length h = 20" "length st \<le> 998"
  shows "EvalScript env [] (p2sh_script h) = invalid_stack"
    "EvalScript env (st @ [v]) (p2sh_script h) =
       Ok (st @ [if rmd160 (fips_sha256 v) = h then vchTrue else vchFalse])"
  using assms
  by (simp_all add: EvalScript_def p2sh_loop initial_state_def, simp_all add: p2sh_script_def length_push_20)

lemma byte_of_unat: "unat (b :: byte) = n \<Longrightarrow> b = of_nat n"
  by auto

lemma list_23:
  assumes "length xs = 23"
  shows "xs = xs ! 0 # xs ! 1 # take 20 (drop 2 xs) @ [xs ! 22]"
proof -
  have 1: "xs = xs ! 0 # xs ! 1 # drop 2 xs"
    using assms Cons_nth_drop_Suc [of 0 xs] Cons_nth_drop_Suc [of 1 xs] by (simp add: numeral_2_eq_2)
  have 2: "drop 22 xs = [xs ! 22]" using assms Cons_nth_drop_Suc [of 22 xs] by simp
  have 3: "drop 2 xs = take 20 (drop 2 xs) @ drop 22 xs"
    using append_take_drop_id [of 20 "drop 2 xs"] by simp
  show ?thesis using 1 unfolding 3 [unfolded 2, symmetric] .
qed

lemma IsPayToScriptHash_iff: "IsPayToScriptHash script \<longleftrightarrow> (\<exists>h. length h = 20 \<and> script = p2sh_script h)"
proof
  assume a: "IsPayToScriptHash script"
  have len: "length script = 23" using a by (simp add: IsPayToScriptHash_def)
  have "unat (script ! 0) = OP_HASH160" "script ! 1 = 0x14" "unat (script ! 22) = OP_EQUAL"
    using a by (simp_all add: IsPayToScriptHash_def)
  then have b: "script ! 0 = of_nat OP_HASH160" "script ! 1 = 0x14" "script ! 22 = of_nat OP_EQUAL"
    by (simp_all only: byte_of_unat)
  have h: "length (take 20 (drop 2 script)) = 20" using len by simp
  have "p2sh_script (take 20 (drop 2 script)) = script"
    using list_23 [OF len] unfolding b p2sh_script_def length_push_20 [OF h] by simp
  with h show "\<exists>h. length h = 20 \<and> script = p2sh_script h" by metis
qed (auto simp: IsPayToScriptHash_def p2sh_script_def length_push_20 nth_append nth_Cons')

text \<open>
  C4: a pay-to-script-hash output with the hash \<open>h\<close>, under the \<open>SCRIPT_VERIFY_P2SH\<close> flag, is spent by a
  signature script that pushes the stack \<open>st\<close> and on top of it a script \<open>redeem\<close>, exactly when \<open>redeem\<close>
  hashes to \<open>h\<close>, the signature script is push-only, and running \<open>redeem\<close> on \<open>st\<close> succeeds and leaves
  a true value on top.
\<close>

theorem p2sh_spend:
  assumes "flags env AND SCRIPT_VERIFY_P2SH \<noteq> 0" "length h = 20"
    and "EvalScript env [] scriptSig = Ok (st @ [redeem])" "length st \<le> 998"
  shows "VerifyScript env scriptSig (p2sh_script h) = Ok () \<longleftrightarrow>
    rmd160 (fips_sha256 redeem) = h \<and> IsPushOnly scriptSig \<and>
    (\<exists>st'. EvalScript env st redeem = Ok st' \<and> st' \<noteq> [] \<and> CastToBool (last st'))"
proof -
  have p: "IsPayToScriptHash (p2sh_script h)" using assms(2) by (auto simp: IsPayToScriptHash_iff)
  show ?thesis
    using assms p EvalScript_p2sh(2) [OF assms(2,4), of env redeem]
    by (cases "EvalScript env st redeem") (auto simp: VerifyScript_def Let_def)
qed

theorem p2sh_spend_witness:
  "VerifyScript \<lparr>flags = SCRIPT_VERIFY_P2SH, CheckSig = \<lambda>_ _ _. False, CheckLowS = \<lambda>_. True\<rparr>
     (push_data [] [7, 7] @ push_data [] [0x76, 0x87]) (p2sh_script (rmd160 (fips_sha256 [0x76, 0x87]))) = Ok ()"
proof -
  let ?env = "\<lparr>flags = SCRIPT_VERIFY_P2SH, CheckSig = \<lambda>_ _ _. False, CheckLowS = \<lambda>_. True\<rparr> :: script_env"
  have "EvalScript ?env [[7, 7]] [0x76, 0x87] = Ok [vchTrue]"
    using op_EQUAL_snoc [of False "[]" "[7, 7]" "[7, 7]"] stacktop_snoc(1) [of "[]" "[7, 7]"]
    by (simp add: EvalScript_def eval_ops next_iteration_def on_stack_def op_DUP_def initial_state_def)
  moreover have "pushable ?env [7, 7]" "pushable ?env [0x76, 0x87]"
    by (simp_all add: pushable_long MAX_SCRIPT_ELEMENT_SIZE_def)
  note EvalScript_two_pushes [OF this]
  ultimately show ?thesis
    using p2sh_spend [of ?env "rmd160 (fips_sha256 [0x76, 0x87])"
        "push_data [] [7, 7] @ push_data [] [0x76, 0x87]" "[[7, 7]]" "[0x76, 0x87]"]
    by (simp add: SCRIPT_VERIFY_P2SH_def)
qed

lemma result_within_limits_cases:
  assumes "result_within_limits r"
  obtains (ok) st where "r = Ok st" "stack_ok st" "length st \<le> 1000" | (fail) e where "r = Fail e"
  using assms by (auto simp: result_within_limits_def split: outcome.splits)

text \<open>
  C7: \<open>VerifyScript\<close> ends for every pair of scripts with success or an error code: no exception leaves
  it, and its assertion \<open>!stackCopy.empty()\<close> holds whenever it is reached, as the comment before it
  argues.
\<close>

theorem verify_script_total:
  "VerifyScript env scriptSig scriptPubKey = Ok () \<or> (\<exists>e. VerifyScript env scriptSig scriptPubKey = Fail e)"
proof -
  have "result_within_limits (EvalScript env [] scriptSig)" by (rule EvalScript_total) simp_all
  then show ?thesis
  proof (cases rule: result_within_limits_cases)
    case (ok st)
    note sig = ok
    from EvalScript_total [OF ok(2,3), of env scriptPubKey] show ?thesis
    proof (cases rule: result_within_limits_cases)
      case (ok st')
      have copy: "st \<noteq> []" if "IsPayToScriptHash scriptPubKey"
        using that ok EvalScript_p2sh(1) [of _ "[]" env] by (auto simp: IsPayToScriptHash_iff)
      have "stack_ok (butlast st)" "length (butlast st) \<le> 1000"
        using sig by (auto intro: stack_ok_subset dest: in_set_butlastD)
      from EvalScript_total [OF this, of env "last st"] show ?thesis
        using sig ok copy
        by (cases rule: result_within_limits_cases) (auto simp: VerifyScript_def Let_def popstack_def)
    qed (use sig in \<open>auto simp: VerifyScript_def Let_def\<close>)
  qed (auto simp: VerifyScript_def)
qed

end
