(* ===== verification/Serialize.thy ===== *)
theory Serialize
  imports Hash
begin

text \<open>
  Serialization, \<open>src/src/serialize.h\<close> and the byte stream of \<open>src/src/streams.h\<close>. Writing is a
  function to the bytes appended to the stream; reading takes the bytes that are left in the stream
  and returns the value and what remains, or throws. The locale \<open>codec\<close> is the contract between the
  two that the rest of the program relies on: what was written is read back, and the reader stops
  exactly behind it. It is interpreted on the integers, compact sizes, scripts and vectors here and on
  transactions in the theory of that component.
\<close>

section \<open>Reading and writing bytes\<close>

type_synonym 'a reader = "byte list \<Rightarrow> (unit, 'a \<times> byte list) outcome"

definition READDATA :: "nat \<Rightarrow> byte list reader" where
  "READDATA n s = (if n \<le> length s then Ok (take n s, drop n s) else Throw ios_failure)"

text \<open>An object of a built-in integer type is written as its memory image.\<close>

definition Serialize_word :: "'a :: len word \<Rightarrow> byte list" where
  "Serialize_word w = le_encode (LENGTH('a) div 8) (unat w)"

definition Unserialize_word :: "'a :: len word reader" where
  "Unserialize_word s =
     bindO (READDATA (LENGTH('a) div 8) s) (\<lambda>(b, s). Ok (of_nat (le_decode b), s))"

section \<open>Compact sizes\<close>

definition MAX_SIZE :: nat where "MAX_SIZE = 0x02000000"

definition GetSizeOfCompactSize :: "uint64 \<Rightarrow> nat" where
  "GetSizeOfCompactSize nSize =
     (if nSize < 253 then 1 else if nSize \<le> 0xffff then 1 + 2 else if nSize \<le> 0xffffffff then 1 + 4 else 1 + 8)"

definition WriteCompactSize :: "uint64 \<Rightarrow> byte list" where
  "WriteCompactSize nSize =
     (if nSize < 253 then Serialize_word (ucast nSize :: 8 word)
      else if nSize \<le> 0xffff then Serialize_word (253 :: 8 word) @ Serialize_word (ucast nSize :: 16 word)
      else if nSize \<le> 0xffffffff then Serialize_word (254 :: 8 word) @ Serialize_word (ucast nSize :: 32 word)
      else Serialize_word (255 :: 8 word) @ Serialize_word (nSize :: 64 word))"

definition ReadCompactSize :: "uint64 reader" where
  "ReadCompactSize is =
     bindO (Unserialize_word is) (\<lambda>(chSize :: 8 word, is).
     bindO
       (if chSize < 253 then Ok (ucast chSize, is)
        else if chSize = 253
        then bindO (Unserialize_word is) (\<lambda>(xSize :: 16 word, is).
               let nSizeRet = ucast xSize in if nSizeRet < 253 then Throw ios_failure else Ok (nSizeRet, is))
        else if chSize = 254
        then bindO (Unserialize_word is) (\<lambda>(xSize :: 32 word, is).
               let nSizeRet = ucast xSize in if nSizeRet < 0x10000 then Throw ios_failure else Ok (nSizeRet, is))
        else bindO (Unserialize_word is) (\<lambda>(xSize :: 64 word, is).
               let nSizeRet = xSize in if nSizeRet < 0x100000000 then Throw ios_failure else Ok (nSizeRet, is)))
       (\<lambda>(nSizeRet :: 64 word, is).
         if nSizeRet > of_nat MAX_SIZE then Throw ios_failure else Ok (nSizeRet, is)))"

section \<open>Variable-length integers\<close>

lemma unat_shift_7: "unat (drop_bit 7 (n :: 'a :: len word)) = unat n div 128"
  unfolding unat_drop_bit_eq by (simp add: drop_bit_eq_div)

lemma varint_next:
  assumes "\<not> unat (n :: 'a :: len word) \<le> 0x7F"
  shows "unat (drop_bit 7 n - 1) = unat n div 128 - 1" "drop_bit 7 n - 1 + 1 = drop_bit 7 n"
proof -
  have "unat (drop_bit 7 n) \<noteq> 0" using assms by (simp add: unat_shift_7 div_eq_0_iff)
  then have "drop_bit 7 n \<noteq> 0" by (metis unat_0)
  then show "unat (drop_bit 7 n - 1) = unat n div 128 - 1" by (simp add: unat_minus_one unat_shift_7)
qed simp

text \<open>
  The buffer \<open>tmp\<close> of \<open>WriteVarInt\<close>, from index 0 on. It is an array of \<open>(sizeof(n) * 8 + 6) / 7\<close> bytes;
  that the loop stays inside is \<open>length_varint_tmp\<close> below.
\<close>

function varint_tmp :: "nat \<Rightarrow> 'a :: len word \<Rightarrow> byte list" where
  "varint_tmp len n =
     (ucast (n AND 0x7F) OR (if len \<noteq> 0 then 0x80 else 0x00)) #
     (if unat n \<le> 0x7F then [] else varint_tmp (Suc len) (drop_bit 7 n - 1))"
  by pat_completeness auto
termination
  by (relation "measure (\<lambda>(len, n). unat n)") (auto simp: varint_next)

declare varint_tmp.simps [simp del]

definition WriteVarInt :: "'a :: len word \<Rightarrow> byte list" where
  "WriteVarInt n = rev (varint_tmp 0 n)"

function GetSizeOfVarInt :: "'a :: len word \<Rightarrow> nat" where
  "GetSizeOfVarInt n = (if unat n \<le> 0x7F then 1 else 1 + GetSizeOfVarInt (drop_bit 7 n - 1))"
  by pat_completeness auto
termination
  by (relation "measure unat") (auto simp: varint_next)

declare GetSizeOfVarInt.simps [simp del]

fun read_varint :: "'a :: len word \<Rightarrow> 'a word reader" where
  "read_varint n [] = Throw ios_failure"
| "read_varint n (chData # is) =
     (let n = push_bit 7 n OR ucast (chData AND 0x7F)
      in if chData AND 0x80 \<noteq> 0 then read_varint (n + 1) is else Ok (n, is))"

definition ReadVarInt :: "'a :: len word reader" where
  "ReadVarInt is = read_varint 0 is"

lemma mask_7: "(0x7F :: 'a :: len word) = mask 7"
  by (simp add: mask_eq_exp_minus_1)

lemma bit_80: "bit (0x80 :: byte) i \<longleftrightarrow> i = 7" "bit (0x80 :: int) i \<longleftrightarrow> i = 7"
  using bit_push_bit_iff [of 7 "1 :: byte" i] bit_push_bit_iff [of 7 "1 :: int" i]
  by (auto simp: push_bit_eq_mult bit_1_iff)

lemma varint_byte:
  fixes n :: "'a :: len word"
  assumes "8 \<le> LENGTH('a)"
  shows "ucast ((ucast (n AND 0x7F) OR (if len \<noteq> 0 then 0x80 else 0x00) :: byte) AND 0x7F) = n AND 0x7F"
    "(ucast (n AND 0x7F) OR (if len \<noteq> 0 then 0x80 else 0x00) :: byte) AND 0x80 = (if len \<noteq> 0 then 0x80 else 0)"
  unfolding mask_7 using assms by (auto intro!: bit_word_eqI simp: bit_simps bit_80)

lemma varint_join: "push_bit 7 (drop_bit 7 n) OR (n AND 0x7F) = (n :: 'a :: len word)"
  unfolding mask_7 by (auto simp: bit_eq_iff bit_simps)

lemma read_varint_tmp:
  fixes n :: "'a :: len word"
  assumes "8 \<le> LENGTH('a)"
  shows "read_varint 0 (rev (varint_tmp len n) @ rest) =
    (if len = 0 then Ok (n, rest) else read_varint (n + 1) rest)"
proof (induction len n arbitrary: rest rule: varint_tmp.induct)
  case (1 len n)
  let ?c = "if len \<noteq> 0 then 0x80 else 0x00 :: byte"
  note b = varint_byte [OF assms, of n len]
  show ?case
  proof (cases "unat n \<le> 0x7F")
    case True
    then have "n AND 0x7F = n"
      unfolding mask_7 by (simp add: take_bit_eq_mask [symmetric] word_unat_eq_iff unsigned_take_bit_eq take_bit_nat_eq_self_iff)
    with True b show ?thesis by (simp add: varint_tmp.simps [of len n])
  next
    case False
    have "read_varint 0 (rev (varint_tmp len n) @ rest) =
        read_varint (drop_bit 7 n) ((ucast (n AND 0x7F) OR ?c) # rest)"
      using "1.IH" [OF False, of "(ucast (n AND 0x7F) OR ?c) # rest"] False varint_next(2) [OF False]
      by (simp add: varint_tmp.simps [of len n])
    then show ?thesis using b by (simp add: varint_join)
  qed
qed

lemma GetSizeOfVarInt_eq: "GetSizeOfVarInt n = length (varint_tmp len n)"
  by (induction len n rule: varint_tmp.induct)
    (simp add: GetSizeOfVarInt.simps [of n for n] varint_tmp.simps)

lemma length_varint_tmp_le: "0 < k \<Longrightarrow> unat n < 128 ^ k \<Longrightarrow> length (varint_tmp len n) \<le> k"
proof (induction len n arbitrary: k rule: varint_tmp.induct)
  case (1 len n)
  show ?case
  proof (cases "unat n \<le> 0x7F")
    case False
    have k: "1 < k" using False "1.prems" by (cases k; cases "k - 1") auto
    then have "unat n div 128 < 128 ^ (k - 1)"
      using "1.prems" by (intro less_mult_imp_div_less) (simp flip: power_Suc2)
    then have "length (varint_tmp (Suc len) (drop_bit 7 n - 1)) \<le> k - 1"
      using k by (intro "1.IH" [OF False]) (simp_all add: varint_next [OF False])
    then show ?thesis using False k by (simp add: varint_tmp.simps [of len n])
  qed (use "1.prems" in \<open>simp add: varint_tmp.simps [of len n]\<close>)
qed

lemma length_varint_tmp: "length (varint_tmp 0 (n :: 'a :: len word)) \<le> (LENGTH('a) + 6) div 7"
proof (rule length_varint_tmp_le)
  have "unat n < 2 ^ LENGTH('a)" by (rule unsigned_less)
  also have "\<dots> \<le> 2 ^ (7 * ((LENGTH('a) + 6) div 7))" by (intro power_increasing) linarith+
  finally show "unat n < 128 ^ ((LENGTH('a) + 6) div 7)" by (simp add: power_mult)
  have "1 \<le> LENGTH('a)" using len_gt_0 [where 'a = 'a] by linarith
  then show "0 < (LENGTH('a) + 6) div 7" by linarith
qed

section \<open>The contract between writing and reading\<close>

locale codec =
  fixes ser :: "'a \<Rightarrow> byte list" and unser :: "'a reader" and wf :: "'a \<Rightarrow> bool"
  assumes unser_ser: "wf x \<Longrightarrow> unser (ser x @ rest) = Ok (x, rest)"
begin

lemma ser_inject: "wf x \<Longrightarrow> wf y \<Longrightarrow> ser x @ r = ser y @ r' \<Longrightarrow> x = y \<and> r = r'"
  by (metis outcome.inject(1) prod.inject unser_ser)

lemma prefix_free: "wf x \<Longrightarrow> wf y \<Longrightarrow> prefix (ser x) (ser y) \<Longrightarrow> x = y"
  by (metis append_Nil2 prefix_def ser_inject)

end

fun unser_items :: "'a reader \<Rightarrow> nat \<Rightarrow> 'a list reader" where
  "unser_items unser 0 s = Ok ([], s)"
| "unser_items unser (Suc n) s =
     bindO (unser s) (\<lambda>(x, s). bindO (unser_items unser n s) (\<lambda>(xs, s). Ok (x # xs, s)))"

context codec
begin

lemma unser_items_concat: "list_all wf xs \<Longrightarrow> unser_items unser (length xs) (concat (map ser xs) @ rest) = Ok (xs, rest)"
  by (induction xs arbitrary: rest) (simp_all add: unser_ser)

lemma bind_unser: "wf x \<Longrightarrow> bindO (unser (ser x @ rest)) f = f (x, rest)"
  by (simp add: unser_ser)

end

lemma READDATA_append [simp]: "length b = n \<Longrightarrow> READDATA n (b @ rest) = Ok (b, rest)"
  by (simp add: READDATA_def)

lemma Unserialize_word_encode:
  fixes w :: "'a :: len word"
  assumes "8 dvd LENGTH('a)"
  shows "Unserialize_word (Serialize_word w @ rest) = Ok (w, rest)"
proof -
  have "(256 :: nat) ^ (LENGTH('a) div 8) = 2 ^ LENGTH('a)"
    using assms power_mult [of "2 :: nat" 8 "LENGTH('a) div 8"] by simp
  then have "unat w mod 256 ^ (LENGTH('a) div 8) = unat w"
    using unsigned_less [of w] by simp
  then show ?thesis
    by (simp add: Unserialize_word_def Serialize_word_def le_decode_encode)
qed

interpretation word8: codec "Serialize_word :: 8 word \<Rightarrow> byte list" Unserialize_word "\<lambda>_. True"
  by unfold_locales (rule Unserialize_word_encode, simp)

interpretation word16: codec "Serialize_word :: 16 word \<Rightarrow> byte list" Unserialize_word "\<lambda>_. True"
  by unfold_locales (rule Unserialize_word_encode, simp)

interpretation word32: codec "Serialize_word :: 32 word \<Rightarrow> byte list" Unserialize_word "\<lambda>_. True"
  by unfold_locales (rule Unserialize_word_encode, simp)

interpretation word64: codec "Serialize_word :: 64 word \<Rightarrow> byte list" Unserialize_word "\<lambda>_. True"
  by unfold_locales (rule Unserialize_word_encode, simp)

interpretation word256: codec "Serialize_word :: 256 word \<Rightarrow> byte list" Unserialize_word "\<lambda>_. True"
  by unfold_locales (rule Unserialize_word_encode, simp)

interpretation varint32: codec "WriteVarInt :: 32 word \<Rightarrow> byte list" ReadVarInt "\<lambda>_. True"
  by unfold_locales (simp add: WriteVarInt_def ReadVarInt_def read_varint_tmp)

interpretation varint64: codec "WriteVarInt :: 64 word \<Rightarrow> byte list" ReadVarInt "\<lambda>_. True"
  by unfold_locales (simp add: WriteVarInt_def ReadVarInt_def read_varint_tmp)

lemma ucast_ucast_small:
  fixes n :: uint64
  shows "n < 253 \<Longrightarrow> ucast (ucast n :: 8 word) = n" "n \<le> 0xffff \<Longrightarrow> ucast (ucast n :: 16 word) = n"
    "n \<le> 0xffffffff \<Longrightarrow> ucast (ucast n :: 32 word) = n"
  by (simp_all add: word_unat_eq_iff word_less_nat_alt word_le_nat_alt unsigned_ucast_eq unsigned_take_bit_eq take_bit_nat_def)

lemma ReadCompactSize_Write:
  assumes "unat n \<le> MAX_SIZE"
  shows "ReadCompactSize (WriteCompactSize n @ rest) = Ok (n, rest)"
proof -
  have "n \<le> of_nat MAX_SIZE" using assms by (simp add: word_le_nat_alt MAX_SIZE_def)
  then have max: "\<not> of_nat MAX_SIZE < n" "n \<le> 0xffffffff"
    by (auto simp: MAX_SIZE_def word_le_nat_alt word_less_nat_alt)
  consider "n < 253" | "\<not> n < 253" "n \<le> 0xffff" | "\<not> n < 253" "\<not> n \<le> 0xffff" by blast
  then show ?thesis
  proof cases
    case 1
    moreover from 1 have "(ucast n :: 8 word) < 253"
      by (simp add: word_less_nat_alt unsigned_ucast_eq take_bit_nat_def)
    ultimately show ?thesis
      using max(1) by (simp add: ReadCompactSize_def WriteCompactSize_def word8.bind_unser ucast_ucast_small)
  next
    case 2
    then show ?thesis
      using max(1) by (simp add: ReadCompactSize_def WriteCompactSize_def word8.bind_unser word16.bind_unser
          ucast_ucast_small Let_def)
  next
    case 3
    moreover from 3 have "\<not> n < 0x10000" by (auto simp: word_le_nat_alt word_less_nat_alt)
    ultimately show ?thesis
      using max by (simp add: ReadCompactSize_def WriteCompactSize_def word8.bind_unser word32.bind_unser
          ucast_ucast_small Let_def)
  qed
qed

interpretation compact: codec WriteCompactSize ReadCompactSize "\<lambda>n. unat n \<le> MAX_SIZE"
  by unfold_locales (rule ReadCompactSize_Write)

lemma Unserialize_word_split:
  fixes w :: "'a :: len word"
  assumes "Unserialize_word s = Ok (w, rest)" "8 dvd LENGTH('a)"
  shows "s = Serialize_word w @ rest"
proof -
  let ?k = "LENGTH('a) div 8"
  from assms(1) have k: "?k \<le> length s" and w: "w = of_nat (le_decode (take ?k s))" and r: "rest = drop ?k s"
    by (auto simp: Unserialize_word_def READDATA_def split: if_splits)
  have "(256 :: nat) ^ ?k = 2 ^ LENGTH('a)"
    using assms power_mult [of "2 :: nat" 8 ?k] by simp
  then have "le_decode (take ?k s) < 2 ^ LENGTH('a)"
    using le_decode_lt [of "take ?k s"] k by simp
  then have "unat w = le_decode (take ?k s)"
    unfolding w by (simp add: unsigned_of_nat take_bit_nat_eq_self)
  then have "Serialize_word w = take ?k s"
    using le_encode_decode [of "take ?k s"] k by (simp add: Serialize_word_def)
  then show ?thesis using r by simp
qed

lemma length_Serialize_word [simp]: "length (Serialize_word (w :: 'a :: len word)) = LENGTH('a) div 8"
  by (simp add: Serialize_word_def)

lemma length_WriteCompactSize: "length (WriteCompactSize n) = GetSizeOfCompactSize n"
  by (simp add: WriteCompactSize_def GetSizeOfCompactSize_def)

lemma WriteCompactSize_of_size:
  "(b :: 8 word) < 253 \<Longrightarrow> WriteCompactSize (ucast b) = Serialize_word b"
  "\<not> ucast (x :: 16 word) < (253 :: uint64) \<Longrightarrow>
     WriteCompactSize (ucast x) = Serialize_word (253 :: 8 word) @ Serialize_word x"
  "\<not> ucast (y :: 32 word) < (0x10000 :: uint64) \<Longrightarrow>
     WriteCompactSize (ucast y) = Serialize_word (254 :: 8 word) @ Serialize_word y"
  "\<not> z < (0x100000000 :: uint64) \<Longrightarrow>
     WriteCompactSize z = Serialize_word (255 :: 8 word) @ Serialize_word z"
proof -
  have bounds: "unat b < 2 ^ 8" "unat x < 2 ^ 16" "unat y < 2 ^ 32"
    using unsigned_less [of b] unsigned_less [of x] unsigned_less [of y] by simp_all
  have b64: "unat b < 18446744073709551616" using unat_byte_lt [of b] by linarith
  have casts: "ucast (ucast b :: uint64) = b" "ucast (ucast x :: uint64) = x" "ucast (ucast y :: uint64) = y"
    using bounds b64 by (simp_all add: word_unat_eq_iff unsigned_ucast_eq unsigned_take_bit_eq take_bit_nat_def)
  show "b < 253 \<Longrightarrow> WriteCompactSize (ucast b) = Serialize_word b"
    using casts b64 by (simp add: WriteCompactSize_def word_less_nat_alt unsigned_ucast_eq take_bit_nat_def)
  show "\<not> ucast x < (253 :: uint64) \<Longrightarrow>
      WriteCompactSize (ucast x) = Serialize_word (253 :: 8 word) @ Serialize_word x"
    using bounds casts
    by (simp add: WriteCompactSize_def word_less_nat_alt word_le_nat_alt unsigned_ucast_eq take_bit_nat_def)
  show "\<not> ucast y < (0x10000 :: uint64) \<Longrightarrow>
      WriteCompactSize (ucast y) = Serialize_word (254 :: 8 word) @ Serialize_word y"
    using bounds casts
    by (simp add: WriteCompactSize_def word_less_nat_alt word_le_nat_alt unsigned_ucast_eq take_bit_nat_def)
  show "\<not> z < (0x100000000 :: uint64) \<Longrightarrow>
      WriteCompactSize z = Serialize_word (255 :: 8 word) @ Serialize_word z"
    by (simp add: WriteCompactSize_def word_less_nat_alt word_le_nat_alt)
qed

lemma byte_255:
  assumes "\<not> b < 253" "b \<noteq> 253" "b \<noteq> 254"
  shows "b = (255 :: 8 word)"
proof -
  have "\<not> unat b < 253" "unat b \<noteq> 253" "unat b \<noteq> 254"
    using assms by (simp_all add: word_less_nat_alt word_unat_eq_iff)
  with unat_byte_lt [of b] have "unat b = 255" by linarith
  then show ?thesis by (simp add: word_unat_eq_iff)
qed

lemma ReadCompactSize_canonical:
  assumes "ReadCompactSize s = Ok (n, rest)"
  shows "s = WriteCompactSize n @ rest" "unat n \<le> MAX_SIZE"
proof -
  obtain b s1 where b: "Unserialize_word s = Ok (b :: 8 word, s1)"
    using assms by (auto simp: ReadCompactSize_def outcome_simps)
  have "\<not> of_nat MAX_SIZE < n"
    using assms by (auto simp: ReadCompactSize_def outcome_simps split: if_splits)
  then show "unat n \<le> MAX_SIZE" by (simp add: word_less_nat_alt MAX_SIZE_def)
  note s = Unserialize_word_split [OF b, simplified]
  show "s = WriteCompactSize n @ rest"
    unfolding s using assms [unfolded ReadCompactSize_def b] byte_255 [of b]
    by (auto simp: outcome_simps Let_def WriteCompactSize_of_size
        dest!: Unserialize_word_split split: if_splits)
qed

section \<open>Byte vectors, strings and vectors of objects\<close>

text \<open>A vector of bytes is read in blocks of at most five million bytes.\<close>

function read_blocks :: "nat \<Rightarrow> nat \<Rightarrow> byte list \<Rightarrow> byte list reader" where
  "read_blocks nSize i v is =
     (if i < nSize
      then let blk = min (nSize - i) (1 + 4999999 div 1) in
        bindO (READDATA blk is) (\<lambda>(d, is). read_blocks nSize (i + blk) (v @ d) is)
      else Ok (v, is))"
  by pat_completeness auto
termination
  by (relation "measure (\<lambda>(nSize, i, v, is). nSize - i)") auto

declare read_blocks.simps [simp del]

definition GetSerializeSize_bytes :: "byte list \<Rightarrow> nat" where
  "GetSerializeSize_bytes v = GetSizeOfCompactSize (of_nat (length v)) + length v * 1"

definition Serialize_bytes :: "byte list \<Rightarrow> byte list" where
  "Serialize_bytes v = WriteCompactSize (of_nat (length v)) @ (if v \<noteq> [] then v else [])"

definition Unserialize_bytes :: "byte list reader" where
  "Unserialize_bytes is = bindO (ReadCompactSize is) (\<lambda>(nSize, is). read_blocks (unat nSize) 0 [] is)"

text \<open>
  A vector of other objects is read element by element. The code grows the vector in steps of
  \<open>5000000 / sizeof(T)\<close> elements, which bounds the memory allocated ahead of the data but does not
  change what is read.
\<close>

definition GetSerializeSize_vector :: "('a \<Rightarrow> nat) \<Rightarrow> 'a list \<Rightarrow> nat" where
  "GetSerializeSize_vector sz v =
     foldl (\<lambda>nSize x. nSize + sz x) (GetSizeOfCompactSize (of_nat (length v))) v"

definition Serialize_vector :: "('a \<Rightarrow> byte list) \<Rightarrow> 'a list \<Rightarrow> byte list" where
  "Serialize_vector ser v = WriteCompactSize (of_nat (length v)) @ concat (map ser v)"

definition Unserialize_vector :: "'a reader \<Rightarrow> 'a list reader" where
  "Unserialize_vector unser is =
     bindO (ReadCompactSize is) (\<lambda>(nSize, is). unser_items unser (unat nSize) is)"

definition Serialize_pair :: "('a \<Rightarrow> byte list) \<Rightarrow> ('b \<Rightarrow> byte list) \<Rightarrow> 'a \<times> 'b \<Rightarrow> byte list" where
  "Serialize_pair ser1 ser2 item = ser1 (fst item) @ ser2 (snd item)"

definition Unserialize_pair :: "'a reader \<Rightarrow> 'b reader \<Rightarrow> ('a \<times> 'b) reader" where
  "Unserialize_pair unser1 unser2 is =
     bindO (unser1 is) (\<lambda>(a, is). bindO (unser2 is) (\<lambda>(b, is). Ok ((a, b), is)))"

definition Unserialize_LimitedString :: "nat \<Rightarrow> byte list reader" where
  "Unserialize_LimitedString Limit s =
     bindO (ReadCompactSize s) (\<lambda>(size, s).
       if unat size > Limit then Throw ios_failure
       else if size \<noteq> 0 then READDATA (unat size) s else Ok ([], s))"

lemma read_blocks_append:
  "i \<le> nSize \<Longrightarrow> length d = nSize - i \<Longrightarrow> read_blocks nSize i v (d @ rest) = Ok (v @ d, rest)"
proof (induction "nSize - i" arbitrary: i v d rule: less_induct)
  case less
  show ?case
  proof (cases "i < nSize")
    case True
    let ?blk = "min (nSize - i) 5000000"
    have "READDATA ?blk (take ?blk d @ drop ?blk d @ rest) = Ok (take ?blk d, drop ?blk d @ rest)"
      using less.prems by (intro READDATA_append) simp
    moreover have "take ?blk d @ drop ?blk d @ rest = d @ rest" by simp
    ultimately have "READDATA ?blk (d @ rest) = Ok (take ?blk d, drop ?blk d @ rest)" by metis
    moreover have "read_blocks nSize (i + ?blk) (v @ take ?blk d) (drop ?blk d @ rest) =
        Ok ((v @ take ?blk d) @ drop ?blk d, rest)"
      using less.prems True by (intro less.hyps) auto
    ultimately show ?thesis using True by (simp add: read_blocks.simps [of nSize i] Let_def)
  next
    case False
    then have "d = []" using less.prems by simp
    then show ?thesis using False by (simp add: read_blocks.simps)
  qed
qed

lemma unat_of_length: "n \<le> MAX_SIZE \<Longrightarrow> unat (of_nat n :: uint64) = n"
  by (simp add: MAX_SIZE_def unsigned_of_nat take_bit_nat_eq_self)

interpretation bytes: codec Serialize_bytes Unserialize_bytes "\<lambda>v. length v \<le> MAX_SIZE"
proof
  fix v rest assume len: "length (v :: byte list) \<le> MAX_SIZE"
  have s: "Serialize_bytes v @ rest = WriteCompactSize (of_nat (length v)) @ v @ rest"
    by (simp add: Serialize_bytes_def)
  show "Unserialize_bytes (Serialize_bytes v @ rest) = Ok (v, rest)"
    unfolding Unserialize_bytes_def s using len read_blocks_append [of 0 "length v" v "[]"]
    by (subst compact.bind_unser) (simp_all add: unat_of_length)
qed

context codec
begin

lemma vector_codec:
  "codec (Serialize_vector ser) (Unserialize_vector unser) (\<lambda>v. length v \<le> MAX_SIZE \<and> list_all wf v)"
proof
  fix v rest assume v: "length v \<le> MAX_SIZE \<and> list_all wf v"
  then show "Unserialize_vector unser (Serialize_vector ser v @ rest) = Ok (v, rest)"
    unfolding Unserialize_vector_def Serialize_vector_def append_assoc
    by (subst compact.bind_unser) (simp_all add: unat_of_length unser_items_concat)
qed

lemma pair_codec:
  assumes "codec ser' unser' wf'"
  shows "codec (Serialize_pair ser ser') (Unserialize_pair unser unser') (\<lambda>(a, b). wf a \<and> wf' b)"
proof
  fix x rest assume x: "(case x of (a, b) \<Rightarrow> wf a \<and> wf' b)"
  then show "Unserialize_pair unser unser' (Serialize_pair ser ser' x @ rest) = Ok (x, rest)"
    using codec.unser_ser [OF assms]
    by (cases x) (simp add: Unserialize_pair_def Serialize_pair_def unser_ser)
qed

end

section \<open>Properties\<close>

text \<open>
  C20: \<open>ReadCompactSize\<close> accepts exactly the bytes \<open>WriteCompactSize\<close> produces for sizes up to \<open>MAX_SIZE\<close>
  and reads that size from them: every size has one accepted encoding, which is as long as
  \<open>GetSizeOfCompactSize\<close> says.
\<close>

theorem compact_size_canonical:
  "(ReadCompactSize s = Ok (n, rest) \<longleftrightarrow> s = WriteCompactSize n @ rest \<and> unat n \<le> MAX_SIZE) \<and>
   length (WriteCompactSize n) = GetSizeOfCompactSize n"
  using ReadCompactSize_canonical ReadCompactSize_Write length_WriteCompactSize by blast

text \<open>
  C21: variable-length integers of 32 and of 64 bits are read back as written, the reader stops
  behind them, \<open>GetSizeOfVarInt\<close> is the number of bytes written, and the local buffer of
  \<open>WriteVarInt\<close> (5 bytes for 32 bits, 10 for 64) is never overrun.
\<close>

theorem varint_roundtrip:
  "ReadVarInt (WriteVarInt (n :: uint32) @ rest) = Ok (n, rest) \<and>
   ReadVarInt (WriteVarInt (m :: uint64) @ rest) = Ok (m, rest) \<and>
   length (WriteVarInt n) = GetSizeOfVarInt n \<and> length (WriteVarInt m) = GetSizeOfVarInt m \<and>
   length (varint_tmp 0 n) \<le> (32 + 6) div 7 \<and> length (varint_tmp 0 m) \<le> (64 + 6) div 7"
  using length_varint_tmp [of n] length_varint_tmp [of m]
  by (simp add: varint32.unser_ser varint64.unser_ser) (simp add: WriteVarInt_def GetSizeOfVarInt_eq [of _ 0])

text \<open>
  The comment on variable-length integers says that every integer has exactly one encoding. That
  holds of what \<open>WriteVarInt\<close> produces, but \<open>ReadVarInt\<close> has no overflow check: digits shifted out of the
  type are lost, and different byte strings are read as the same number.
\<close>

lemma varint_encoding_not_unique:
  "ReadVarInt [0x80, 0x80, 0x80, 0x80, 0x80, 0x00] = Ok (0x10204080 :: uint32, [])"
  "ReadVarInt [0x81, 0x80, 0x80, 0x80, 0x80, 0x00] = Ok (0x10204080 :: uint32, [])"
  by code_simp+

end
