(* ===== verification/Streams.thy ===== *)
theory Streams
  imports Serialize
begin

text \<open>
  \<open>CDataStream\<close> of \<open>src/src/streams.h\<close>: a byte vector with a 32-bit read position, which is cleared
  whenever the position reaches the end. The abstraction is the list of unread bytes; every operation
  is shown to act on it as its name says, so that code written against the stream may be reasoned
  about with lists. The interface is the locale \<open>byte_queue\<close>.
\<close>

section \<open>The stream and its operations\<close>

record CDataStream =
  vch :: "byte list"
  nReadPos :: uint32

definition CDataStream_of :: "byte list \<Rightarrow> CDataStream" where
  "CDataStream_of vchIn = \<lparr>vch = vchIn, nReadPos = 0\<rparr>"

definition ds_str :: "CDataStream \<Rightarrow> byte list" where
  "ds_str ds = drop (unat (nReadPos ds)) (vch ds)"

definition ds_size :: "CDataStream \<Rightarrow> nat" where
  "ds_size ds = length (vch ds) - unat (nReadPos ds)"

definition ds_empty :: "CDataStream \<Rightarrow> bool" where
  "ds_empty ds \<longleftrightarrow> length (vch ds) = unat (nReadPos ds)"

definition ds_resize :: "nat \<Rightarrow> byte \<Rightarrow> CDataStream \<Rightarrow> CDataStream" where
  "ds_resize n c ds =
     (let k = n + unat (nReadPos ds)
      in ds\<lparr>vch := take k (vch ds) @ replicate (k - length (vch ds)) c\<rparr>)"

definition ds_clear :: "CDataStream \<Rightarrow> CDataStream" where
  "ds_clear ds = ds\<lparr>vch := [], nReadPos := 0\<rparr>"

definition ds_append :: "CDataStream \<Rightarrow> CDataStream \<Rightarrow> CDataStream" where
  "ds_append ds b = ds\<lparr>vch := vch ds @ ds_str b\<rparr>"

text \<open>Iterators into the vector are indices. \<open>insert\<close> of a range, \<open>erase\<close> of one byte and of a range.\<close>

definition ds_insert :: "nat \<Rightarrow> byte list \<Rightarrow> CDataStream \<Rightarrow> CDataStream" where
  "ds_insert it xs ds =
     (if it = unat (nReadPos ds) \<and> unat (of_nat (length xs) :: uint32) \<le> unat (nReadPos ds)
      then let p = nReadPos ds - of_nat (length xs)
           in ds\<lparr>nReadPos := p, vch := take (unat p) (vch ds) @ xs @ drop (unat p + length xs) (vch ds)\<rparr>
      else ds\<lparr>vch := take it (vch ds) @ xs @ drop it (vch ds)\<rparr>)"

definition ds_erase1 :: "nat \<Rightarrow> CDataStream \<Rightarrow> CDataStream" where
  "ds_erase1 it ds =
     (if it = unat (nReadPos ds)
      then let p = nReadPos ds + 1
           in if unat p \<ge> length (vch ds) then ds\<lparr>nReadPos := 0, vch := []\<rparr> else ds\<lparr>nReadPos := p\<rparr>
      else ds\<lparr>vch := take it (vch ds) @ drop (it + 1) (vch ds)\<rparr>)"

definition ds_erase :: "nat \<Rightarrow> nat \<Rightarrow> CDataStream \<Rightarrow> CDataStream" where
  "ds_erase first_it last_it ds =
     (if first_it = unat (nReadPos ds)
      then if last_it = length (vch ds) then ds\<lparr>nReadPos := 0, vch := []\<rparr> else ds\<lparr>nReadPos := of_nat last_it\<rparr>
      else ds\<lparr>vch := take first_it (vch ds) @ drop last_it (vch ds)\<rparr>)"

definition ds_Compact :: "CDataStream \<Rightarrow> CDataStream" where
  "ds_Compact ds = ds\<lparr>vch := drop (unat (nReadPos ds)) (vch ds), nReadPos := 0\<rparr>"

definition ds_Rewind :: "nat \<Rightarrow> CDataStream \<Rightarrow> bool \<times> CDataStream" where
  "ds_Rewind n ds =
     (if n > unat (nReadPos ds) then (False, ds) else (True, ds\<lparr>nReadPos := nReadPos ds - of_nat n\<rparr>))"

text \<open>\<open>memcpy(pch, &vch[nReadPos], nSize)\<close>: copying from outside the vector is undefined.\<close>

definition ds_memcpy :: "nat \<Rightarrow> CDataStream \<Rightarrow> (unit, byte list) outcome" where
  "ds_memcpy nSize ds =
     (if unat (nReadPos ds) + nSize \<le> length (vch ds)
      then Ok (take nSize (drop (unat (nReadPos ds)) (vch ds))) else Abort)"

definition ds_read :: "nat \<Rightarrow> CDataStream \<Rightarrow> (unit, byte list \<times> CDataStream) outcome" where
  "ds_read nSize ds =
     (let nReadPosNext = nReadPos ds + of_nat nSize in
      if unat nReadPosNext \<ge> length (vch ds)
      then if unat nReadPosNext > length (vch ds) then Throw ios_failure
           else bindO (ds_memcpy nSize ds) (\<lambda>pch. Ok (pch, ds\<lparr>nReadPos := 0, vch := []\<rparr>))
      else bindO (ds_memcpy nSize ds) (\<lambda>pch. Ok (pch, ds\<lparr>nReadPos := nReadPosNext\<rparr>)))"

definition ds_ignore :: "int \<Rightarrow> CDataStream \<Rightarrow> (unit, CDataStream) outcome" where
  "ds_ignore nSize ds =
     (if \<not> nSize \<ge> 0 then Abort
      else let nReadPosNext = nReadPos ds + of_int nSize in
        if unat nReadPosNext \<ge> length (vch ds)
        then if unat nReadPosNext > length (vch ds) then Throw ios_failure
             else Ok (ds\<lparr>nReadPos := 0, vch := []\<rparr>)
        else Ok (ds\<lparr>nReadPos := nReadPosNext\<rparr>))"

definition ds_write :: "byte list \<Rightarrow> CDataStream \<Rightarrow> CDataStream" where
  "ds_write pch ds = ds\<lparr>vch := vch ds @ pch\<rparr>"

text \<open>What \<open>s << ds\<close> writes to another stream.\<close>

definition ds_Serialize :: "CDataStream \<Rightarrow> byte list" where
  "ds_Serialize ds = (if vch ds \<noteq> [] then vch ds else [])"

definition ds_GetAndClear :: "byte list \<Rightarrow> CDataStream \<Rightarrow> byte list \<times> CDataStream" where
  "ds_GetAndClear data ds = (data @ ds_str ds, ds_clear ds)"

section \<open>The stream is a queue of bytes\<close>

text \<open>The read position is inside the vector, and the vector is below two gibibytes.\<close>

definition ds_ok :: "CDataStream \<Rightarrow> bool" where
  "ds_ok ds \<longleftrightarrow> unat (nReadPos ds) \<le> length (vch ds) \<and> length (vch ds) < 2 ^ 31"

locale byte_queue =
  fixes contents :: "'s \<Rightarrow> byte list" and ok :: "'s \<Rightarrow> bool"
    and put :: "byte list \<Rightarrow> 's \<Rightarrow> 's" and get :: "nat \<Rightarrow> 's \<Rightarrow> (unit, byte list \<times> 's) outcome"
  assumes contents_write: "ok s \<Longrightarrow> contents (put b s) = contents s @ b"
    and read_ok: "ok s \<Longrightarrow> n \<le> length (contents s) \<Longrightarrow>
      \<exists>s'. get n s = Ok (take n (contents s), s') \<and> contents s' = drop n (contents s) \<and> ok s'"
    and read_end: "ok s \<Longrightarrow> length (contents s) < n \<Longrightarrow> n < 2 ^ 31 \<Longrightarrow> get n s = Throw ios_failure"
begin

text \<open>Bytes come out in the order they were put in.\<close>

lemma fifo:
  assumes "ok s" "ok (put b s)" "contents s = []"
  shows "\<exists>s'. get (length b) (put b s) = Ok (b, s') \<and> contents s' = []"
  using read_ok [OF assms(2), of "length b"] contents_write [OF assms(1), of b] assms(3) by auto

lemma READDATA_refined:
  assumes "ok s" "n < 2 ^ 31" "READDATA n (contents s) = Ok (b, rest)"
  shows "\<exists>s'. get n s = Ok (b, s') \<and> contents s' = rest \<and> ok s'"
  using assms read_ok [OF assms(1), of n] by (auto simp: READDATA_def split: if_splits)

end

lemma add_unat_32:
  fixes p :: uint32
  shows "unat p + n < 2 ^ 32 \<Longrightarrow> unat (p + of_nat n) = unat p + n"
  by (simp add: unat_word_ariths unsigned_of_nat take_bit_nat_def)

lemma ds_read_refines:
  assumes "ds_ok ds" "n < 2 ^ 31"
  shows "ds_read n ds =
    (if n \<le> length (ds_str ds)
     then Ok (take n (ds_str ds),
       if n = length (ds_str ds) then ds_clear ds else ds\<lparr>nReadPos := nReadPos ds + of_nat n\<rparr>)
     else Throw ios_failure)"
proof -
  have "unat (nReadPos ds + of_nat n) = unat (nReadPos ds) + n"
    using assms by (intro add_unat_32) (simp add: ds_ok_def)
  then show ?thesis
    using assms by (auto simp: ds_read_def ds_memcpy_def ds_str_def ds_clear_def ds_ok_def Let_def)
qed

interpretation ds: byte_queue ds_str ds_ok ds_write ds_read
proof
  fix s b assume "ds_ok s"
  then show "ds_str (ds_write b s) = ds_str s @ b" by (simp add: ds_ok_def ds_str_def ds_write_def)
next
  fix s n assume ok: "ds_ok s" and n: "n \<le> length (ds_str s)"
  then have n31: "n < 2 ^ 31" by (auto simp: ds_ok_def ds_str_def)
  have next_pos: "unat (nReadPos s + of_nat n) = unat (nReadPos s) + n"
    using ok n31 by (intro add_unat_32) (simp add: ds_ok_def)
  show "\<exists>s'. ds_read n s = Ok (take n (ds_str s), s') \<and> ds_str s' = drop n (ds_str s) \<and> ds_ok s'"
    using ok n next_pos
    by (auto simp: ds_read_refines [OF ok n31] ds_clear_def ds_str_def ds_ok_def add.commute)
next
  fix s :: CDataStream and n :: nat
  assume "ds_ok s" "length (ds_str s) < n" "n < 2 ^ 31"
  then show "ds_read n s = Throw ios_failure" by (simp add: ds_read_refines)
qed

text \<open>Insertion and removal at any position \<open>j\<close> of the unread bytes; only position 0 has code of its own.\<close>

lemma ds_insert_refines:
  assumes "ds_ok ds" "length xs < 2 ^ 32" "j \<le> length (ds_str ds)"
  shows "ds_str (ds_insert (unat (nReadPos ds) + j) xs ds) = take j (ds_str ds) @ xs @ drop j (ds_str ds)"
proof (cases "j = 0 \<and> length xs \<le> unat (nReadPos ds)")
  case True
  have len: "unat (of_nat (length xs) :: uint32) = length xs"
    using assms(2) by (simp add: unsigned_of_nat take_bit_nat_def)
  with True have "unat (nReadPos ds - of_nat (length xs)) = unat (nReadPos ds) - length xs"
    by (simp add: unat_sub_if_size)
  moreover have "min (length (vch ds)) (unat (nReadPos ds) - length xs) = unat (nReadPos ds) - length xs"
    using assms(1) by (auto simp: ds_ok_def)
  ultimately show ?thesis
    using True len assms(1) by (simp add: ds_insert_def ds_str_def ds_ok_def Let_def)
next
  case False
  have "unat (of_nat (length xs) :: uint32) = length xs"
    using assms(2) by (simp add: unsigned_of_nat take_bit_nat_def)
  then have "ds_insert (unat (nReadPos ds) + j) xs ds =
      ds\<lparr>vch := take (unat (nReadPos ds) + j) (vch ds) @ xs @ drop (unat (nReadPos ds) + j) (vch ds)\<rparr>"
    using False by (auto simp: ds_insert_def)
  then show ?thesis
    using assms(1,3) by (simp add: ds_str_def ds_ok_def take_drop add.commute)
qed

lemma ds_erase_refines:
  assumes "ds_ok ds" "j \<le> k" "k \<le> length (ds_str ds)"
  shows "ds_str (ds_erase (unat (nReadPos ds) + j) (unat (nReadPos ds) + k) ds) = take j (ds_str ds) @ drop k (ds_str ds)"
proof (cases "j = 0")
  case True
  have "unat (nReadPos ds) + k < 2 ^ 32" using assms by (auto simp: ds_ok_def ds_str_def)
  then have "unat (of_nat (unat (nReadPos ds) + k) :: uint32) = unat (nReadPos ds) + k"
    by (simp add: unsigned_of_nat take_bit_nat_def del: of_nat_add)
  then show ?thesis using assms True
    by (auto simp: ds_erase_def ds_str_def ds_ok_def add.commute simp del: of_nat_add)
next
  case False
  then show ?thesis using assms by (simp add: ds_erase_def ds_str_def ds_ok_def take_drop add.commute)
qed

lemma ds_erase1_refines:
  assumes "ds_ok ds" "j < length (ds_str ds)"
  shows "ds_str (ds_erase1 (unat (nReadPos ds) + j) ds) = take j (ds_str ds) @ drop (Suc j) (ds_str ds)"
proof (cases "j = 0")
  case True
  have "unat (nReadPos ds + of_nat 1) = unat (nReadPos ds) + 1" using assms by (intro add_unat_32) (simp add: ds_ok_def)
  then show ?thesis using assms True by (auto simp: ds_erase1_def ds_str_def ds_ok_def Let_def)
next
  case False
  then show ?thesis using assms by (simp add: ds_erase1_def ds_str_def ds_ok_def take_drop add.commute)
qed

lemma ds_resize_refines: "ds_ok ds \<Longrightarrow> ds_str (ds_resize n c ds) = take n (ds_str ds) @ replicate (n - length (ds_str ds)) c"
  by (simp add: ds_resize_def ds_str_def ds_ok_def Let_def take_drop add.commute min_def)

lemma ds_ignore_refines:
  assumes "ds_ok ds" "n < 2 ^ 31"
  shows "ds_ignore (int n) ds =
    (case ds_read n ds of Ok (_, ds') \<Rightarrow> Ok ds' | Throw e \<Rightarrow> Throw e | _ \<Rightarrow> Abort)"
  using assms add_unat_32 [of "nReadPos ds" n]
  by (auto simp: ds_ignore_def ds_read_def ds_memcpy_def ds_ok_def Let_def)

section \<open>Properties\<close>

text \<open>
  C22: \<open>CDataStream\<close> implements a queue of bytes that can be edited like a list. Its contents are the bytes behind
  the read position. Writing appends to them, reading removes from their front and fails with the
  end-of-data exception exactly when they are too few, and ignoring is reading. Inserting at any position,
  erasing any range or any single byte, and resizing do to them what the list operation does, with or
  without room before the read position. That the consumed part is dropped when the end is reached or
  the buffer is compacted is not observable.
\<close>

theorem data_stream_is_queue:
  assumes "ds_ok ds" "n < 2 ^ 31" "length xs < 2 ^ 32" "j \<le> k" "k \<le> ds_size ds"
  shows "ds_str (ds_write b ds) = ds_str ds @ b \<and>
    (if n \<le> ds_size ds
     then \<exists>ds'. ds_read n ds = Ok (take n (ds_str ds), ds') \<and> ds_ignore (int n) ds = Ok ds' \<and>
       ds_str ds' = drop n (ds_str ds) \<and> ds_ok ds'
     else ds_read n ds = Throw ios_failure \<and> ds_ignore (int n) ds = Throw ios_failure) \<and>
    ds_str (ds_insert (unat (nReadPos ds) + j) xs ds) = take j (ds_str ds) @ xs @ drop j (ds_str ds) \<and>
    ds_str (ds_erase (unat (nReadPos ds) + j) (unat (nReadPos ds) + k) ds) = take j (ds_str ds) @ drop k (ds_str ds) \<and>
    (j < ds_size ds \<longrightarrow> ds_str (ds_erase1 (unat (nReadPos ds) + j) ds) = take j (ds_str ds) @ drop (Suc j) (ds_str ds)) \<and>
    ds_str (ds_resize n c ds) = take n (ds_str ds) @ replicate (n - ds_size ds) c \<and>
    ds_str (ds_Compact ds) = ds_str ds \<and> (ds_empty ds \<longleftrightarrow> ds_str ds = [])"
proof -
  have size: "ds_size ds = length (ds_str ds)" by (simp add: ds_size_def ds_str_def)
  have j: "j \<le> length (ds_str ds)" using assms(4,5) size by simp
  have "\<exists>ds'. ds_read n ds = Ok (take n (ds_str ds), ds') \<and> ds_ignore (int n) ds = Ok ds' \<and>
      ds_str ds' = drop n (ds_str ds) \<and> ds_ok ds'" if "n \<le> ds_size ds"
    using ds.read_ok [OF assms(1), of n] that unfolding size
    by (auto simp: ds_ignore_refines [OF assms(1,2)])
  moreover have "ds_read n ds = Throw ios_failure \<and> ds_ignore (int n) ds = Throw ios_failure" if "\<not> n \<le> ds_size ds"
    using ds.read_end [OF assms(1) _ assms(2)] that unfolding size
    by (simp add: ds_ignore_refines [OF assms(1,2)])
  moreover have "ds_empty ds \<longleftrightarrow> ds_str ds = []"
    using assms(1) by (auto simp: ds_empty_def ds_str_def ds_ok_def)
  moreover have "ds_str (ds_Compact ds) = ds_str ds" by (simp add: ds_Compact_def ds_str_def)
  moreover note ds.contents_write [OF assms(1), of b] ds_insert_refines [OF assms(1,3) j]
    ds_erase_refines [OF assms(1,4)] ds_erase1_refines [OF assms(1), of j] ds_resize_refines [OF assms(1), of n c]
  ultimately show ?thesis using assms(5) unfolding size by simp
qed

theorem data_stream_is_queue_witness:
  "ds_str (ds_insert (1 + 1) [7] \<lparr>vch = [1, 2, 3], nReadPos = 1\<rparr>) = [2, 7, 3] \<and>
   ds_str (ds_erase (1 + 1) (1 + 2) \<lparr>vch = [1, 2, 3], nReadPos = 1\<rparr>) = [2] \<and>
   ds_read 5 \<lparr>vch = [1, 2, 3], nReadPos = 1\<rparr> = Throw ios_failure"
  using data_stream_is_queue [of "\<lparr>vch = [1, 2, 3], nReadPos = 1\<rparr>" 5 "[7]" 1 2 "[]" 0]
  by (simp add: ds_ok_def ds_size_def ds_str_def [of "\<lparr>vch = [1, 2, 3], nReadPos = 1\<rparr>"])

text \<open>
  The comment on \<open>CDataStream::Serialize\<close> says that \<open>stream << stream\<close> concatenates like
  \<open>stream += stream\<close>. It writes the whole vector, the part that has been read included, while \<open>+=\<close>
  appends the unread bytes only.
\<close>

lemma stream_serialize_differs_from_append:
  "ds_ok \<lparr>vch = [1, 2], nReadPos = 1\<rparr>"
  "vch (ds_append (CDataStream_of []) \<lparr>vch = [1, 2], nReadPos = 1\<rparr>) = [2]"
  "vch (ds_write (ds_Serialize \<lparr>vch = [1, 2], nReadPos = 1\<rparr>) (CDataStream_of [])) = [1, 2]"
  by (simp_all add: ds_ok_def ds_append_def ds_write_def ds_Serialize_def ds_str_def CDataStream_of_def)

end
