(* ===== verification/Transaction.thy ===== *)
theory Transaction
  imports Serialize Interpreter
begin

text \<open>
  Transactions, \<open>src/src/primitives/transaction.h\<close> and \<open>transaction.cpp\<close>: outpoints, inputs, outputs,
  mutable and immutable transactions with their serialization, classification and sums. A \<open>uint256\<close>
  is a word of 256 bits whose little-endian bytes are the array \<open>data\<close>; signed integers are words and
  read with \<open>sint\<close>. The codecs of the components are interpretations of \<open>codec\<close>.
\<close>

section \<open>Outpoints, inputs and outputs\<close>

type_synonym uint256 = "256 word"
type_synonym int64 = "64 word"
type_synonym int32 = "32 word"

record COutPoint =
  outhash :: uint256
  outn :: uint32

definition COutPoint_SetNull :: "COutPoint" where
  "COutPoint_SetNull = \<lparr>outhash = 0, outn = -1\<rparr>"

definition COutPoint_IsNull :: "COutPoint \<Rightarrow> bool" where
  "COutPoint_IsNull p \<longleftrightarrow> outhash p = 0 \<and> outn p = -1"

text \<open>\<open>FLATDATA(*this)\<close> is the memory of the object, the hash and then the index.\<close>

definition Serialize_COutPoint :: "COutPoint \<Rightarrow> byte list" where
  "Serialize_COutPoint p = Serialize_word (outhash p) @ Serialize_word (outn p)"

definition Unserialize_COutPoint :: "COutPoint reader" where
  "Unserialize_COutPoint s =
     bindO (READDATA 36 s) (\<lambda>(d, s).
       Ok (\<lparr>outhash = of_nat (le_decode (take 32 d)), outn = of_nat (le_decode (drop 32 d))\<rparr>, s))"

record CTxIn =
  prevout :: COutPoint
  scriptSig :: "byte list"
  nSequence :: uint32
  prevPubKey :: "byte list"

definition CTxIn_default :: CTxIn where
  "CTxIn_default = \<lparr>prevout = COutPoint_SetNull, scriptSig = [], nSequence = 0xffffffff, prevPubKey = []\<rparr>"

definition CTxIn_of :: "COutPoint \<Rightarrow> byte list \<Rightarrow> uint32 \<Rightarrow> CTxIn" where
  "CTxIn_of prevoutIn scriptSigIn nSequenceIn =
     CTxIn_default\<lparr>prevout := prevoutIn, scriptSig := scriptSigIn, nSequence := nSequenceIn\<rparr>"

definition CTxIn_IsFinal :: "CTxIn \<Rightarrow> bool" where
  "CTxIn_IsFinal i \<longleftrightarrow> nSequence i = 0xffffffff"

definition Serialize_CTxIn :: "CTxIn \<Rightarrow> byte list" where
  "Serialize_CTxIn i =
     Serialize_COutPoint (prevout i) @ Serialize_bytes (scriptSig i) @ Serialize_word (nSequence i)"

definition Unserialize_CTxIn :: "CTxIn reader" where
  "Unserialize_CTxIn s =
     bindO (Unserialize_COutPoint s) (\<lambda>(p, s). bindO (Unserialize_bytes s) (\<lambda>(sc, s).
     bindO (Unserialize_word s) (\<lambda>(q, s).
       Ok (CTxIn_default\<lparr>prevout := p, scriptSig := sc, nSequence := q\<rparr>, s))))"

record CTxOut =
  nValue :: int64
  scriptPubKey :: "byte list"
  nRounds :: int

definition CTxOut_SetNull :: CTxOut where
  "CTxOut_SetNull = \<lparr>nValue = -1, scriptPubKey = [], nRounds = -10\<rparr>"

definition CTxOut_of :: "int64 \<Rightarrow> byte list \<Rightarrow> CTxOut" where
  "CTxOut_of nValueIn scriptPubKeyIn = \<lparr>nValue = nValueIn, scriptPubKey = scriptPubKeyIn, nRounds = -10\<rparr>"

definition CTxOut_IsNull :: "CTxOut \<Rightarrow> bool" where
  "CTxOut_IsNull out \<longleftrightarrow> nValue out = -1"

definition CTxOut_SetEmpty :: "CTxOut \<Rightarrow> CTxOut" where
  "CTxOut_SetEmpty out = out\<lparr>nValue := 0, scriptPubKey := []\<rparr>"

definition CTxOut_IsEmpty :: "CTxOut \<Rightarrow> bool" where
  "CTxOut_IsEmpty out \<longleftrightarrow> nValue out = 0 \<and> scriptPubKey out = []"

definition CTxOut_IsZerocoinMint :: "CTxOut \<Rightarrow> bool" where
  "CTxOut_IsZerocoinMint out \<longleftrightarrow> scriptPubKey out \<noteq> [] \<and> IsZerocoinMint (scriptPubKey out)"

text \<open>\<open>3 * minRelayTxFee\<close> is computed in \<open>int\<close>; overflow is undefined.\<close>

definition CTxOut_IsDust :: "CTxOut \<Rightarrow> int \<Rightarrow> (unit, bool) outcome" where
  "CTxOut_IsDust out minRelayTxFee =
     (if int32_min \<le> 3 * minRelayTxFee \<and> 3 * minRelayTxFee \<le> int32_max
      then Ok (sint (nValue out) < 3 * minRelayTxFee) else Abort)"

definition Serialize_CTxOut :: "CTxOut \<Rightarrow> byte list" where
  "Serialize_CTxOut out = Serialize_word (nValue out) @ Serialize_bytes (scriptPubKey out)"

definition Unserialize_CTxOut :: "CTxOut reader" where
  "Unserialize_CTxOut s =
     bindO (Unserialize_word s) (\<lambda>(v, s). bindO (Unserialize_bytes s) (\<lambda>(sc, s).
       Ok (CTxOut_SetNull\<lparr>nValue := v, scriptPubKey := sc\<rparr>, s)))"

section \<open>Transactions\<close>

record CMutableTransaction =
  nTransactionVersion :: int32
  vin :: "CTxIn list"
  vout :: "CTxOut list"
  nLockTime :: uint32

record CTransaction = CMutableTransaction +
  txhash :: uint256

definition CURRENT_VERSION :: int32 where "CURRENT_VERSION = 1"

definition Serialize_tx :: "'a CMutableTransaction_scheme \<Rightarrow> byte list" where
  "Serialize_tx tx =
     Serialize_word (nTransactionVersion tx) @ Serialize_vector Serialize_CTxIn (vin tx) @
     Serialize_vector Serialize_CTxOut (vout tx) @ Serialize_word (nLockTime tx)"

definition Unserialize_CMutableTransaction :: "CMutableTransaction reader" where
  "Unserialize_CMutableTransaction s =
     bindO (Unserialize_word s) (\<lambda>(ver, s). bindO (Unserialize_vector Unserialize_CTxIn s) (\<lambda>(i, s).
     bindO (Unserialize_vector Unserialize_CTxOut s) (\<lambda>(out, s). bindO (Unserialize_word s) (\<lambda>(lock, s).
       Ok (\<lparr>nTransactionVersion = ver, vin = i, vout = out, nLockTime = lock\<rparr>, s)))))"

text \<open>\<open>SerializeHash\<close>: the double SHA-256 of the serialization, as a blob.\<close>

definition uint256_of_bytes :: "byte list \<Rightarrow> uint256" where
  "uint256_of_bytes b = of_nat (le_decode b)"

definition SerializeHash :: "byte list \<Rightarrow> uint256" where
  "SerializeHash b = uint256_of_bytes (Hash uninit [b])"

definition COutPoint_GetHash :: "COutPoint \<Rightarrow> uint256" where
  "COutPoint_GetHash p = uint256_of_bytes (Hash uninit [Serialize_word (outhash p), Serialize_word (outn p)])"

definition CTxOut_GetHash :: "CTxOut \<Rightarrow> uint256" where
  "CTxOut_GetHash out = SerializeHash (Serialize_CTxOut out)"

definition CMutableTransaction_GetHash :: "CMutableTransaction \<Rightarrow> uint256" where
  "CMutableTransaction_GetHash tx = SerializeHash (Serialize_tx tx)"

definition CMutableTransaction_default :: CMutableTransaction where
  "CMutableTransaction_default = \<lparr>nTransactionVersion = CURRENT_VERSION, vin = [], vout = [], nLockTime = 0\<rparr>"

definition CMutableTransaction_of :: "CTransaction \<Rightarrow> CMutableTransaction" where
  "CMutableTransaction_of tx =
     \<lparr>nTransactionVersion = nTransactionVersion tx, vin = vin tx, vout = vout tx, nLockTime = nLockTime tx\<rparr>"

definition UpdateHash :: "CTransaction \<Rightarrow> CTransaction" where
  "UpdateHash tx = tx\<lparr>txhash := SerializeHash (Serialize_tx tx)\<rparr>"

definition CTransaction_default :: CTransaction where
  "CTransaction_default =
     \<lparr>nTransactionVersion = CURRENT_VERSION, vin = [], vout = [], nLockTime = 0, txhash = 0\<rparr>"

definition CTransaction_of :: "CMutableTransaction \<Rightarrow> CTransaction" where
  "CTransaction_of tx =
     UpdateHash \<lparr>nTransactionVersion = nTransactionVersion tx, vin = vin tx, vout = vout tx,
       nLockTime = nLockTime tx, txhash = 0\<rparr>"

definition CTransaction_assign :: "CTransaction \<Rightarrow> CTransaction \<Rightarrow> CTransaction" where
  "CTransaction_assign this tx =
     this\<lparr>nTransactionVersion := nTransactionVersion tx, vin := vin tx, vout := vout tx,
       nLockTime := nLockTime tx, txhash := txhash tx\<rparr>"

definition Unserialize_CTransaction :: "CTransaction reader" where
  "Unserialize_CTransaction s =
     bindO (Unserialize_CMutableTransaction s) (\<lambda>(tx, s). Ok (CTransaction_of tx, s))"

section \<open>Classification and sums\<close>

definition COIN :: int where "COIN = 100000000"

definition CTransaction_IsNull :: "CTransaction \<Rightarrow> bool" where
  "CTransaction_IsNull tx \<longleftrightarrow> vin tx = [] \<and> vout tx = []"

text \<open>\<open>vin[0].scriptSig[0]\<close> is read without a check that the script has a first byte.\<close>

definition CTransaction_IsZerocoinSpend :: "CTransaction \<Rightarrow> (unit, bool) outcome" where
  "CTransaction_IsZerocoinSpend tx =
     (if \<not> length (vin tx) > 0 then Ok False
      else if \<not> outhash (prevout (vin tx ! 0)) = 0 then Ok False
      else if scriptSig (vin tx ! 0) = [] then Abort
      else Ok (unat (scriptSig (vin tx ! 0) ! 0) = OP_ZEROCOINSPEND))"

definition CTransaction_IsZerocoinMint :: "CTransaction \<Rightarrow> bool" where
  "CTransaction_IsZerocoinMint tx \<longleftrightarrow> (\<exists>txout \<in> set (vout tx). IsZerocoinMint (scriptPubKey txout))"

definition ContainsZerocoins :: "CTransaction \<Rightarrow> (unit, bool) outcome" where
  "ContainsZerocoins tx =
     bindO (CTransaction_IsZerocoinSpend tx) (\<lambda>spend. Ok (spend \<or> CTransaction_IsZerocoinMint tx))"

definition IsCoinBase :: "CTransaction \<Rightarrow> (unit, bool) outcome" where
  "IsCoinBase tx =
     (if \<not> length (vin tx) = 1 then Ok False
      else if \<not> COutPoint_IsNull (prevout (vin tx ! 0)) then Ok False
      else bindO (ContainsZerocoins tx) (\<lambda>z. Ok (\<not> z)))"

definition IsCoinStake :: "CTransaction \<Rightarrow> bool" where
  "IsCoinStake tx =
     (if vin tx = [] then False
      else let fAllowNull = IsZerocoinSpend (scriptSig (vin tx ! 0)) in
        if COutPoint_IsNull (prevout (vin tx ! 0)) \<and> \<not> fAllowNull then False
        else length (vin tx) > 0 \<and> length (vout tx) \<ge> 2 \<and> CTxOut_IsEmpty (vout tx ! 0))"

definition IsMasternodeReward :: "COutPoint \<Rightarrow> CTransaction \<Rightarrow> bool" where
  "IsMasternodeReward p tx =
     (if \<not> IsCoinStake tx then False
      else unat (outn p) = length (vout tx) - 1 \<and>
        scriptPubKey (vout tx ! 1) \<noteq> scriptPubKey (vout tx ! unat (outn p)))"

text \<open>Signed addition: a sum outside \<open>int64_t\<close> is undefined, also in the test that is meant to catch it.\<close>

definition add_int64 :: "int \<Rightarrow> int \<Rightarrow> (unit, int) outcome" where
  "add_int64 a b = (if int64_min \<le> a + b \<and> a + b \<le> int64_max then Ok (a + b) else Abort)"

fun value_out :: "int \<Rightarrow> CTxOut list \<Rightarrow> (unit, int) outcome" where
  "value_out nValueOut [] = Ok nValueOut"
| "value_out nValueOut (v # vs) =
     (if sint (nValue v) < 0 then Throw runtime_error
      else bindO (add_int64 nValueOut (sint (nValue v))) (\<lambda>sum.
        if sum < nValueOut then Throw runtime_error
        else bindO (add_int64 nValueOut (sint (nValue v))) (\<lambda>nValueOut. value_out nValueOut vs)))"

definition GetValueOut :: "CTransaction \<Rightarrow> (unit, int) outcome" where
  "GetValueOut tx = value_out 0 (vout tx)"

fun zerocoin_minted :: "CTxOut list \<Rightarrow> int" where
  "zerocoin_minted [] = 0"
| "zerocoin_minted (txOut # outs) =
     (if \<not> IsZerocoinMint (scriptPubKey txOut) then zerocoin_minted outs else sint (nValue txOut))"

definition GetZerocoinMinted :: "CTransaction \<Rightarrow> int" where
  "GetZerocoinMinted tx = zerocoin_minted (vout tx)"

definition UsesUTXO :: "CTransaction \<Rightarrow> COutPoint \<Rightarrow> bool" where
  "UsesUTXO tx out \<longleftrightarrow> (\<exists>i \<in> set (vin tx). prevout i = out)"

definition GetOutPoints :: "CTransaction \<Rightarrow> COutPoint list" where
  "GetOutPoints tx = map (\<lambda>i. \<lparr>outhash = txhash tx, outn = of_nat i\<rparr>) [0..<length (vout tx)]"

fun zerocoin_spent :: "int \<Rightarrow> CTxIn list \<Rightarrow> (unit, int) outcome" where
  "zerocoin_spent nValueOut [] = Ok nValueOut"
| "zerocoin_spent nValueOut (txin # ins) =
     (if \<not> IsZerocoinSpend (scriptSig txin) then zerocoin_spent nValueOut ins
      else bindO (add_int64 nValueOut (int (unat (nSequence txin)) * COIN)) (\<lambda>v. zerocoin_spent v ins))"

definition GetZerocoinSpent :: "CTransaction \<Rightarrow> (unit, int) outcome" where
  "GetZerocoinSpent tx =
     bindO (CTransaction_IsZerocoinSpend tx) (\<lambda>spend. if \<not> spend then Ok 0 else zerocoin_spent 0 (vin tx))"

definition GetZerocoinMintCount :: "CTransaction \<Rightarrow> nat" where
  "GetZerocoinMintCount tx = length (filter (\<lambda>out. IsZerocoinMint (scriptPubKey out)) (vout tx))"

fun modified_size :: "nat \<Rightarrow> CTxIn list \<Rightarrow> nat" where
  "modified_size nTxSize [] = nTxSize"
| "modified_size nTxSize (v # vs) =
     (let offset = 41 + min 110 (length (scriptSig v))
      in modified_size (if nTxSize > offset then nTxSize - offset else nTxSize) vs)"

definition CalculateModifiedSize :: "CTransaction \<Rightarrow> nat \<Rightarrow> nat" where
  "CalculateModifiedSize tx nTxSize =
     modified_size (if nTxSize = 0 then length (Serialize_tx tx) else nTxSize) (vin tx)"

section \<open>Codecs\<close>

lemma of_nat_le_decode_word:
  fixes w :: "'a :: len word"
  assumes "8 dvd LENGTH('a)"
  shows "of_nat (le_decode (Serialize_word w)) = w"
  using Unserialize_word_encode [OF assms, of w "[]"] by (simp add: Unserialize_word_def READDATA_def)

interpretation outpoint: codec Serialize_COutPoint Unserialize_COutPoint "\<lambda>_. True"
proof
  fix x :: COutPoint and rest
  have "READDATA 36 (Serialize_COutPoint x @ rest) = Ok (Serialize_COutPoint x, rest)"
    by (intro READDATA_append) (simp add: Serialize_COutPoint_def)
  then show "Unserialize_COutPoint (Serialize_COutPoint x @ rest) = Ok (x, rest)"
    by (simp add: Unserialize_COutPoint_def) (simp add: Serialize_COutPoint_def of_nat_le_decode_word)
qed

definition wf_CTxIn :: "CTxIn \<Rightarrow> bool" where
  "wf_CTxIn i \<longleftrightarrow> length (scriptSig i) \<le> MAX_SIZE \<and> prevPubKey i = []"

definition wf_CTxOut :: "CTxOut \<Rightarrow> bool" where
  "wf_CTxOut out \<longleftrightarrow> length (scriptPubKey out) \<le> MAX_SIZE \<and> nRounds out = -10"

interpretation txin: codec Serialize_CTxIn Unserialize_CTxIn wf_CTxIn
  by unfold_locales
    (simp add: Unserialize_CTxIn_def Serialize_CTxIn_def wf_CTxIn_def outpoint.bind_unser bytes.bind_unser
      word32.bind_unser CTxIn_default_def)

interpretation txout: codec Serialize_CTxOut Unserialize_CTxOut wf_CTxOut
  by unfold_locales
    (simp add: Unserialize_CTxOut_def Serialize_CTxOut_def wf_CTxOut_def bytes.bind_unser word64.bind_unser
      CTxOut_SetNull_def)

interpretation txins: codec "Serialize_vector Serialize_CTxIn" "Unserialize_vector Unserialize_CTxIn"
  "\<lambda>v. length v \<le> MAX_SIZE \<and> list_all wf_CTxIn v"
  by (rule txin.vector_codec)

interpretation txouts: codec "Serialize_vector Serialize_CTxOut" "Unserialize_vector Unserialize_CTxOut"
  "\<lambda>v. length v \<le> MAX_SIZE \<and> list_all wf_CTxOut v"
  by (rule txout.vector_codec)

definition wf_tx :: "'a CMutableTransaction_scheme \<Rightarrow> bool" where
  "wf_tx tx \<longleftrightarrow> length (vin tx) \<le> MAX_SIZE \<and> list_all wf_CTxIn (vin tx) \<and>
     length (vout tx) \<le> MAX_SIZE \<and> list_all wf_CTxOut (vout tx)"

interpretation tx: codec "Serialize_tx :: CMutableTransaction \<Rightarrow> byte list" Unserialize_CMutableTransaction wf_tx
  by unfold_locales
    (simp add: Unserialize_CMutableTransaction_def Serialize_tx_def wf_tx_def word32.bind_unser
      txins.bind_unser txouts.bind_unser)

section \<open>Properties\<close>

definition hash_ok :: "CTransaction \<Rightarrow> bool" where
  "hash_ok tx \<longleftrightarrow> txhash tx = SerializeHash (Serialize_tx tx)"

lemma Serialize_tx_CTransaction_of [simp]: "Serialize_tx (CTransaction_of tx) = Serialize_tx tx"
  by (simp add: CTransaction_of_def UpdateHash_def Serialize_tx_def)

lemma hash_ok_of: "hash_ok (CTransaction_of tx)"
  by (simp add: hash_ok_def) (simp add: CTransaction_of_def UpdateHash_def Serialize_tx_def)

text \<open>
  C2: transactions survive the wire. Reading what was written gives the same inputs, outputs, version
  and lock time and leaves exactly the bytes behind them; the cached hash of the transaction read is
  the double SHA-256 of those bytes; and two transactions with the same bytes are equal.
\<close>

theorem transaction_roundtrip:
  fixes tx tx' :: CMutableTransaction
  assumes "wf_tx tx" "wf_tx tx'"
  shows "Unserialize_CTransaction (Serialize_tx tx @ rest) = Ok (CTransaction_of tx, rest) \<and>
    CMutableTransaction_of (CTransaction_of tx) = tx \<and>
    txhash (CTransaction_of tx) = uint256_of_bytes (fips_sha256 (fips_sha256 (Serialize_tx tx))) \<and>
    (Serialize_tx tx = Serialize_tx tx' \<longleftrightarrow> tx = tx')"
proof -
  have "txhash (CTransaction_of tx) = uint256_of_bytes (fips_sha256 (fips_sha256 (Serialize_tx tx)))"
    using hash_ok_of [of tx] by (simp add: hash_ok_def SerializeHash_def Hash_eq uninit_def)
  moreover have "CMutableTransaction_of (CTransaction_of tx) = tx"
    by (simp add: CMutableTransaction_of_def CTransaction_of_def UpdateHash_def)
  moreover have "tx = tx'" if "Serialize_tx tx = Serialize_tx tx'"
    using tx.ser_inject [OF assms, of "[]" "[]"] that by simp
  ultimately show ?thesis
    by (auto simp: Unserialize_CTransaction_def tx.bind_unser [OF assms(1)])
qed

theorem transaction_roundtrip_witness:
  "Unserialize_CTransaction (Serialize_tx (CMutableTransaction_default\<lparr>vin := [CTxIn_default]\<rparr>) @ [7]) =
     Ok (CTransaction_of (CMutableTransaction_default\<lparr>vin := [CTxIn_default]\<rparr>), [7])"
  using transaction_roundtrip [of "CMutableTransaction_default\<lparr>vin := [CTxIn_default]\<rparr>" CMutableTransaction_default "[7]"]
  by (simp add: wf_tx_def wf_CTxIn_def CMutableTransaction_default_def CTxIn_default_def MAX_SIZE_def)

text \<open>The outputs before the first one with a negative value.\<close>

definition before_negative :: "CTxOut list \<Rightarrow> CTxOut list" where
  "before_negative vs = takeWhile (\<lambda>v. 0 \<le> sint (nValue v)) vs"

lemma before_negative_sum: "0 \<le> sum_list (map (sint \<circ> nValue) (before_negative vs))"
  by (intro sum_list_nonneg) (auto simp: before_negative_def dest: set_takeWhileD)

lemma value_out_eq:
  assumes "0 \<le> acc" "acc \<le> int64_max"
  shows "value_out acc vs =
    (let total = acc + sum_list (map (sint \<circ> nValue) (before_negative vs)) in
     if int64_max < total then Abort else if before_negative vs \<noteq> vs then Throw runtime_error else Ok total)"
  using assms
proof (induction vs arbitrary: acc)
  case (Cons v vs)
  show ?case
  proof (cases "sint (nValue v) < 0")
    case False
    have "0 \<le> sum_list (map (sint \<circ> nValue) (before_negative vs))" by (rule before_negative_sum)
    with False show ?thesis
      using Cons.prems Cons.IH [of "acc + sint (nValue v)"]
      by (auto simp: add_int64_def int64_min_def Let_def add.assoc comp_def before_negative_def)
  qed (use Cons.prems in \<open>simp add: before_negative_def\<close>)
qed (simp add: before_negative_def)

text \<open>
  C23: the exact result of \<open>GetValueOut\<close>. When the values before the first negative one add up to more than an
  \<open>int64_t\<close> holds, the code runs into undefined signed overflow: the branch that is meant to report the
  wrap-around is never taken. Otherwise a negative value raises the exception, and without one the exact
  sum is returned.
\<close>

theorem get_value_out_outcomes:
  "GetValueOut tx =
    (let total = sum_list (map (sint \<circ> nValue) (before_negative (vout tx))) in
     if int64_max < total then Abort
     else if \<exists>out \<in> set (vout tx). sint (nValue out) < 0 then Throw runtime_error
     else Ok total)"
proof -
  have eq: "before_negative (vout tx) \<noteq> vout tx \<longleftrightarrow> (\<exists>out \<in> set (vout tx). sint (nValue out) < 0)"
    unfolding before_negative_def takeWhile_eq_all_conv by (auto simp: not_le)
  show ?thesis using value_out_eq [of 0 "vout tx"] unfolding eq by (simp add: GetValueOut_def int64_max_def)
qed

text \<open>
  A transaction whose only input has a null outpoint and an empty script makes \<open>IsCoinBase\<close> read the
  first byte of the empty script. Nothing in the wire format excludes such a transaction.
\<close>

lemma coinbase_test_reads_empty_script:
  "wf_tx (CMutableTransaction_default\<lparr>vin := [CTxIn_default]\<rparr>) \<and>
   IsCoinBase (CTransaction_of (CMutableTransaction_default\<lparr>vin := [CTxIn_default]\<rparr>)) = Abort"
  by (simp add: IsCoinBase_def CTransaction_of_def UpdateHash_def CMutableTransaction_default_def CTxIn_default_def
      COutPoint_IsNull_def COutPoint_SetNull_def ContainsZerocoins_def CTransaction_IsZerocoinSpend_def
      wf_tx_def wf_CTxIn_def MAX_SIZE_def)

end
