(* ===== verification/SigHash.thy ===== *)
theory SigHash
  imports Transaction
begin

text \<open>
  Signature hashes: \<open>CTransactionSignatureSerializer\<close>, \<open>SignatureHash\<close> and the signature checker of
  \<open>src/src/script/interpreter.cpp\<close>, with the byte representation of public keys of
  \<open>src/src/ecdsa/pubkey.h\<close>. The serializer streams the transaction with the changes that the hash type
  asks for; it is shown equal to hashing a changed copy of the transaction, the way the signature
  hash is defined. The verification of a signature by the curve library is an argument. Input and output
  positions are \<open>uint32_t\<close> in the source and natural numbers here; they differ only for a transaction with more
  than \<open>2 ^ 32\<close> inputs or outputs, which no message can carry.
\<close>

section \<open>The signature serializer\<close>

record sig_serializer =
  txTo :: CTransaction
  scriptCode :: "byte list"
  nIn :: nat
  fAnyoneCanPay :: bool
  fHashSingle :: bool
  fHashNone :: bool

definition CTransactionSignatureSerializer ::
    "CTransaction \<Rightarrow> byte list \<Rightarrow> nat \<Rightarrow> int32 \<Rightarrow> sig_serializer" where
  "CTransactionSignatureSerializer txToIn scriptCodeIn nInIn nHashTypeIn =
     \<lparr>txTo = txToIn, scriptCode = scriptCodeIn, nIn = nInIn,
      fAnyoneCanPay = (nHashTypeIn AND 0x80 \<noteq> 0), fHashSingle = (nHashTypeIn AND 0x1f = 3),
      fHashNone = (nHashTypeIn AND 0x1f = 2)\<rparr>"

function count_separators :: "byte list \<Rightarrow> nat" where
  "count_separators it =
     (let (ok, opcode, vch, it') = GetOp2 it
      in if ok then (if opcode = OP_CODESEPARATOR then 1 else 0) + count_separators it' else 0)"
  by pat_completeness auto
termination
  by (relation "measure length") (auto dest: GetOp2_decreases [OF sym] GetOp2_ok_nonempty [OF sym])

declare count_separators.simps [simp del]

text \<open>
  The second loop: \<open>itBegin\<close> is where the current segment starts. When the decoder stops, the rest up
  to where it stopped is written.
\<close>

function write_segments :: "byte list \<Rightarrow> byte list \<Rightarrow> byte list" where
  "write_segments itBegin it =
     (let (ok, opcode, vch, it') = GetOp2 it
      in if ok
         then if opcode = OP_CODESEPARATOR
              then take (length itBegin - length it' - 1) itBegin @ write_segments it' it'
              else write_segments itBegin it'
         else if itBegin \<noteq> [] then take (length itBegin - length it') itBegin else [])"
  by pat_completeness auto
termination
  by (relation "measure (\<lambda>(b, it). length it)") (auto dest: GetOp2_decreases [OF sym] GetOp2_ok_nonempty [OF sym])

declare write_segments.simps [simp del]

definition SerializeScriptCode :: "sig_serializer \<Rightarrow> byte list" where
  "SerializeScriptCode t =
     WriteCompactSize (of_nat (length (scriptCode t) - count_separators (scriptCode t))) @
     write_segments (scriptCode t) (scriptCode t)"

definition SerializeInput :: "sig_serializer \<Rightarrow> nat \<Rightarrow> byte list" where
  "SerializeInput t nInput =
     (let nInput = (if fAnyoneCanPay t then nIn t else nInput);
          i = vin (txTo t) ! nInput
      in Serialize_COutPoint (prevout i) @
         (if nInput \<noteq> nIn t then Serialize_bytes [] else SerializeScriptCode t) @
         (if nInput \<noteq> nIn t \<and> (fHashSingle t \<or> fHashNone t) then Serialize_word (0 :: int32)
          else Serialize_word (nSequence i)))"

definition SerializeOutput :: "sig_serializer \<Rightarrow> nat \<Rightarrow> byte list" where
  "SerializeOutput t nOutput =
     (if fHashSingle t \<and> nOutput \<noteq> nIn t then Serialize_CTxOut CTxOut_SetNull
      else Serialize_CTxOut (vout (txTo t) ! nOutput))"

definition Serialize_sig :: "sig_serializer \<Rightarrow> byte list" where
  "Serialize_sig t =
     (let nInputs = (if fAnyoneCanPay t then 1 else length (vin (txTo t)));
          nOutputs = (if fHashNone t then 0 else if fHashSingle t then nIn t + 1 else length (vout (txTo t)))
      in Serialize_word (nTransactionVersion (txTo t)) @
         WriteCompactSize (of_nat nInputs) @ concat (map (SerializeInput t) [0..<nInputs]) @
         WriteCompactSize (of_nat nOutputs) @ concat (map (SerializeOutput t) [0..<nOutputs]) @
         Serialize_word (nLockTime (txTo t)))"

definition SignatureHash :: "byte list \<Rightarrow> CTransaction \<Rightarrow> nat \<Rightarrow> int32 \<Rightarrow> uint256" where
  "SignatureHash code tx i nHashType =
     (if i \<ge> length (vin tx) then 1
      else if nHashType AND 0x1f = 3 \<and> i \<ge> length (vout tx) then 1
      else uint256_of_bytes (Hash uninit
        [Serialize_sig (CTransactionSignatureSerializer tx code i nHashType), Serialize_word nHashType]))"

section \<open>Public keys and the checker\<close>

text \<open>
  A public key is the bytes that count: the first \<open>size()\<close> bytes of its array, or the marker that
  \<open>Invalidate\<close> sets.
\<close>

type_synonym CPubKey = "byte list"

definition GetLen :: "byte \<Rightarrow> nat" where
  "GetLen chHeader =
     (if chHeader = 2 \<or> chHeader = 3 then 33 else if chHeader = 4 \<or> chHeader = 6 \<or> chHeader = 7 then 65 else 0)"

definition CPubKey_Set :: "byte list \<Rightarrow> CPubKey" where
  "CPubKey_Set b =
     (let len = (if b = [] then 0 else GetLen (b ! 0))
      in if len \<noteq> 0 \<and> len = length b then b else [0xFF])"

definition CPubKey_size :: "CPubKey \<Rightarrow> nat" where
  "CPubKey_size pk = GetLen (pk ! 0)"

definition CPubKey_IsValid :: "CPubKey \<Rightarrow> bool" where
  "CPubKey_IsValid pk \<longleftrightarrow> CPubKey_size pk > 0"

definition CPubKey_IsCompressed :: "CPubKey \<Rightarrow> bool" where
  "CPubKey_IsCompressed pk \<longleftrightarrow> CPubKey_size pk = 33"

definition CPubKey_GetID :: "CPubKey \<Rightarrow> byte list" where
  "CPubKey_GetID pk = Hash160 uninit uninit (take (CPubKey_size pk) pk)"

definition CPubKey_GetHash :: "CPubKey \<Rightarrow> uint256" where
  "CPubKey_GetHash pk = uint256_of_bytes (Hash uninit [take (CPubKey_size pk) pk])"

definition Serialize_CPubKey :: "CPubKey \<Rightarrow> byte list" where
  "Serialize_CPubKey pk = WriteCompactSize (of_nat (CPubKey_size pk)) @ take (CPubKey_size pk) pk"

definition CheckSig_tx ::
    "(CPubKey \<Rightarrow> uint256 \<Rightarrow> byte list \<Rightarrow> bool) \<Rightarrow> CTransaction \<Rightarrow> nat \<Rightarrow> byte list \<Rightarrow> byte list \<Rightarrow> byte list \<Rightarrow> bool" where
  "CheckSig_tx Verify tx i vchSigIn vchPubKey code =
     (let pubkey = CPubKey_Set vchPubKey in
      if \<not> CPubKey_IsValid pubkey then False
      else let vchSig = vchSigIn in
        if vchSig = [] then False
        else let nHashType = ucast (last vchSig); vchSig = butlast vchSig;
                 sighash = SignatureHash code tx i nHashType
             in if \<not> Verify pubkey sighash vchSig then False else True)"

section \<open>The definition of the signature hash\<close>

text \<open>The script code without its code separators.\<close>

function strip_separators :: "byte list \<Rightarrow> byte list" where
  "strip_separators it =
     (let (ok, opcode, vch, it') = GetOp2 it
      in if ok
         then (if opcode = OP_CODESEPARATOR then [] else take (length it - length it') it) @ strip_separators it'
         else [])"
  by pat_completeness auto
termination
  by (relation "measure length") (auto dest: GetOp2_decreases [OF sym] GetOp2_ok_nonempty [OF sym])

declare strip_separators.simps [simp del]

text \<open>
  The changed copy: the signed input gets the script code and all other inputs an empty script; with
  \<open>SIGHASH_NONE\<close> the outputs are removed, with \<open>SIGHASH_SINGLE\<close> cut behind the one at the signed
  index, with the others nulled, and in both cases the other inputs' sequence numbers are zero; with
  \<open>SIGHASH_ANYONECANPAY\<close> only the signed input is left.
\<close>

definition sighash_vin :: "byte list \<Rightarrow> CTransaction \<Rightarrow> nat \<Rightarrow> int32 \<Rightarrow> CTxIn list" where
  "sighash_vin code tx i nHashType =
     (let blank = (\<lambda>k. if k = i then (vin tx ! k)\<lparr>scriptSig := strip_separators code\<rparr>
                       else (vin tx ! k)\<lparr>scriptSig := [],
                         nSequence := (if nHashType AND 0x1f = 2 \<or> nHashType AND 0x1f = 3 then 0
                                       else nSequence (vin tx ! k))\<rparr>)
      in if nHashType AND 0x80 \<noteq> 0 then [blank i] else map blank [0..<length (vin tx)])"

definition sighash_vout :: "CTransaction \<Rightarrow> nat \<Rightarrow> int32 \<Rightarrow> CTxOut list" where
  "sighash_vout tx i nHashType =
     (if nHashType AND 0x1f = 2 then []
      else if nHashType AND 0x1f = 3 then replicate i CTxOut_SetNull @ [vout tx ! i]
      else vout tx)"

definition sighash_tx :: "byte list \<Rightarrow> CTransaction \<Rightarrow> nat \<Rightarrow> int32 \<Rightarrow> CMutableTransaction" where
  "sighash_tx code tx i nHashType =
     (CMutableTransaction_of tx)\<lparr>vin := sighash_vin code tx i nHashType, vout := sighash_vout tx i nHashType\<rparr>"

text \<open>A script the decoder reads to its end.\<close>

function decodes :: "byte list \<Rightarrow> bool" where
  "decodes it = (if it = [] then True else let (ok, opcode, vch, it') = GetOp2 it in ok \<and> decodes it')"
  by pat_completeness auto
termination
  by (relation "measure length") (auto dest: GetOp2_decreases [OF sym])

declare decodes.simps [simp del]

lemma GetOp2_cases:
  obtains (stop) opcode vch it' where "GetOp2 it = (False, opcode, vch, it')"
    | (instr) opcode vch it' pre where "GetOp2 it = (True, opcode, vch, it')" "it = pre @ it'" "pre \<noteq> []"
        "opcode = OP_CODESEPARATOR \<Longrightarrow> length pre = 1"
proof -
  obtain ok opcode vch it' where g: "GetOp2 it = (ok, opcode, vch, it')" by (metis prod_cases4)
  show ?thesis
  proof (cases ok)
    case True
    with g have g: "GetOp2 it = (True, opcode, vch, it')" by simp
    from GetOp2_split [OF g] obtain sz where it: "it = of_nat opcode # sz @ vch @ it'" by auto
    show ?thesis
    proof (rule instr [OF g])
      show "it = (of_nat opcode # sz @ vch) @ it'" using it by simp
      show "length (of_nat opcode # sz @ vch) = 1" if "opcode = OP_CODESEPARATOR"
        using that g it GetOp2_opcode [of OP_CODESEPARATOR "sz @ vch @ it'"] by (simp del: GetOp2.simps)
    qed simp
  next
    case False
    then show ?thesis using g by (intro stop) simp
  qed
qed

lemma decodes_step: "GetOp2 it = (True, opcode, vch, it') \<Longrightarrow> decodes it = decodes it'"
  by (subst decodes.simps) (auto dest: GetOp2_ok_nonempty)

lemma decodes_stop: "GetOp2 it = (False, opcode, vch, it') \<Longrightarrow> decodes it \<Longrightarrow> it = []"
  by (subst (asm) decodes.simps) (auto split: if_splits)

lemma separator_steps:
  assumes "GetOp2 it = (True, opcode, vch, it')"
  shows "strip_separators it =
      (if opcode = OP_CODESEPARATOR then [] else take (length it - length it') it) @ strip_separators it'"
    "count_separators it = (if opcode = OP_CODESEPARATOR then 1 else 0) + count_separators it'"
    "write_segments itBegin it =
      (if opcode = OP_CODESEPARATOR then take (length itBegin - length it' - 1) itBegin @ write_segments it' it'
       else write_segments itBegin it')"
  using assms
  by (subst strip_separators.simps count_separators.simps write_segments.simps; simp del: GetOp2.simps)+

lemma write_segments_strip:
  "decodes it \<Longrightarrow> write_segments (seg @ it) it = seg @ strip_separators it"
proof (induction "length it" arbitrary: seg it rule: less_induct)
  case less
  show ?case
  proof (cases it rule: GetOp2_cases)
    case (stop opcode vch it')
    then have "it = []" using less.prems by (rule decodes_stop)
    then show ?thesis by (simp add: write_segments.simps strip_separators.simps)
  next
    case (instr opcode vch it' pre)
    have shorter: "length it' < length it" using instr by simp
    have dec: "decodes it'" using less.prems instr(1) by (simp add: decodes_step)
    show ?thesis
      unfolding separator_steps [OF instr(1)]
      using instr(2,4) less.hyps [OF shorter dec, of "[]"] less.hyps [OF shorter dec, of "seg @ pre"] by auto
  qed
qed

lemma length_strip: "decodes it \<Longrightarrow> length (strip_separators it) + count_separators it = length it"
proof (induction "length it" arbitrary: it rule: less_induct)
  case less
  show ?case
  proof (cases it rule: GetOp2_cases)
    case (stop opcode vch it')
    then have "it = []" using less.prems by (rule decodes_stop)
    then show ?thesis by (simp add: strip_separators.simps count_separators.simps)
  next
    case (instr opcode vch it' pre)
    have shorter: "length it' < length it" using instr by simp
    have dec: "decodes it'" using less.prems instr(1) by (simp add: decodes_step)
    show ?thesis
      unfolding separator_steps [OF instr(1)] using instr(2,4) less.hyps [OF shorter dec] by auto
  qed
qed

lemma SerializeScriptCode_strip:
  assumes "decodes (scriptCode t)"
  shows "SerializeScriptCode t = Serialize_bytes (strip_separators (scriptCode t))"
proof -
  have "length (scriptCode t) - count_separators (scriptCode t) = length (strip_separators (scriptCode t))"
    using length_strip [OF assms] by simp
  then show ?thesis
    using write_segments_strip [OF assms, of "[]"] by (simp add: SerializeScriptCode_def Serialize_bytes_def)
qed

lemma serializer_fields [simp]:
  "txTo (CTransactionSignatureSerializer tx code i h) = tx"
  "scriptCode (CTransactionSignatureSerializer tx code i h) = code"
  "nIn (CTransactionSignatureSerializer tx code i h) = i"
  "fAnyoneCanPay (CTransactionSignatureSerializer tx code i h) \<longleftrightarrow> h AND 0x80 \<noteq> 0"
  "fHashSingle (CTransactionSignatureSerializer tx code i h) \<longleftrightarrow> h AND 0x1f = 3"
  "fHashNone (CTransactionSignatureSerializer tx code i h) \<longleftrightarrow> h AND 0x1f = 2"
  by (simp_all add: CTransactionSignatureSerializer_def)

lemma Serialize_sig_copy:
  assumes dec: "decodes code" and i: "i < length (vin tx)" and single: "h AND 0x1f = 3 \<longrightarrow> i < length (vout tx)"
  shows "Serialize_sig (CTransactionSignatureSerializer tx code i h) = Serialize_tx (sighash_tx code tx i h)"
proof -
  let ?t = "CTransactionSignatureSerializer tx code i h"
  have sc: "SerializeScriptCode ?t = Serialize_bytes (strip_separators code)"
    using SerializeScriptCode_strip [of ?t] dec by simp
  define nI where "nI = (if h AND 0x80 \<noteq> 0 then 1 else length (vin tx))"
  define nO where "nO = (if h AND 0x1f = 2 then 0 else if h AND 0x1f = 3 then i + 1 else length (vout tx))"
  have ins: "WriteCompactSize (of_nat nI) @ concat (map (SerializeInput ?t) [0..<nI]) =
      Serialize_vector Serialize_CTxIn (sighash_vin code tx i h)"
    using i by (auto simp: nI_def Serialize_vector_def sighash_vin_def Let_def SerializeInput_def Serialize_CTxIn_def
        sc comp_def intro!: arg_cong [where f = concat])
  have "map (SerializeOutput ?t) [0..<nO] = map Serialize_CTxOut (sighash_vout tx i h)"
    by (rule nth_equalityI)
      (auto simp: nO_def sighash_vout_def SerializeOutput_def nth_append less_Suc_eq nth_Cons')
  moreover have "length (sighash_vout tx i h) = nO" by (simp add: nO_def sighash_vout_def)
  ultimately have outs: "WriteCompactSize (of_nat nO) @ concat (map (SerializeOutput ?t) [0..<nO]) =
      Serialize_vector Serialize_CTxOut (sighash_vout tx i h)"
    by (simp add: Serialize_vector_def)
  have "Serialize_sig ?t = Serialize_word (nTransactionVersion tx) @
      (WriteCompactSize (of_nat nI) @ concat (map (SerializeInput ?t) [0..<nI])) @
      (WriteCompactSize (of_nat nO) @ concat (map (SerializeOutput ?t) [0..<nO])) @ Serialize_word (nLockTime tx)"
    by (simp only: Serialize_sig_def Let_def serializer_fields nI_def nO_def append_assoc)
  then show ?thesis
    unfolding ins outs by (simp add: Serialize_tx_def sighash_tx_def CMutableTransaction_of_def)
qed

section \<open>Properties\<close>

text \<open>
  C1: \<open>SignatureHash\<close> is the hash of the changed copy of the transaction. For an input of the
  transaction and a script code the decoder reads to its end, it is the double SHA-256 of the
  serialized copy (other scripts blanked, code separators removed, outputs and sequence numbers
  treated as the hash type says, one input left under \<open>SIGHASH_ANYONECANPAY\<close>) followed by the hash type;
  for an input index outside the transaction, and under \<open>SIGHASH_SINGLE\<close> without a matching output,
  it is the number one.
\<close>

theorem signature_hash_is_hash_of_copy:
  assumes "decodes code"
  shows "SignatureHash code tx i h =
    (if i < length (vin tx) \<and> (h AND 0x1f = 3 \<longrightarrow> i < length (vout tx))
     then uint256_of_bytes (fips_sha256 (fips_sha256 (Serialize_tx (sighash_tx code tx i h) @ Serialize_word h)))
     else 1)"
  using Serialize_sig_copy [OF assms, of i tx h]
  by (auto simp: SignatureHash_def Hash_eq uninit_def)

theorem signature_hash_is_hash_of_copy_witness:
  "SignatureHash [0x76, 0xab, 0xac] (CTransaction_of (CMutableTransaction_default\<lparr>vin := [CTxIn_default]\<rparr>)) 0 2 =
     uint256_of_bytes (fips_sha256 (fips_sha256
       (Serialize_tx (sighash_tx [0x76, 0xab, 0xac]
          (CTransaction_of (CMutableTransaction_default\<lparr>vin := [CTxIn_default]\<rparr>)) 0 2) @ Serialize_word (2 :: int32)))) \<and>
   strip_separators [0x76, 0xab, 0xac] = [0x76, 0xac]"
proof -
  have "decodes [0x76, 0xab, 0xac]" by (simp add: decodes.simps)
  moreover have "strip_separators [0x76, 0xab, 0xac] = [0x76, 0xac]" by (simp add: strip_separators.simps)
  ultimately show ?thesis
    using signature_hash_is_hash_of_copy [of "[0x76, 0xab, 0xac]"
        "CTransaction_of (CMutableTransaction_default\<lparr>vin := [CTxIn_default]\<rparr>)" 0 2]
    by (simp add: CTransaction_of_def UpdateHash_def CMutableTransaction_default_def)
qed

end
