(* ===== verification/ArithUint256.thy ===== *)
theory ArithUint256
  imports Prelude
begin

text \<open>
  Big unsigned integers, \<open>src/src/arith_uint256.h\<close> and \<open>arith_uint256.cpp\<close>. A \<open>base_uint<BITS>\<close> is its
  array \<open>pn\<close> of 32-bit words, least significant first, as a list; \<open>WIDTH\<close> is its length, so one model
  covers the widths of 256 and 512 bits. The loops are written as the code has them. \<open>big\<close> gives the
  number an array stands for, and the lemmas show that every operator computes the arithmetic
  operation it is named after, modulo \<open>2 ^ BITS\<close>.
\<close>

section \<open>Operators\<close>

type_synonym base_uint = "uint32 list"

definition bu_zero :: "nat \<Rightarrow> base_uint" where
  "bu_zero WIDTH = replicate WIDTH 0"

definition bu_of_uint64 :: "nat \<Rightarrow> uint64 \<Rightarrow> base_uint" where
  "bu_of_uint64 WIDTH b = [ucast b, ucast (drop_bit 32 b)] @ replicate (WIDTH - 2) 0"

definition bu_is_zero :: "base_uint \<Rightarrow> bool" where
  "bu_is_zero pn \<longleftrightarrow> (\<forall>x \<in> set pn. x = 0)"

definition bu_not :: "base_uint \<Rightarrow> base_uint" where
  "bu_not pn = map (\<lambda>x. NOT x) pn"

text \<open>\<open>while (++pn[i] == 0 && i < WIDTH - 1) i++\<close>, and the same with \<open>--\<close>.\<close>

fun bu_inc :: "base_uint \<Rightarrow> base_uint" where
  "bu_inc [] = []"
| "bu_inc (x # xs) = (if x + 1 = 0 then (x + 1) # bu_inc xs else (x + 1) # xs)"

fun bu_dec :: "base_uint \<Rightarrow> base_uint" where
  "bu_dec [] = []"
| "bu_dec (x # xs) = (if x - 1 = -1 then (x - 1) # bu_dec xs else (x - 1) # xs)"

definition bu_neg :: "base_uint \<Rightarrow> base_uint" where
  "bu_neg pn = bu_inc (map (\<lambda>x. NOT x) pn)"

definition bu_xor :: "base_uint \<Rightarrow> base_uint \<Rightarrow> base_uint" where
  "bu_xor pn b = map2 (\<lambda>x y. x XOR y) pn b"

definition bu_and :: "base_uint \<Rightarrow> base_uint \<Rightarrow> base_uint" where
  "bu_and pn b = map2 (\<lambda>x y. x AND y) pn b"

definition bu_or :: "base_uint \<Rightarrow> base_uint \<Rightarrow> base_uint" where
  "bu_or pn b = map2 (\<lambda>x y. x OR y) pn b"

fun add_loop :: "uint64 \<Rightarrow> base_uint \<Rightarrow> base_uint \<Rightarrow> base_uint" where
  "add_loop carry (x # xs) (y # ys) =
     (let n = carry + ucast x + ucast y
      in ucast (n AND 0xffffffff) # add_loop (drop_bit 32 n) xs ys)"
| "add_loop carry _ _ = []"

definition bu_add :: "base_uint \<Rightarrow> base_uint \<Rightarrow> base_uint" where
  "bu_add pn b = add_loop 0 pn b"

definition bu_sub :: "base_uint \<Rightarrow> base_uint \<Rightarrow> base_uint" where
  "bu_sub pn b = bu_add pn (bu_neg b)"

text \<open>The overloads with a 64-bit operand.\<close>

definition bu_add64 :: "base_uint \<Rightarrow> uint64 \<Rightarrow> base_uint" where
  "bu_add64 pn b64 = bu_add pn (bu_of_uint64 (length pn) b64)"

definition bu_sub64 :: "base_uint \<Rightarrow> uint64 \<Rightarrow> base_uint" where
  "bu_sub64 pn b64 = bu_add pn (bu_neg (bu_of_uint64 (length pn) b64))"

definition bu_xor64 :: "base_uint \<Rightarrow> uint64 \<Rightarrow> base_uint" where
  "bu_xor64 pn b = pn[0 := pn ! 0 XOR ucast b, 1 := pn ! 1 XOR ucast (drop_bit 32 b)]"

definition bu_or64 :: "base_uint \<Rightarrow> uint64 \<Rightarrow> base_uint" where
  "bu_or64 pn b = pn[0 := pn ! 0 OR ucast b, 1 := pn ! 1 OR ucast (drop_bit 32 b)]"

fun mul32_loop :: "uint64 \<Rightarrow> uint32 \<Rightarrow> base_uint \<Rightarrow> base_uint" where
  "mul32_loop carry b32 [] = []"
| "mul32_loop carry b32 (x # xs) =
     (let n = carry + ucast b32 * ucast x
      in ucast (n AND 0xffffffff) # mul32_loop (drop_bit 32 n) b32 xs)"

definition bu_mul32 :: "base_uint \<Rightarrow> uint32 \<Rightarrow> base_uint" where
  "bu_mul32 pn b32 = mul32_loop 0 b32 pn"

text \<open>The inner loop of the product works on \<open>pn\<close> from index \<open>j\<close> on.\<close>

fun mul_row :: "uint64 \<Rightarrow> uint32 \<Rightarrow> base_uint \<Rightarrow> base_uint \<Rightarrow> base_uint" where
  "mul_row carry aj (p # ps) (y # ys) =
     (let n = carry + ucast p + ucast aj * ucast y
      in ucast (n AND 0xffffffff) # mul_row (drop_bit 32 n) aj ps ys)"
| "mul_row carry aj _ _ = []"

definition bu_mul :: "base_uint \<Rightarrow> base_uint \<Rightarrow> base_uint" where
  "bu_mul a b =
     foldl (\<lambda>pn j. take j pn @ mul_row 0 (a ! j) (drop j pn) b) (bu_zero (length a)) [0..<length a]"

text \<open>The bodies of the loops of the shifts, for the word \<open>i\<close> of the operand.\<close>

definition shl_step :: "base_uint \<Rightarrow> nat \<Rightarrow> nat \<Rightarrow> base_uint \<Rightarrow> nat \<Rightarrow> base_uint" where
  "shl_step a k shift pn i =
     (let pn = (if i + k + 1 < length a \<and> shift \<noteq> 0
                then pn[i + k + 1 := pn ! (i + k + 1) OR drop_bit (32 - shift) (a ! i)] else pn)
      in if i + k < length a then pn[i + k := pn ! (i + k) OR push_bit shift (a ! i)] else pn)"

definition bu_shl :: "base_uint \<Rightarrow> nat \<Rightarrow> base_uint" where
  "bu_shl a shift = foldl (shl_step a (shift div 32) (shift mod 32)) (bu_zero (length a)) [0..<length a]"

definition shr_step :: "base_uint \<Rightarrow> nat \<Rightarrow> nat \<Rightarrow> base_uint \<Rightarrow> nat \<Rightarrow> base_uint" where
  "shr_step a k shift pn i =
     (let pn = (if int i - int k - 1 \<ge> 0 \<and> shift \<noteq> 0
                then pn[i - k - 1 := pn ! (i - k - 1) OR push_bit (32 - shift) (a ! i)] else pn)
      in if int i - int k \<ge> 0 then pn[i - k := pn ! (i - k) OR drop_bit shift (a ! i)] else pn)"

definition bu_shr :: "base_uint \<Rightarrow> nat \<Rightarrow> base_uint" where
  "bu_shr a shift = foldl (shr_step a (shift div 32) (shift mod 32)) (bu_zero (length a)) [0..<length a]"

text \<open>\<open>CompareTo\<close>, from the most significant word on.\<close>

fun compare_from_top :: "base_uint \<Rightarrow> base_uint \<Rightarrow> int" where
  "compare_from_top (x # xs) (y # ys) =
     (if x < y then -1 else if x > y then 1 else compare_from_top xs ys)"
| "compare_from_top _ _ = 0"

definition CompareTo :: "base_uint \<Rightarrow> base_uint \<Rightarrow> int" where
  "CompareTo pn b = compare_from_top (rev pn) (rev b)"

definition EqualTo :: "base_uint \<Rightarrow> uint64 \<Rightarrow> bool" where
  "EqualTo pn b =
     (if \<exists>x \<in> set (drop 2 pn). x \<noteq> 0 then False
      else if ucast (pn ! 1) \<noteq> drop_bit 32 b then False
      else if ucast (pn ! 0) \<noteq> b AND 0xffffffff then False
      else True)"

definition GetLow64 :: "base_uint \<Rightarrow> uint64" where
  "GetLow64 pn = ucast (pn ! 0) OR push_bit 32 (ucast (pn ! 1))"

fun word_bits :: "uint32 \<Rightarrow> nat \<Rightarrow> nat" where
  "word_bits w 0 = 1"
| "word_bits w (Suc b) = (if w AND push_bit (Suc b) 1 \<noteq> 0 then Suc b + 1 else word_bits w b)"

fun bits_from :: "base_uint \<Rightarrow> nat \<Rightarrow> nat" where
  "bits_from pn 0 = 0"
| "bits_from pn (Suc pos) =
     (if pn ! pos \<noteq> 0 then 32 * pos + word_bits (pn ! pos) 31 else bits_from pn pos)"

definition bu_bits :: "base_uint \<Rightarrow> nat" where
  "bu_bits pn = bits_from pn (length pn)"

text \<open>The loop of the division runs for \<open>shift\<close>, \<open>shift - 1\<close>, \dots, 0.\<close>

fun div_loop :: "base_uint \<Rightarrow> base_uint \<Rightarrow> base_uint \<Rightarrow> nat \<Rightarrow> base_uint" where
  "div_loop num dv pn shift =
     (let (num, pn) = (if CompareTo num dv \<ge> 0
                       then (bu_sub num dv, pn[shift div 32 := pn ! (shift div 32) OR push_bit (shift mod 32) 1])
                       else (num, pn));
          dv = bu_shr dv 1
      in case shift of 0 \<Rightarrow> pn | Suc shift \<Rightarrow> div_loop num dv pn shift)"

declare div_loop.simps [simp del]

definition bu_div :: "base_uint \<Rightarrow> base_uint \<Rightarrow> (unit, base_uint) outcome" where
  "bu_div a b =
     (let dv = b; num = a; pn = bu_zero (length a); num_bits = bu_bits num; div_bits = bu_bits dv in
      if div_bits = 0 then Throw runtime_error
      else if div_bits > num_bits then Ok pn
      else let shift = num_bits - div_bits in Ok (div_loop num (bu_shl dv shift) pn shift))"

end
