(* ===== verification/ArithDivision.thy ===== *)
theory ArithDivision
  imports ArithValue
begin

text \<open>
  Shifts, comparison, bit length and long division of \<open>base_uint\<close>. Shifts are compared with the
  number bit by bit, word borders included; the division is shown to return the quotient.
\<close>

section \<open>Bits of the number\<close>

lemma bit_nat_add_mult:
  assumes "u < 2 ^ k"
  shows "bit (u + 2 ^ k * v :: nat) n \<longleftrightarrow> (if n < k then bit u n else bit v (n - k))"
proof (cases "n < k")
  case True
  then obtain d where d: "k = n + Suc d" using less_imp_Suc_add by (metis add_Suc_right)
  have "2 ^ k * v = 2 ^ n * (2 ^ Suc d * v)" by (simp only: d power_add mult.assoc)
  then have "(u + 2 ^ k * v) div 2 ^ n = u div 2 ^ n + 2 ^ Suc d * v"
    by (simp only: div_mult_self2 power_not_zero zero_neq_numeral [symmetric] add.commute [of "u div 2 ^ n"]
        not_False_eq_True)
  then show ?thesis using True by (simp add: bit_iff_odd)
next
  case False
  then obtain d where d: "n = k + d" using le_Suc_ex not_less by blast
  have "(u + 2 ^ k * v) div 2 ^ n = v div 2 ^ d"
    unfolding d power_add div_mult2_eq using assms by simp
  then show ?thesis using d by (simp add: bit_iff_odd)
qed

lemma unat64_lt: "unat (x :: uint64) < 2 ^ 64"
  using unsigned_less [of x] by simp

lemma bit_unat32: "bit (unat (x :: uint32)) n \<longleftrightarrow> bit x n"
  by (simp add: bit_unsigned_iff)

lemma bit_big: "bit (big xs) n \<longleftrightarrow> n div 32 < length xs \<and> bit (xs ! (n div 32)) (n mod 32)"
proof (induction xs arbitrary: n)
  case (Cons x xs)
  have *: "bit (big (x # xs)) n \<longleftrightarrow> (if n < 32 then bit x n else bit (big xs) (n - 32))"
    using bit_nat_add_mult [OF unat32_lt [of x], of "big xs" n] by (simp add: bit_unat32)
  show ?case
  proof (cases "n < 32")
    case False
    then have "n div 32 = Suc ((n - 32) div 32)" "n mod 32 = (n - 32) mod 32"
      using le_div_geq [of 32 n] le_mod_geq [of 32 n] by linarith+
    with False show ?thesis unfolding * Cons by simp
  qed (simp add: * del: big.simps)
qed simp

lemma big_bitwise:
  assumes "length a = length b"
  shows "big (bu_and a b) = big a AND big b" "big (bu_or a b) = big a OR big b"
    "big (bu_xor a b) = big a XOR big b"
proof -
  have nth: "n div 32 < length a \<Longrightarrow> map2 f a b ! (n div 32) = f (a ! (n div 32)) (b ! (n div 32))"
    for f :: "uint32 \<Rightarrow> uint32 \<Rightarrow> uint32" and n using assms by simp
  show "big (bu_and a b) = big a AND big b"
    by (rule bit_eqI) (auto simp: bit_big bit_and_iff bu_and_def nth simp flip: assms)
  show "big (bu_or a b) = big a OR big b"
    by (rule bit_eqI) (auto simp: bit_big bit_or_iff bu_or_def nth simp flip: assms)
  show "big (bu_xor a b) = big a XOR big b"
    by (rule bit_eqI) (auto simp: bit_big bit_xor_iff bu_xor_def nth simp flip: assms)
qed

section \<open>Shifts\<close>

text \<open>Word \<open>j\<close> of the result, after the words of \<open>a\<close> below \<open>m\<close> have been handled.\<close>

definition shl_word :: "base_uint \<Rightarrow> nat \<Rightarrow> nat \<Rightarrow> nat \<Rightarrow> nat \<Rightarrow> uint32" where
  "shl_word a k sh m j =
     (if k \<le> j \<and> j - k < m then push_bit sh (a ! (j - k)) else 0) OR
     (if sh \<noteq> 0 \<and> k + 1 \<le> j \<and> j - k - 1 < m then drop_bit (32 - sh) (a ! (j - k - 1)) else 0)"

lemma shl_step_nth:
  assumes "length pn = length a" "i < length a" "j < length a"
  shows "shl_step a k sh pn i ! j =
    (if j = i + k then pn ! j OR push_bit sh (a ! i)
     else if j = i + k + 1 \<and> sh \<noteq> 0 then pn ! j OR drop_bit (32 - sh) (a ! i) else pn ! j)"
proof -
  consider "j = i + k" | "j = i + k + 1" | "j \<noteq> i + k" "j \<noteq> i + k + 1" by blast
  then show ?thesis using assms unfolding shl_step_def Let_def by cases simp_all
qed

lemma length_shl_step [simp]: "length (shl_step a k sh pn i) = length pn"
  by (simp add: shl_step_def Let_def)

lemma shl_word_Suc:
  "shl_word a k sh (Suc i) j =
    (if j = i + k then shl_word a k sh i j OR push_bit sh (a ! i)
     else if j = i + k + 1 \<and> sh \<noteq> 0 then shl_word a k sh i j OR drop_bit (32 - sh) (a ! i)
     else shl_word a k sh i j)"
proof -
  consider "j = i + k" | "j = i + k + 1" | "j < k" | "k \<le> j" "j \<noteq> i + k" "j \<noteq> i + k + 1" by linarith
  then show ?thesis
  proof cases
    case 4
    then have "j - k < Suc i \<longleftrightarrow> j - k < i" "k + 1 \<le> j \<Longrightarrow> j - k - 1 < Suc i \<longleftrightarrow> j - k - 1 < i" by linarith+
    with 4 show ?thesis unfolding shl_word_def by (cases "k + 1 \<le> j") simp_all
  qed (simp_all add: shl_word_def or.commute)
qed

lemma shl_rounds:
  assumes "m \<le> length a"
  shows "foldl (shl_step a k sh) (bu_zero (length a)) [0..<m] = map (shl_word a k sh m) [0..<length a]"
  using assms
proof (induction m)
  case 0
  then show ?case by (intro nth_equalityI) (simp_all add: bu_zero_def shl_word_def)
next
  case (Suc m)
  have "foldl (shl_step a k sh) (bu_zero (length a)) [0..<Suc m] =
      shl_step a k sh (map (shl_word a k sh m) [0..<length a]) m"
    using Suc by simp
  also have "\<dots> = map (shl_word a k sh (Suc m)) [0..<length a]"
    using Suc.prems by (intro nth_equalityI) (simp_all add: shl_step_nth shl_word_Suc)
  finally show ?case .
qed

lemma length_bu_shl [simp]: "length (bu_shl a s) = length a"
  by (simp add: bu_shl_def shl_rounds)

text \<open>The same for the other direction.\<close>

definition shr_word :: "base_uint \<Rightarrow> nat \<Rightarrow> nat \<Rightarrow> nat \<Rightarrow> nat \<Rightarrow> uint32" where
  "shr_word a k sh m j =
     (if j + k < m then drop_bit sh (a ! (j + k)) else 0) OR
     (if sh \<noteq> 0 \<and> j + k + 1 < m then push_bit (32 - sh) (a ! (j + k + 1)) else 0)"

lemma shr_step_nth:
  assumes "length pn = length a" "i < length a" "j < length a"
  shows "shr_step a k sh pn i ! j =
    (if j + k = i then pn ! j OR drop_bit sh (a ! i)
     else if j + k + 1 = i \<and> sh \<noteq> 0 then pn ! j OR push_bit (32 - sh) (a ! i) else pn ! j)"
proof -
  have c: "int i - int k - 1 \<ge> 0 \<longleftrightarrow> k < i" "int i - int k \<ge> 0 \<longleftrightarrow> k \<le> i" by linarith+
  consider "j + k = i" | "j + k + 1 = i" | "j + k \<noteq> i" "j + k + 1 \<noteq> i" by blast
  then show ?thesis
  proof cases
    case 1
    then have "i - k = j" "k \<le> i" "i - k - 1 = j \<Longrightarrow> \<not> k < i" by auto
    moreover have "0 < length pn" using assms by linarith
    ultimately show ?thesis using 1 assms unfolding shr_step_def Let_def c by (cases "k < i") auto
  next
    case 2
    then have "i - k - 1 = j" "k < i" "i - k \<noteq> j" by auto
    with 2 assms show ?thesis unfolding shr_step_def Let_def c by simp
  next
    case 3
    then have "k < i \<Longrightarrow> i - k - 1 \<noteq> j" "k \<le> i \<Longrightarrow> i - k \<noteq> j" by auto
    with 3 assms show ?thesis unfolding shr_step_def Let_def c by simp
  qed
qed

lemma length_shr_step [simp]: "length (shr_step a k sh pn i) = length pn"
  by (simp add: shr_step_def Let_def)

lemma shr_word_Suc:
  "shr_word a k sh (Suc i) j =
    (if j + k = i then shr_word a k sh i j OR drop_bit sh (a ! i)
     else if j + k + 1 = i \<and> sh \<noteq> 0 then shr_word a k sh i j OR push_bit (32 - sh) (a ! i)
     else shr_word a k sh i j)"
proof -
  consider "j + k = i" | "j + k + 1 = i" | "j + k \<noteq> i" "j + k + 1 \<noteq> i" by blast
  then show ?thesis
  proof cases
    case 3
    then have "j + k < Suc i \<longleftrightarrow> j + k < i" "j + k + 1 < Suc i \<longleftrightarrow> j + k + 1 < i" by linarith+
    with 3 show ?thesis by (simp add: shr_word_def)
  qed (auto simp add: shr_word_def or.commute)
qed

lemma shr_rounds:
  assumes "m \<le> length a"
  shows "foldl (shr_step a k sh) (bu_zero (length a)) [0..<m] = map (shr_word a k sh m) [0..<length a]"
  using assms
proof (induction m)
  case 0
  then show ?case by (intro nth_equalityI) (simp_all add: bu_zero_def shr_word_def)
next
  case (Suc m)
  have "foldl (shr_step a k sh) (bu_zero (length a)) [0..<Suc m] =
      shr_step a k sh (map (shr_word a k sh m) [0..<length a]) m"
    using Suc by simp
  also have "\<dots> = map (shr_word a k sh (Suc m)) [0..<length a]"
    using Suc.prems by (intro nth_equalityI) (simp_all add: shr_step_nth shr_word_Suc)
  finally show ?case .
qed

lemma length_bu_shr [simp]: "length (bu_shr a s) = length a"
  by (simp add: bu_shr_def shr_rounds)

lemma bit_beyond32: "32 \<le> n \<Longrightarrow> \<not> bit (w :: uint32) n"
  using bit_imp_le_length [of w n] by auto

lemma bit_shl_word:
  assumes "t < 32" "sh < 32"
  shows "bit (shl_word a k sh m j) t \<longleftrightarrow>
    (if sh \<le> t then k \<le> j \<and> j - k < m \<and> bit (a ! (j - k)) (t - sh)
     else k < j \<and> j - k - 1 < m \<and> bit (a ! (j - k - 1)) (t + 32 - sh))"
proof -
  have "\<not> bit (a ! (j - k - 1)) (32 - sh + t)" if "sh \<le> t" using that assms by (intro bit_beyond32) simp
  moreover have "32 - sh + t = t + 32 - sh" using assms by simp
  moreover have "bit (if c then push_bit sh w else 0) t \<longleftrightarrow> c \<and> sh \<le> t \<and> bit w (t - sh)" for c and w :: uint32
    using assms by (simp add: bit_push_bit_iff)
  moreover have "bit (if c then drop_bit (32 - sh) w else 0) t \<longleftrightarrow> c \<and> bit w (32 - sh + t)" for c and w :: uint32
    by (simp add: bit_drop_bit_eq)
  ultimately show ?thesis
    unfolding shl_word_def bit_or_iff by (cases "sh \<le> t") (simp_all add: Suc_le_eq)
qed

lemma bit_shr_word:
  assumes "t < 32" "sh < 32"
  shows "bit (shr_word a k sh m j) t \<longleftrightarrow>
    (if t + sh < 32 then j + k < m \<and> bit (a ! (j + k)) (t + sh)
     else j + k + 1 < m \<and> bit (a ! (j + k + 1)) (t + sh - 32))"
proof -
  have "\<not> bit (a ! (j + k)) (sh + t)" if "\<not> t + sh < 32" using that assms by (intro bit_beyond32) simp
  moreover have "sh \<noteq> 0 \<and> 32 - sh \<le> t \<longleftrightarrow> \<not> t + sh < 32" "t - (32 - sh) = t + sh - 32" using assms by auto
  moreover have "bit (if c then push_bit (32 - sh) w else 0) t \<longleftrightarrow> c \<and> 32 - sh \<le> t \<and> bit w (t - (32 - sh))"
    for c and w :: uint32 using assms by (simp add: bit_push_bit_iff)
  moreover have "bit (if c then drop_bit sh w else 0) t \<longleftrightarrow> c \<and> bit w (sh + t)" for c and w :: uint32
    by (simp add: bit_drop_bit_eq)
  ultimately show ?thesis
    unfolding shr_word_def bit_or_iff by (cases "t + sh < 32") (auto simp: add.commute [of t sh])
qed

lemma div_mod32:
  "n = 32 * j + t \<Longrightarrow> t < 32 \<Longrightarrow> n div 32 = j"
  "n = 32 * j + t \<Longrightarrow> t < 32 \<Longrightarrow> n mod 32 = (t :: nat)"
  by simp_all

lemma big_shl: "big (bu_shl a s) = take_bit (32 * length a) (push_bit s (big a))"
proof (rule bit_eqI)
  fix n :: nat
  define k sh j t where defs: "k = s div 32" "sh = s mod 32" "j = n div 32" "t = n mod 32"
  have s: "s = 32 * k + sh" and sh: "sh < 32" and n: "n = 32 * j + t" and t: "t < 32" by (simp_all add: defs)
  have l: "bit (big (bu_shl a s)) n \<longleftrightarrow> j < length a \<and> bit (shl_word a k sh (length a) j) t"
    by (auto simp: bit_big bu_shl_def shl_rounds simp flip: defs)
  have r: "bit (take_bit (32 * length a) (push_bit s (big a))) n \<longleftrightarrow>
      j < length a \<and> s \<le> n \<and> (n - s) div 32 < length a \<and> bit (a ! ((n - s) div 32)) ((n - s) mod 32)"
    using n t by (auto simp: bit_simps bit_big)
  show "bit (big (bu_shl a s)) n \<longleftrightarrow> bit (take_bit (32 * length a) (push_bit s (big a))) n"
  proof (cases "sh \<le> t")
    case True
    have le: "s \<le> n \<longleftrightarrow> k \<le> j" using True s n t by arith
    have "n - s = 32 * (j - k) + (t - sh)" if "k \<le> j" using that True s n by (simp add: diff_mult_distrib2)
    then have "(n - s) div 32 = j - k" "(n - s) mod 32 = t - sh" if "k \<le> j"
      using that t div_mod32 [of "n - s" "j - k" "t - sh"] by auto
    then show ?thesis unfolding l r bit_shl_word [OF t sh] le using True by auto
  next
    case False
    have le: "s \<le> n \<longleftrightarrow> k < j" using False s n sh by arith
    have "n - s = 32 * (j - k - 1) + (t + 32 - sh)" if "k < j" using that False s n sh by arith
    then have "(n - s) div 32 = j - k - 1" "(n - s) mod 32 = t + 32 - sh" if "k < j"
      using that False div_mod32 [of "n - s" "j - k - 1" "t + 32 - sh"] by auto
    then show ?thesis unfolding l r bit_shl_word [OF t sh] le using False by auto
  qed
qed

lemma big_shr: "big (bu_shr a s) = drop_bit s (big a)"
proof (rule bit_eqI)
  fix n :: nat
  define k sh j t where defs: "k = s div 32" "sh = s mod 32" "j = n div 32" "t = n mod 32"
  have s: "s = 32 * k + sh" and sh: "sh < 32" and n: "n = 32 * j + t" and t: "t < 32" by (simp_all add: defs)
  have l: "bit (big (bu_shr a s)) n \<longleftrightarrow> j < length a \<and> bit (shr_word a k sh (length a) j) t"
    by (auto simp: bit_big bu_shr_def shr_rounds simp flip: defs)
  have r: "bit (drop_bit s (big a)) n \<longleftrightarrow> (s + n) div 32 < length a \<and> bit (a ! ((s + n) div 32)) ((s + n) mod 32)"
    by (simp add: bit_simps bit_big)
  show "bit (big (bu_shr a s)) n \<longleftrightarrow> bit (drop_bit s (big a)) n"
  proof (cases "t + sh < 32")
    case True
    have "s + n = 32 * (j + k) + (t + sh)" using s n by simp
    from div_mod32 [OF this True] True show ?thesis unfolding l r bit_shr_word [OF t sh] by auto
  next
    case False
    then have "s + n = 32 * (j + k + 1) + (t + sh - 32)" using s n by arith
    moreover have "t + sh - 32 < 32" using t sh by simp
    ultimately have "(s + n) div 32 = j + k + 1" "(s + n) mod 32 = t + sh - 32" by (simp_all only: div_mod32)
    with False show ?thesis unfolding l r bit_shr_word [OF t sh] by auto
  qed
qed

section \<open>Comparison\<close>

lemma compare_from_top_sound:
  assumes "length xs = length ys"
  shows "compare_from_top xs ys =
    (if big (rev xs) < big (rev ys) then -1 else if big (rev xs) > big (rev ys) then 1 else 0)"
  using assms
proof (induction xs ys rule: list_induct2)
  case (Cons x xs y ys)
  define P where "P = (2 :: nat) ^ (32 * length xs)"
  have ub: "big (rev xs) < P" "big (rev ys) < P"
    using big_lt [of "rev xs"] big_lt [of "rev ys"] Cons.hyps by (simp_all add: P_def)
  have b: "big (rev (x # xs)) = big (rev xs) + P * unat x" "big (rev (y # ys)) = big (rev ys) + P * unat y"
    using Cons.hyps by (simp_all add: big_append P_def)
  have lt: "u + P * m < v + P * n" if "u < P" "m < n" for u v m n
  proof -
    have "u + P * m < P * Suc m" using that by simp
    also have "\<dots> \<le> P * n" using that by (intro mult_le_mono2) simp
    finally show ?thesis by simp
  qed
  consider "x < y" | "y < x" | "x = y" by fastforce
  then show ?case
  proof cases
    case 1
    then have "big (rev (x # xs)) < big (rev (y # ys))" unfolding b using lt ub by (simp add: word_less_nat_alt)
    with 1 show ?thesis by simp
  next
    case 2
    then have "big (rev (y # ys)) < big (rev (x # xs))" unfolding b using lt ub by (simp add: word_less_nat_alt)
    with 2 show ?thesis by (auto dest: less_not_sym)
  next
    case 3
    then show ?thesis unfolding b using Cons.IH by simp
  qed
qed simp

lemma CompareTo_sound:
  "length a = length b \<Longrightarrow>
    CompareTo a b = (if big a < big b then -1 else if big a > big b then 1 else 0)"
  by (simp add: CompareTo_def compare_from_top_sound)

section \<open>Bit length\<close>

text \<open>\<open>n\<close> is the position above the highest bit of \<open>m\<close>, and 0 for 0.\<close>

definition bit_length :: "nat \<Rightarrow> nat \<Rightarrow> bool" where
  "bit_length m n \<longleftrightarrow> m < 2 ^ n \<and> (n = 0 \<or> 2 ^ (n - 1) \<le> m)"

lemma word_bits_sound:
  assumes "unat w < 2 ^ Suc b" "w \<noteq> 0"
  shows "bit_length (unat w) (word_bits w b)" "0 < word_bits w b"
proof -
  have "bit_length (unat w) (word_bits w b) \<and> 0 < word_bits w b"
    using assms
  proof (induction b)
    case 0
    then have "unat w = 1" by (simp add: less_2_cases_iff unat_eq_zero)
    then show ?case by (simp add: bit_length_def)
  next
    case (Suc b)
    have bit: "w AND push_bit (Suc b) 1 \<noteq> 0 \<longleftrightarrow> bit (unat w) (Suc b)"
      unfolding bit_unat32 by (simp only: bit_iff_and_push_bit_not_eq_0)
    show ?case
    proof (cases "bit (unat w) (Suc b)")
      case True
      then have "2 ^ Suc b \<le> unat w" by (metis bit_iff_odd div_less even_zero not_le)
      with True bit Suc.prems show ?thesis by (simp add: bit_length_def)
    next
      case False
      have "unat w div 2 ^ Suc b < 2" using Suc.prems(1) by (intro less_mult_imp_div_less) simp
      with False have "unat w div 2 ^ Suc b = 0" unfolding bit_iff_odd by (metis less_2_cases odd_one One_nat_def)
      then have "unat w < 2 ^ Suc b" by (simp add: div_eq_0_iff del: power_Suc)
      from Suc.IH [OF this Suc.prems(2)] False bit show ?thesis by simp
    qed
  qed
  then show "bit_length (unat w) (word_bits w b)" "0 < word_bits w b" by simp_all
qed

lemma bits_from_sound: "pos \<le> length pn \<Longrightarrow> bit_length (big (take pos pn)) (bits_from pn pos)"
proof (induction pos)
  case 0
  then show ?case by (simp add: bit_length_def)
next
  case (Suc pos)
  define P where "P = (2 :: nat) ^ (32 * pos)"
  have b: "big (take (Suc pos) pn) = big (take pos pn) + P * unat (pn ! pos)"
    using Suc.prems by (simp add: take_Suc_conv_app_nth big_append P_def)
  show ?case
  proof (cases "pn ! pos = 0")
    case False
    define n where "n = word_bits (pn ! pos) 31"
    have n: "unat (pn ! pos) < 2 ^ n" "2 ^ (n - 1) \<le> unat (pn ! pos)" "0 < n"
      using word_bits_sound [of "pn ! pos" 31] False unat32_lt [of "pn ! pos"]
      by (simp_all add: bit_length_def n_def)
    have "big (take pos pn) < P" using big_lt [of "take pos pn"] Suc.prems by (simp add: P_def)
    then have "big (take (Suc pos) pn) < P * Suc (unat (pn ! pos))" unfolding b by simp
    also have "\<dots> \<le> P * 2 ^ n" using n(1) by (intro mult_le_mono2) simp
    finally have 1: "big (take (Suc pos) pn) < 2 ^ (32 * pos + n)" by (simp add: P_def power_add)
    have "2 ^ (32 * pos + n - 1) = P * 2 ^ (n - 1)" using n(3) by (simp add: P_def flip: power_add)
    also have "\<dots> \<le> big (take (Suc pos) pn)" unfolding b using n(2) by (intro trans_le_add2 mult_le_mono2)
    finally show ?thesis using 1 False by (simp add: bit_length_def n_def)
  qed (use Suc b in simp)
qed

lemma bu_bits_sound: "bit_length (big pn) (bu_bits pn)"
  using bits_from_sound [of "length pn" pn] by (simp add: bu_bits_def)

lemma bit_length_le: "bit_length m n \<Longrightarrow> m < 2 ^ k \<Longrightarrow> n \<le> k"
  unfolding bit_length_def
  by (metis One_nat_def Suc_pred le_less_trans less_Suc_eq_le less_nat_zero_code not_gr0 not_less_eq_eq
      numeral_2_eq_2 power_less_imp_less_exp lessI zero_le)

lemma bu_bits_le: "bu_bits pn \<le> 32 * length pn"
  using bit_length_le [OF bu_bits_sound big_lt] .

lemma bu_bits_0: "bu_bits pn = 0 \<longleftrightarrow> big pn = 0"
  using bu_bits_sound [of pn] by (cases "bu_bits pn") (auto simp: bit_length_def)

section \<open>Long division\<close>

lemma big_set_bit:
  assumes "s < 32 * length pn" "\<not> bit (big pn) s"
  shows "big (pn[s div 32 := pn ! (s div 32) OR push_bit (s mod 32) 1]) = big pn + 2 ^ s"
proof -
  have "big (pn[s div 32 := pn ! (s div 32) OR push_bit (s mod 32) 1]) = big pn OR 2 ^ s"
  proof (rule bit_eqI)
    fix n :: nat
    have "n = s \<longleftrightarrow> n div 32 = s div 32 \<and> n mod 32 = s mod 32" by (metis div_mult_mod_eq)
    moreover have "bit (push_bit (s mod 32) 1 :: uint32) (n mod 32) \<longleftrightarrow> n mod 32 = s mod 32"
      by (auto simp: push_bit_of_1 bit_exp_iff)
    ultimately show "bit (big (pn[s div 32 := pn ! (s div 32) OR push_bit (s mod 32) 1])) n \<longleftrightarrow>
        bit (big pn OR 2 ^ s) n"
      using assms(1)
      by (cases "n div 32 = s div 32") (auto simp: bit_big bit_or_iff bit_exp_iff less_mult_imp_div_less mult.commute)
  qed
  also have "\<dots> = big pn + 2 ^ s"
    using assms(2) by (subst disjunctive_add_eq_or) (auto intro!: bit_eqI simp: bit_and_iff bit_exp_iff)
  finally show ?thesis .
qed

lemma length_div_loop: "length (div_loop num dv pn s) = length pn"
  by (induction s arbitrary: num dv pn) (subst div_loop.simps, simp add: Let_def)+

text \<open>
  Before the round of \<open>s\<close>: the divisor stands shifted by \<open>s\<close>, the remainder is below twice of it and
  the quotient found so far is a multiple of \<open>2 ^ (s + 1)\<close>.
\<close>

lemma div_loop_quotient:
  assumes "length dv = length num" "length pn = length num" "s < 32 * length num"
    and "big dv = D * 2 ^ s" "big num < D * 2 ^ Suc s" "2 ^ Suc s dvd big pn"
    and "A = big pn * D + big num" "big pn < 2 ^ (32 * length num)"
  shows "big (div_loop num dv pn s) = A div D"
  using assms
proof (induction s arbitrary: num dv pn)
  case (0 num dv pn)
  have "\<not> bit (big pn) 0" using "0.prems"(6) by (simp add: bit_0)
  then have set: "big (pn[0 := pn ! 0 OR 1]) = big pn + 1"
    using big_set_bit [of 0 pn] "0.prems" by simp
  have "div_loop num dv pn 0 = (if big num \<ge> big dv then pn[0 := pn ! 0 OR 1] else pn)"
    using "0.prems" by (subst div_loop.simps) (simp add: Let_def CompareTo_sound)
  moreover have "A div D = (if big num \<ge> big dv then big pn + 1 else big pn)"
    using "0.prems" by (intro div_nat_eqI) (auto simp: algebra_simps)
  ultimately show ?case using set by simp
next
  case (Suc s num dv pn)
  define pn' where "pn' = pn[Suc s div 32 := pn ! (Suc s div 32) OR push_bit (Suc s mod 32) 1]"
  have ge0: "CompareTo num dv \<ge> 0 \<longleftrightarrow> big dv \<le> big num" using Suc.prems(1) by (simp add: CompareTo_sound)
  have dv: "big (bu_shr dv (Suc 0)) = D * 2 ^ s" unfolding big_shr using Suc.prems(4) by (simp add: drop_bit_eq_div)
  have pn: "\<not> bit (big pn) (Suc s)"
    using Suc.prems(6) by (auto simp: bit_iff_odd elim!: dvdE)
  then have set: "big pn' = big pn + 2 ^ Suc s"
    using big_set_bit [of "Suc s" pn] Suc.prems(2,3) by (simp add: pn'_def)
  have len: "length pn' = length pn" by (simp add: pn'_def)
  have dvd: "2 ^ Suc s dvd big pn" using Suc.prems(6) by (rule power_le_dvd) simp
  show ?case
  proof (cases "big dv \<le> big num")
    case True
    have sub: "big (bu_sub num dv) = big num - big dv" using True Suc.prems(1) by (simp add: big_sub_le)
    have "A = big pn' * D + (big num - big dv)" using Suc.prems(4,7) True set by (simp add: algebra_simps)
    moreover have "big num - big dv < D * 2 ^ Suc s" using Suc.prems(4,5) by simp
    ultimately have "big (div_loop (bu_sub num dv) (bu_shr dv (Suc 0)) pn' s) = A div D"
      using Suc.prems(1,2,3,4,5) True dvd big_lt [of pn']
      by (intro Suc.IH) (auto simp: dv sub set len simp del: power_Suc)
    then show ?thesis using True by (subst div_loop.simps) (simp add: ge0 pn'_def)
  next
    case False
    have "big (div_loop num (bu_shr dv (Suc 0)) pn s) = A div D"
      using Suc.prems(1,2,3,4,5,7,8) False dvd by (intro Suc.IH) (auto simp: dv)
    then show ?thesis using False by (subst div_loop.simps) (simp add: ge0)
  qed
qed

lemma bu_div_quotient:
  assumes len: "length a = length b" and nz: "big b \<noteq> 0"
  obtains q where "bu_div a b = Ok q" "length q = length a" "big q = big a div big b"
proof (cases "bu_bits b > bu_bits a")
  case True
  have "big a < 2 ^ bu_bits a" using bu_bits_sound [of a] by (simp add: bit_length_def)
  also have "(2 :: nat) ^ bu_bits a \<le> 2 ^ (bu_bits b - 1)" using True by (intro power_increasing) auto
  also have "\<dots> \<le> big b" using bu_bits_sound [of b] True by (simp add: bit_length_def)
  finally have "big a div big b = 0" by simp
  with True nz show ?thesis by (intro that [of "bu_zero (length a)"]) (simp_all add: bu_div_def bu_bits_0)
next
  case False
  define s where "s = bu_bits a - bu_bits b"
  have pos: "0 < bu_bits b" using nz bu_bits_0 [of b] by simp
  have ba: "big a < 2 ^ bu_bits a" and bb: "big b < 2 ^ bu_bits b" "2 ^ (bu_bits b - 1) \<le> big b"
    using bu_bits_sound [of a] bu_bits_sound [of b] pos by (simp_all add: bit_length_def)
  have s: "s < 32 * length a" using bu_bits_le [of a] pos False by (simp add: s_def)
  have "big b * 2 ^ s < 2 ^ (bu_bits b + s)" using bb(1) by (simp add: power_add)
  also have "\<dots> \<le> 2 ^ (32 * length a)" using bu_bits_le [of a] False by (intro power_increasing) (simp_all add: s_def)
  finally have shl: "big (bu_shl b s) = big b * 2 ^ s"
    by (simp add: big_shl push_bit_eq_mult take_bit_nat_eq_self len)
  have "big a < 2 ^ (bu_bits b - 1 + Suc s)" using ba False pos by (simp add: s_def)
  also have "\<dots> \<le> big b * 2 ^ Suc s" unfolding power_add using bb(2) by (rule mult_le_mono1)
  finally have "big (div_loop a (bu_shl b s) (bu_zero (length a)) s) = big a div big b"
    using s len by (intro div_loop_quotient) (simp_all add: shl)
  with False nz show ?thesis
    by (intro that [of "div_loop a (bu_shl b s) (bu_zero (length a)) s"])
      (simp_all add: bu_div_def bu_bits_0 s_def Let_def length_div_loop)
qed

lemma bu_div_by_zero: "big b = 0 \<Longrightarrow> bu_div a b = Throw runtime_error"
  by (simp add: bu_div_def bu_bits_0)

section \<open>64-bit operands\<close>

lemma GetLow64_value:
  assumes "2 \<le> length pn"
  shows "unat (GetLow64 pn) = big pn mod 2 ^ 64"
proof -
  have "unat (GetLow64 pn) = take_bit 64 (big pn)"
  proof (rule bit_eqI)
    fix n :: nat
    consider "n < 32" | "32 \<le> n" "n < 64" "n div 32 = 1" "n mod 32 = n - 32" | "64 \<le> n"
      using div_mod32 [of n 1 "n - 32"] by fastforce
    then show "bit (unat (GetLow64 pn)) n \<longleftrightarrow> bit (take_bit 64 (big pn)) n"
      using assms bit_beyond32 [of n "pn ! 0"]
      by cases (auto simp: GetLow64_def bit_unsigned_iff bit_take_bit_iff bit_big bit_or_iff bit_push_bit_iff)
  qed
  then show ?thesis by (simp add: take_bit_eq_mod)
qed

lemma bu_of_uint64_value: "2 \<le> W \<Longrightarrow> big (bu_of_uint64 W b) = unat b" "2 \<le> W \<Longrightarrow> length (bu_of_uint64 W b) = W"
proof -
  have "unat (drop_bit 32 b) < 2 ^ 32" using unat64_lt [of b] by (simp add: split64)
  then have "unat (ucast (drop_bit 32 b) :: uint32) = unat b div 2 ^ 32"
    by (simp add: split64 unsigned_ucast_eq take_bit_nat_def)
  moreover have "unat (ucast b :: uint32) = unat b mod 2 ^ 32"
    by (simp add: unsigned_ucast_eq take_bit_nat_def)
  ultimately show "big (bu_of_uint64 W b) = unat b" by (simp add: bu_of_uint64_def)
  show "2 \<le> W \<Longrightarrow> length (bu_of_uint64 W b) = W" by (simp add: bu_of_uint64_def)
qed

lemma div_mod_iff: "x < m \<Longrightarrow> b = x + m * y \<longleftrightarrow> y = b div m \<and> x = b mod (m :: nat)"
  by (metis add.commute div_mult_self4 div_less add_0_right mod_less mod_mult_self2 mod_mult_div_eq
      less_nat_zero_code)

lemma EqualTo_iff:
  assumes "2 \<le> length pn"
  shows "EqualTo pn b \<longleftrightarrow> big pn = unat b"
proof -
  obtain x y r where pn: "pn = x # y # r" using assms by (cases pn; cases "tl pn") auto
  have hi: "ucast y = drop_bit 32 b \<longleftrightarrow> unat y = unat b div 2 ^ 32"
    by (simp add: word_unat_eq_iff unsigned_ucast_eq take_bit_nat_def split64 less_trans [OF unat32_lt])
  have "b AND 0xffffffff = take_bit 32 b" by (simp add: take_bit_eq_mask mask_eq_exp_minus_1)
  then have lo: "ucast x = b AND 0xffffffff \<longleftrightarrow> unat x = unat b mod 2 ^ 32"
    by (simp add: word_unat_eq_iff unsigned_ucast_eq take_bit_nat_def unsigned_take_bit_eq less_trans [OF unat32_lt])
  have "EqualTo pn b \<longleftrightarrow> big r = 0 \<and> unat y = unat b div 2 ^ 32 \<and> unat x = unat b mod 2 ^ 32"
    using bu_is_zero_iff [of r] by (auto simp: EqualTo_def pn hi lo bu_is_zero_def)
  also have "\<dots> \<longleftrightarrow> big pn = unat b"
  proof -
    have "big pn = unat x + 2 ^ 32 * (unat y + 2 ^ 32 * big r)" by (simp add: pn)
    moreover from this have "big pn = unat b \<Longrightarrow> big r = 0" using unat64_lt [of b] by (cases "big r") simp_all
    moreover have "unat b = unat x + 2 ^ 32 * unat y \<longleftrightarrow> unat y = unat b div 2 ^ 32 \<and> unat x = unat b mod 2 ^ 32"
      using unat32_lt by (rule div_mod_iff)
    ultimately show ?thesis by (metis add_0_right mult_0_right)
  qed
  finally show ?thesis .
qed

text \<open>
  C24: \<open>operator/=\<close> of \<open>base_uint\<close> is integer division: for operands of the same width it throws
  \<open>runtime_error\<close> for a zero divisor, and otherwise returns the quotient, in an array of that width.
\<close>

theorem base_uint_division:
  assumes "length a = length b"
  shows "case bu_div a b of Ok q \<Rightarrow> big b \<noteq> 0 \<and> length q = length a \<and> big q = big a div big b
       | Throw e \<Rightarrow> big b = 0 \<and> e = runtime_error | _ \<Rightarrow> False"
proof (cases "big b = 0")
  case False
  with assms obtain q where "bu_div a b = Ok q" "length q = length a" "big q = big a div big b"
    by (rule bu_div_quotient)
  with False show ?thesis by simp
qed (simp add: bu_div_by_zero)

theorem base_uint_division_witness:
  "case bu_div [7, 0, 5] [3, 1, 0] of Ok q \<Rightarrow> big [3, 1, 0] \<noteq> 0 \<and> length q = length [7, 0, 5 :: uint32] \<and>
     big q = big [7, 0, 5] div big [3, 1, 0]
   | Throw e \<Rightarrow> big [3, 1, 0] = 0 \<and> e = runtime_error | _ \<Rightarrow> False"
  by (rule base_uint_division) simp

text \<open>
  The ring operators compute modulo \<open>2 ^ BITS\<close>, the shifts and the comparison on the number itself.
\<close>

theorem base_uint_arithmetic:
  assumes "length a = length b"
  defines "M \<equiv> 2 ^ (32 * length a)"
  shows "big (bu_add a b) = (big a + big b) mod M \<and>
    big (bu_sub a b) = (big a + M - big b) mod M \<and>
    big (bu_mul a b) = (big a * big b) mod M \<and>
    big (bu_shl a n) = (big a * 2 ^ n) mod M \<and>
    big (bu_shr a n) = big a div 2 ^ n \<and>
    (CompareTo a b < 0 \<longleftrightarrow> big a < big b) \<and> (CompareTo a b = 0 \<longleftrightarrow> a = b)"
  using assms(1)
  by (simp add: M_def big_add big_sub big_mul big_shl big_shr CompareTo_sound push_bit_eq_mult
      drop_bit_eq_div take_bit_eq_mod flip: big_eq_iff)

theorem base_uint_arithmetic_witness:
  "big (bu_add [1, 2] [3, 4]) = (big [1, 2] + big [3, 4]) mod 2 ^ 64 \<and>
   big (bu_sub [1, 2] [3, 4]) = (big [1, 2] + 2 ^ 64 - big [3, 4]) mod 2 ^ 64 \<and>
   (CompareTo [1, 2] [3, 4] < 0 \<longleftrightarrow> big [1, 2] < big [3, 4])"
  using base_uint_arithmetic [of "[1, 2]" "[3, 4]"] by simp

end
