(* ===== verification/ArithCompact.thy ===== *)
theory ArithCompact
  imports ArithDivision Transaction
begin

text \<open>
  \<open>arith_uint256\<close>: the compact (floating point) format of difficulty targets, the conversions from and
  to \<open>uint256\<close>, and \<open>GetHash\<close>, from \<open>src/src/arith_uint256.cpp\<close>. The sizes and shift counts of the C++
  code stay far below \<open>2 ^ 31\<close> and are natural numbers here; the compact value, the mantissa and the
  64-bit low part keep their widths.
\<close>

section \<open>Definitions\<close>

definition SetCompact :: "uint32 \<Rightarrow> base_uint \<times> bool \<times> bool" where
  "SetCompact nCompact =
     (let nSize = unat (drop_bit 24 nCompact);
          nWord = nCompact AND 0x007fffff;
          (v, nWord) =
            (if nSize \<le> 3 then (let nWord = drop_bit (8 * (3 - nSize)) nWord in (bu_of_uint64 8 (ucast nWord), nWord))
             else (bu_shl (bu_of_uint64 8 (ucast nWord)) (8 * (nSize - 3)), nWord))
      in (v, nWord \<noteq> 0 \<and> nCompact AND 0x00800000 \<noteq> 0,
          nWord \<noteq> 0 \<and> (nSize > 34 \<or> (nWord > 0xff \<and> nSize > 33) \<or> (nWord > 0xffff \<and> nSize > 32))))"

definition GetCompact :: "base_uint \<Rightarrow> bool \<Rightarrow> (unit, uint32) outcome" where
  "GetCompact pn fNegative =
     (let nSize = (bu_bits pn + 7) div 8;
          nCompact = (if nSize \<le> 3 then ucast (push_bit (8 * (3 - nSize)) (GetLow64 pn))
                      else ucast (GetLow64 (bu_shr pn (8 * (nSize - 3))))) :: uint32;
          (nCompact, nSize) = (if nCompact AND 0x00800000 \<noteq> 0 then (drop_bit 8 nCompact, nSize + 1)
                               else (nCompact, nSize))
      in if nCompact AND NOT 0x007fffff \<noteq> 0 then Abort
         else if \<not> nSize < 256 then Abort
         else let nCompact = nCompact OR push_bit 24 (of_nat nSize)
              in Ok (nCompact OR (if fNegative \<and> nCompact AND 0x007fffff \<noteq> 0 then 0x00800000 else 0)))"

definition ArithToUint256 :: "base_uint \<Rightarrow> uint256" where
  "ArithToUint256 a = uint256_of_bytes (concat (map WriteLE32 a))"

definition UintToArith256 :: "uint256 \<Rightarrow> base_uint" where
  "UintToArith256 a = map (\<lambda>x. ReadLE32 (Serialize_word a) (x * 4)) [0..<8]"

text \<open>\<open>get_byte\<close> converts a 32-bit word to \<open>uint8_t\<close>, which keeps its low eight bits.\<close>

definition get_byte :: "base_uint \<Rightarrow> nat \<Rightarrow> byte" where
  "get_byte pn i = ucast (pn ! i)"

definition HashMix :: "uint32 \<Rightarrow> uint32 \<Rightarrow> uint32 \<Rightarrow> uint32 \<times> uint32 \<times> uint32" where
  "HashMix a b c =
     (let a = a - c; a = a XOR (push_bit 4 c OR drop_bit 28 c); c = c + b;
          b = b - a; b = b XOR (push_bit 6 a OR drop_bit 26 a); a = a + c;
          c = c - b; c = c XOR (push_bit 8 b OR drop_bit 24 b); b = b + a;
          a = a - c; a = a XOR (push_bit 16 c OR drop_bit 16 c); c = c + b;
          b = b - a; b = b XOR (push_bit 19 a OR drop_bit 13 a); a = a + c;
          c = c - b; c = c XOR (push_bit 4 b OR drop_bit 28 b); b = b + a
      in (a, b, c))"

definition HashFinal :: "uint32 \<Rightarrow> uint32 \<Rightarrow> uint32 \<Rightarrow> uint32 \<times> uint32 \<times> uint32" where
  "HashFinal a b c =
     (let c = c XOR b; c = c - (push_bit 14 b OR drop_bit 18 b);
          a = a XOR c; a = a - (push_bit 11 c OR drop_bit 21 c);
          b = b XOR a; b = b - (push_bit 25 a OR drop_bit 7 a);
          c = c XOR b; c = c - (push_bit 16 b OR drop_bit 16 b);
          a = a XOR c; a = a - (push_bit 4 c OR drop_bit 28 c);
          b = b XOR a; b = b - (push_bit 14 a OR drop_bit 18 a);
          c = c XOR b; c = c - (push_bit 24 b OR drop_bit 8 b)
      in (a, b, c))"

definition arith_GetHash :: "base_uint \<Rightarrow> base_uint \<Rightarrow> uint64" where
  "arith_GetHash ref salt =
     (let mix = (\<lambda>i. ucast (get_byte ref i XOR get_byte salt i)) :: nat \<Rightarrow> uint32;
          a = 0xdeadbeef + push_bit 2 32; b = a; c = a;
          a = a + mix 0; b = b + mix 1; c = c + mix 2;
          (a, b, c) = HashMix a b c;
          a = a + mix 3; b = b + mix 4; c = c + mix 5;
          (a, b, c) = HashMix a b c;
          a = a + mix 6; b = b + mix 7;
          (a, b, c) = HashFinal a b c
      in push_bit 32 (ucast b) OR ucast c)"

section \<open>Conversions\<close>

lemma big_le_decode: "big (map (\<lambda>x. ReadLE32 bs (x * 4)) [0..<n]) = le_decode (take (4 * n) bs)" if "4 * n \<le> length bs"
  using that
proof (induction n)
  case (Suc n)
  have "unat (ReadLE32 bs (n * 4)) = le_decode (take 4 (drop (4 * n) bs))"
    using le_decode_lt [of "take 4 (drop (4 * n) bs)"] Suc.prems
    by (simp add: ReadLE32_def unsigned_of_nat take_bit_nat_eq_self mult.commute)
  moreover have "take (4 * Suc n) bs = take (4 * n) bs @ take 4 (drop (4 * n) bs)"
    by (simp add: take_add [symmetric] add.commute)
  moreover have "(2 :: nat) ^ (32 * n) = 256 ^ (4 * n)" by (simp add: power_mult)
  ultimately show ?case using Suc by (simp add: big_append le_decode_append)
qed simp

lemma length_UintToArith256 [simp]: "length (UintToArith256 h) = 8"
  by (simp add: UintToArith256_def)

lemma big_UintToArith256: "big (UintToArith256 h) = unat h"
proof -
  have "unat h < 256 ^ 32" using unsigned_less [of h] by simp
  then show ?thesis by (simp add: UintToArith256_def big_le_decode Serialize_word_def le_decode_encode)
qed

lemma le_decode_words: "le_decode (concat (map WriteLE32 a)) = big a"
  by (induction a)
    (simp_all add: le_decode_append WriteLE32_def le_decode_encode less_trans [OF unat32_lt] mod_less
      unat32_lt [simplified])

lemma ArithToUint256_value: "length a = 8 \<Longrightarrow> unat (ArithToUint256 a) = big a"
  using big_lt [of a]
  by (simp add: ArithToUint256_def uint256_of_bytes_def le_decode_words unsigned_of_nat take_bit_nat_eq_self)

lemma Uint256_Arith_inverse:
  "ArithToUint256 (UintToArith256 h) = h" "length a = 8 \<Longrightarrow> UintToArith256 (ArithToUint256 a) = a"
  by (simp_all add: word_unat_eq_iff ArithToUint256_value big_UintToArith256 flip: big_eq_iff)

section \<open>The compact format on numbers\<close>

text \<open>The number of bytes of \<open>n\<close>.\<close>

definition byte_length :: "nat \<Rightarrow> nat \<Rightarrow> bool" where
  "byte_length n s \<longleftrightarrow> n < 256 ^ s \<and> (s = 0 \<or> 256 ^ (s - 1) \<le> n)"

lemma byte_length_bits: "bit_length n k \<Longrightarrow> byte_length n ((k + 7) div 8)"
proof -
  assume a: "bit_length n k"
  define s where "s = (k + 7) div 8"
  have k: "k \<le> 8 * s" "s = 0 \<or> 8 * (s - 1) \<le> k - 1" "s = 0 \<longleftrightarrow> k = 0" unfolding s_def by presburger+
  have p: "(256 :: nat) ^ i = 2 ^ (8 * i)" for i by (simp add: power_mult)
  have "n < 2 ^ k" using a by (simp add: bit_length_def)
  also have "(2 :: nat) ^ k \<le> 2 ^ (8 * s)" using k(1) by (intro power_increasing) auto
  finally have "n < 256 ^ s" unfolding p .
  moreover have "256 ^ (s - 1) \<le> n" if "s \<noteq> 0"
  proof -
    have "(2 :: nat) ^ (8 * (s - 1)) \<le> 2 ^ (k - 1)" using k(2) that by (intro power_increasing) auto
    also have "\<dots> \<le> n" using a k(3) that by (simp add: bit_length_def)
    finally show ?thesis unfolding p .
  qed
  ultimately show ?thesis by (auto simp: byte_length_def s_def)
qed

lemma byte_length_unique: "byte_length n s \<Longrightarrow> byte_length n s' \<Longrightarrow> s = s'"
proof -
  have "\<not> i < j" if "byte_length n i" "byte_length n j" for i j
  proof
    assume "i < j"
    then have "(256 :: nat) ^ i \<le> 256 ^ (j - 1)" by (intro power_increasing) auto
    moreover have "n < 256 ^ i" "256 ^ (j - 1) \<le> n" using that \<open>i < j\<close> by (simp_all add: byte_length_def)
    ultimately show False by linarith
  qed
  then show "byte_length n s \<Longrightarrow> byte_length n s' \<Longrightarrow> s = s'" using nat_neq_iff by metis
qed

text \<open>Mantissa and exponent of a number of \<open>s\<close> bytes.\<close>

definition compact_mantissa :: "nat \<Rightarrow> nat \<Rightarrow> nat" where
  "compact_mantissa n s = (if s \<le> 3 then n * 256 ^ (3 - s) else n div 256 ^ (s - 3))"

definition compact_parts :: "nat \<Rightarrow> nat \<Rightarrow> nat \<times> nat" where
  "compact_parts n s =
     (let m = compact_mantissa n s in if 2 ^ 23 \<le> m then (m div 256, s + 1) else (m, s))"

definition compact_value :: "nat \<Rightarrow> nat \<Rightarrow> nat" where
  "compact_value m e = (if e \<le> 3 then m div 256 ^ (3 - e) else m * 256 ^ (e - 3))"

lemma compact_parts_small:
  assumes "byte_length n s" "s \<le> 3"
  shows "case compact_parts n s of (m, e) \<Rightarrow>
    m < 2 ^ 23 \<and> compact_value m e \<le> n \<and> 2 ^ 15 * (n - compact_value m e) \<le> n \<and>
    byte_length (compact_value m e) s \<and> compact_parts (compact_value m e) s = (m, e)"
proof -
  consider "s = 0" | "s = 1" | "s = 2" | "s = 3" using assms(2) by linarith
  then show ?thesis
  proof cases
    case 4
    let ?v = "n div 256 * 256"
    have n: "65536 \<le> n" "n < 16777216" using 4 assms(1) by (simp_all add: byte_length_def)
    have v: "?v + n mod 256 = n" "n mod 256 < 256" by simp_all
    have ge: "k * 256 \<le> n \<Longrightarrow> k * 256 \<le> ?v" for k using div_le_mono [of "k * 256" n 256] by simp
    have "?v \<le> n" "8388608 \<le> n \<Longrightarrow> 8388608 \<le> ?v" "65536 \<le> ?v" "8388608 \<le> n \<Longrightarrow> 32768 * (n - ?v) \<le> n"
      using n v ge [of 32768] ge [of 256] by linarith+
    with 4 n show ?thesis
      by (cases "8388608 \<le> n") (auto simp: compact_parts_def compact_mantissa_def compact_value_def byte_length_def)
  next
    case 2
    have "n * 65536 div 256 = n * 256" by presburger
    with 2 assms show ?thesis
      by (cases "128 \<le> n") (simp_all add: Let_def compact_parts_def compact_mantissa_def compact_value_def byte_length_def)
  next
    case 3
    with assms show ?thesis
      by (cases "32768 \<le> n")
        (simp_all add: Let_def compact_parts_def compact_mantissa_def compact_value_def byte_length_def)
  qed (use assms in \<open>simp add: compact_parts_def compact_mantissa_def compact_value_def byte_length_def\<close>)
qed

lemma compact_parts_large:
  assumes "byte_length n s" "3 < s"
  shows "case compact_parts n s of (m, e) \<Rightarrow>
    m < 2 ^ 23 \<and> compact_value m e \<le> n \<and> 2 ^ 15 * (n - compact_value m e) \<le> n \<and>
    byte_length (compact_value m e) s \<and> compact_parts (compact_value m e) s = (m, e)"
proof -
  define K where "K = (256 :: nat) ^ (s - 3)"
  define m0 where "m0 = n div K"
  have K: "0 < K" "(256 :: nat) ^ s = 2 ^ 24 * K" "(256 :: nat) ^ (s - 1) = 2 ^ 16 * K"
  proof -
    obtain d where "s = Suc (Suc (Suc (Suc d)))" using assms(2) by (metis add_Suc_right less_imp_Suc_add numeral_3_eq_3 plus_nat.simps)
    then show "0 < K" "(256 :: nat) ^ s = 2 ^ 24 * K" "(256 :: nat) ^ (s - 1) = 2 ^ 16 * K"
      by (simp_all add: K_def numeral_3_eq_3)
  qed
  have n: "n < 2 ^ 24 * K" "2 ^ 16 * K \<le> n"
    using assms unfolding byte_length_def K(2) K(3) by auto
  have m0: "2 ^ 16 \<le> m0" "m0 < 2 ^ 24"
    unfolding m0_def using n K(1) by (auto simp: less_eq_div_iff_mult_less_eq intro!: less_mult_imp_div_less)
  have mod: "n = m0 * K + n mod K" "n mod K < K" using K(1) by (simp_all add: m0_def)
  show ?thesis
  proof (cases "2 ^ 23 \<le> m0")
    case False
    have "n - m0 * K < K" using mod by linarith
    then have "2 ^ 15 * (n - m0 * K) \<le> 2 ^ 16 * K" by simp
    moreover have "m0 * K < 2 ^ 24 * K" "2 ^ 16 * K \<le> m0 * K" using m0 K(1) by simp_all
    ultimately show ?thesis using False assms(2) K mod n
      by (simp add: compact_parts_def compact_mantissa_def compact_value_def byte_length_def flip: K_def m0_def)
  next
    case True
    define m where "m = m0 div 256"
    define v where "v = m * 256 * K"
    have m: "m * 256 \<le> m0" "m0 < m * 256 + 256" "2 ^ 15 \<le> m" "m < 2 ^ 16"
      using True m0 unfolding m_def by (simp_all add: less_eq_div_iff_mult_less_eq less_mult_imp_div_less)
    have "v \<le> m0 * K" unfolding v_def using m(1) by (rule mult_le_mono1)
    then have "v \<le> n" using mod by linarith
    have "n < (m0 + 1) * K" using mod by simp
    also have "\<dots> \<le> (m * 256 + 256) * K" using m(2) by (intro mult_le_mono1) simp
    finally have "n < v + 256 * K" by (simp add: v_def algebra_simps)
    moreover have v: "2 ^ 23 * K \<le> v" unfolding v_def using m(3) by (intro mult_le_mono1) simp
    ultimately have "2 ^ 15 * (n - v) \<le> n" using \<open>v \<le> n\<close> by simp
    moreover have "compact_value m (s + 1) = v"
    proof -
      have "s + 1 - 3 = Suc (s - 3)" using assms(2) by simp
      then show ?thesis using assms(2) by (simp add: compact_value_def v_def K_def)
    qed
    moreover have "compact_parts n s = (m, s + 1)"
      using True assms(2) by (simp add: compact_parts_def compact_mantissa_def m_def flip: K_def m0_def)
    moreover have "compact_parts v s = (m, s + 1)"
      using m(3) assms(2) K(1) by (simp add: compact_parts_def compact_mantissa_def v_def flip: K_def)
    moreover have "byte_length v s"
      using v n(1) \<open>v \<le> n\<close> unfolding byte_length_def K by simp
    ultimately show ?thesis using m(4) \<open>v \<le> n\<close> by simp
  qed
qed

lemma compact_parts_ok:
  assumes "byte_length n s"
  obtains m e where "compact_parts n s = (m, e)" "m < 2 ^ 23" "compact_value m e \<le> n"
    "2 ^ 15 * (n - compact_value m e) \<le> n" "byte_length (compact_value m e) s"
    "compact_parts (compact_value m e) s = (m, e)"
  using compact_parts_small [OF assms] compact_parts_large [OF assms]
  by (cases "compact_parts n s"; cases "s \<le> 3") auto

lemma compact_mantissa_lt:
  assumes "byte_length n s"
  shows "compact_mantissa n s < 2 ^ 24"
proof (cases "s \<le> 3")
  case True
  then have "n * 256 ^ (3 - s) < 256 ^ s * 256 ^ (3 - s)" using assms by (simp add: byte_length_def)
  also have "\<dots> = 2 ^ 24" using True by (simp flip: power_add)
  finally show ?thesis using True by (simp add: compact_mantissa_def)
next
  case False
  then have "n < 256 ^ (s - 3 + 3)" using assms by (simp add: byte_length_def)
  then have "n < 2 ^ 24 * 256 ^ (s - 3)" unfolding power_add by simp
  with False show ?thesis by (simp add: compact_mantissa_def less_mult_imp_div_less)
qed

lemma compact_parts_exponent:
  assumes "byte_length n s" "compact_parts n s = (m, e)"
  shows "e = s \<or> e = s + 1 \<and> m < 2 ^ 16"
  using assms compact_mantissa_lt [OF assms(1)]
  by (auto simp: compact_parts_def Let_def less_mult_imp_div_less split: if_splits)

section \<open>The compact format of the code\<close>

lemma or_push_bit_nat:
  assumes "u < 2 ^ k"
  shows "u OR push_bit k v = u + 2 ^ k * (v :: nat)"
proof (rule bit_eqI)
  fix n :: nat
  have "\<not> bit u n" if "k \<le> n"
  proof -
    have "(2 :: nat) ^ k \<le> 2 ^ n" using that by (intro power_increasing) auto
    with assms have "u div 2 ^ n = 0" by (intro div_less) linarith
    then show ?thesis by (simp add: bit_iff_odd)
  qed
  then show "bit (u OR push_bit k v) n \<longleftrightarrow> bit (u + 2 ^ k * v) n"
    unfolding bit_nat_add_mult [OF assms] by (auto simp: bit_or_iff bit_push_bit_iff)
qed

lemma unat_or_push_bit:
  fixes a b :: uint32
  assumes "unat a < 2 ^ k" "2 ^ k * unat b < 2 ^ 32"
  shows "unat (a OR push_bit k b) = unat a + 2 ^ k * unat b"
proof -
  have "unat (push_bit k b) = push_bit k (unat b)"
    unfolding unsigned_push_bit_eq using assms(2) by (simp add: take_bit_nat_eq_self push_bit_nat_def mult.commute)
  then show ?thesis unfolding unsigned_or_eq using or_push_bit_nat [OF assms(1)] by simp
qed

lemma and_sign_bit: "unat (w :: uint32) < 2 ^ 24 \<Longrightarrow> w AND 0x00800000 \<noteq> 0 \<longleftrightarrow> 2 ^ 23 \<le> unat w"
proof -
  assume a: "unat w < 2 ^ 24"
  have "w AND 2 ^ 23 = 0 \<longleftrightarrow> \<not> bit w 23" by (rule and_exp_eq_0_iff_not_bit)
  moreover have "bit w 23 \<longleftrightarrow> odd (unat w div 2 ^ 23)" unfolding bit_unat32 [symmetric] bit_iff_odd ..
  moreover have "odd (unat w div 2 ^ 23) \<longleftrightarrow> 2 ^ 23 \<le> unat w"
  proof (cases "unat w < 2 ^ 23")
    case False
    then have "unat w div 2 ^ 23 = 1" using a by (intro div_nat_eqI) auto
    with False show ?thesis by simp
  qed simp
  ultimately show ?thesis by simp
qed

lemma mask23: "(w :: uint32) AND 0x007fffff = take_bit 23 w"
  by (simp add: take_bit_eq_mask mask_eq_exp_minus_1)

lemma and_not_mantissa: "unat (w :: uint32) < 2 ^ 23 \<Longrightarrow> w AND NOT 0x007fffff = 0"
proof -
  assume "unat w < 2 ^ 23"
  then have "take_bit 23 w = w" by (simp add: word_unat_eq_iff unsigned_take_bit_eq take_bit_nat_eq_self)
  then have "w = w AND 0x007fffff" by (simp add: mask23)
  then show ?thesis by (metis and.assoc and.commute bit.conj_cancel_right bit.conj_zero_right)
qed

lemma pow256: "(256 :: nat) ^ n = 2 ^ (8 * n)"
  by (simp add: power_mult)

lemma compact_word_value:
  assumes "length pn = 8" "byte_length (big pn) s"
  shows "unat (if s \<le> 3 then ucast (push_bit (8 * (3 - s)) (GetLow64 pn))
      else ucast (GetLow64 (bu_shr pn (8 * (s - 3)))) :: uint32) = compact_mantissa (big pn) s"
proof (cases "s \<le> 3")
  case True
  have lt: "big pn * 2 ^ (8 * (3 - s)) < 2 ^ 24"
    using compact_mantissa_lt [OF assms(2)] True by (simp add: compact_mantissa_def pow256)
  have "big pn * 1 \<le> big pn * 2 ^ (8 * (3 - s))" by (intro mult_le_mono2) simp
  with lt have "big pn < 2 ^ 24" by linarith
  then have "unat (GetLow64 pn) = big pn" using assms(1) by (simp add: GetLow64_value)
  then have "unat (push_bit (8 * (3 - s)) (GetLow64 pn)) = big pn * 2 ^ (8 * (3 - s))"
    unfolding unsigned_push_bit_eq using lt by (simp add: push_bit_nat_def take_bit_nat_eq_self)
  then show ?thesis using True lt
    by (simp add: unsigned_ucast_eq take_bit_nat_eq_self compact_mantissa_def pow256)
next
  case False
  have "big (bu_shr pn (8 * (s - 3))) = compact_mantissa (big pn) s"
    using False by (simp add: big_shr drop_bit_eq_div compact_mantissa_def pow256)
  with compact_mantissa_lt [OF assms(2)] False assms(1) show ?thesis
    by (simp add: unsigned_ucast_eq GetLow64_value take_bit_nat_eq_self)
qed

text \<open>The compact word of mantissa \<open>m\<close>, exponent \<open>e\<close> and sign.\<close>

definition compact_word :: "nat \<Rightarrow> nat \<Rightarrow> bool \<Rightarrow> nat" where
  "compact_word m e neg = m + 2 ^ 24 * e + (if neg \<and> m \<noteq> 0 then 2 ^ 23 else 0)"

lemma GetCompact_value:
  assumes len: "length pn = 8" and parts: "byte_length (big pn) s" "compact_parts (big pn) s = (m, e)"
  obtains c where "GetCompact pn neg = Ok c" "unat c = compact_word m e neg" "e \<le> 33"
proof -
  define w where "w = (if s \<le> 3 then ucast (push_bit (8 * (3 - s)) (GetLow64 pn))
      else ucast (GetLow64 (bu_shr pn (8 * (s - 3)))) :: uint32)"
  define w' where "w' = (if 2 ^ 23 \<le> unat w then drop_bit 8 w else w)"
  have bits: "(bu_bits pn + 7) div 8 = s"
    using byte_length_unique [OF byte_length_bits [OF bu_bits_sound] parts(1)] .
  have "s \<le> 32" using bu_bits_le [of pn] len bits by simp
  have w: "unat w = compact_mantissa (big pn) s" unfolding w_def by (rule compact_word_value [OF len parts(1)])
  then have w24: "unat w < 2 ^ 24" using compact_mantissa_lt [OF parts(1)] by simp
  have "unat (drop_bit 8 w) = unat w div 256"
    unfolding unsigned_drop_bit_eq using unat32_lt [of w] by (simp add: drop_bit_eq_div take_bit_nat_eq_self)
  then have w': "unat w' = m" "e = (if 2 ^ 23 \<le> unat w then s + 1 else s)"
    using parts(2) w by (auto simp: compact_parts_def w'_def Let_def split: if_splits)
  obtain m23: "m < 2 ^ 23" using compact_parts_ok [OF parts(1)] parts(2) by (metis prod.inject)
  have e: "e \<le> 33" using \<open>s \<le> 32\<close> w'(2) by simp
  define c where "c = w' OR push_bit 24 (of_nat e)"
  have "unat (of_nat e :: uint32) = e" using e by (simp add: unsigned_of_nat take_bit_nat_eq_self)
  then have c: "unat c = m + 2 ^ 24 * e"
    unfolding c_def using e m23 w'(1) by (subst unat_or_push_bit) auto
  have "unat (c AND 0x007fffff) = m"
    unfolding mask23 unsigned_take_bit_eq c using m23 mod_mult_self2 [of m "2 ^ 23" "2 * e"]
    by (simp add: take_bit_eq_mod)
  then have cm: "c AND 0x007fffff \<noteq> 0 \<longleftrightarrow> m \<noteq> 0" by (metis unat_eq_zero)
  have "GetCompact pn neg = (let (nCompact, nSize) = (w', e) in if nCompact AND NOT 0x007fffff \<noteq> 0 then Abort
      else if \<not> nSize < 256 then Abort
      else let nCompact = nCompact OR push_bit 24 (of_nat nSize)
           in Ok (nCompact OR (if neg \<and> nCompact AND 0x007fffff \<noteq> 0 then 0x00800000 else 0)))"
    unfolding GetCompact_def Let_def bits w_def [symmetric] and_sign_bit [OF w24] w'_def w'(2)
    by (cases "2 ^ 23 \<le> unat w") (simp_all only: if_True if_False)
  also have "\<dots> = Ok (c OR (if neg \<and> m \<noteq> 0 then 0x00800000 else 0))"
    using e m23 w'(1) and_not_mantissa [of w'] by (simp add: Let_def cm flip: c_def)
  finally have "GetCompact pn neg = Ok (c OR (if neg \<and> m \<noteq> 0 then 0x00800000 else 0))" .
  moreover have "unat (c OR 0x00800000) = unat c + 2 ^ 23"
  proof -
    have "(m + 2 ^ 24 * e) div 2 ^ 23 = 2 * e" using m23 by (simp add: div_nat_eqI)
    then have "\<not> bit c 23" unfolding bit_unat32 [symmetric] bit_iff_odd c by simp
    then have "c AND 2 ^ 23 = 0" by (simp only: and_exp_eq_0_iff_not_bit not_False_eq_True)
    then have "c OR 0x00800000 = c + 0x00800000" by (simp add: disjunctive_add_eq_or)
    then show ?thesis using c e m23 by (simp add: unat_word_ariths)
  qed
  then have "unat (c OR (if neg \<and> m \<noteq> 0 then 0x00800000 else 0)) = compact_word m e neg"
    by (simp add: compact_word_def c)
  ultimately show ?thesis using that e by blast
qed

lemma compact_word_fields:
  assumes "m < 2 ^ 23"
  shows "compact_word m e neg div 2 ^ 24 = e" "compact_word m e neg mod 2 ^ 23 = m"
    "odd (compact_word m e neg div 2 ^ 23) \<longleftrightarrow> neg \<and> m \<noteq> 0"
proof -
  define b where "b = (if neg \<and> m \<noteq> 0 then 1 else 0 :: nat)"
  have c: "compact_word m e neg = m + 2 ^ 23 * (2 * e + b)" by (simp add: compact_word_def b_def)
  show "compact_word m e neg mod 2 ^ 23 = m" unfolding c mod_mult_self2 using assms by simp
  have "compact_word m e neg div 2 ^ 23 = 2 * e + b" unfolding c using assms by simp
  then show "odd (compact_word m e neg div 2 ^ 23) \<longleftrightarrow> neg \<and> m \<noteq> 0" by (simp add: b_def)
  show "compact_word m e neg div 2 ^ 24 = e"
    using assms by (intro div_nat_eqI) (auto simp: c b_def)
qed

lemma compact_overflow_iff:
  assumes "3 < e" "m < 2 ^ 23"
  shows "2 ^ 256 \<le> compact_value m e \<longleftrightarrow> m \<noteq> 0 \<and> (e > 34 \<or> (m > 0xff \<and> e > 33) \<or> (m > 0xffff \<and> e > 32))"
proof -
  have v: "compact_value m e = m * 2 ^ (8 * (e - 3))" using assms by (simp add: compact_value_def pow256)
  have ge: "2 ^ 256 \<le> m * 2 ^ (8 * (e - 3))" if "2 ^ j \<le> m" "256 \<le> j + 8 * (e - 3)" for j
  proof -
    have "(2 :: nat) ^ 256 \<le> 2 ^ (j + 8 * (e - 3))" using that(2) by (intro power_increasing) auto
    also have "\<dots> \<le> m * 2 ^ (8 * (e - 3))" unfolding power_add using that(1) by (rule mult_le_mono1)
    finally show ?thesis .
  qed
  have lt: "m * 2 ^ (8 * (e - 3)) < 2 ^ 256" if "m < 2 ^ j" "j + 8 * (e - 3) \<le> 256" for j
  proof -
    have "m * 2 ^ (8 * (e - 3)) < 2 ^ (j + 8 * (e - 3))" unfolding power_add using that(1) by simp
    also have "\<dots> \<le> 2 ^ 256" using that(2) by (intro power_increasing) auto
    finally show ?thesis .
  qed
  consider "m = 0" | "m \<noteq> 0" "e > 34" | "m > 0xff" "e = 34" | "m \<noteq> 0" "m \<le> 0xff" "e = 34"
    | "m > 0xffff" "e = 33" | "m \<noteq> 0" "m \<le> 0xffff" "e = 33" | "m \<noteq> 0" "e \<le> 32" by linarith
  then show ?thesis
    unfolding v using ge [of 0] ge [of 8] ge [of 16] lt [of 8] lt [of 16] lt [of 23] assms
    by cases (simp_all add: not_le)
qed

lemma compact_small_lt: "e \<le> 3 \<Longrightarrow> m < 2 ^ 23 \<Longrightarrow> compact_value m e < 2 ^ 23"
  by (simp add: compact_value_def le_less_trans [OF div_le_dividend])

text \<open>What \<open>SetCompact\<close> stores, and when it raises its flags, for every compact word.\<close>

lemma SetCompact_spec:
  assumes "SetCompact c = (t, neg, ovf)"
  defines "v \<equiv> compact_value (unat c mod 2 ^ 23) (unat c div 2 ^ 24)"
  shows "length t = 8 \<and> big t = v mod 2 ^ 256 \<and> (neg \<longleftrightarrow> v \<noteq> 0 \<and> bit c 23) \<and> (ovf \<longleftrightarrow> 2 ^ 256 \<le> v)"
proof -
  define m where "m = unat c mod 2 ^ 23"
  define e where "e = unat c div 2 ^ 24"
  have v: "v = compact_value m e" by (simp add: v_def m_def e_def)
  have m23: "m < 2 ^ 23" by (simp add: m_def)
  have size: "unat (drop_bit 24 c) = e"
    unfolding unsigned_drop_bit_eq e_def using unat32_lt [of c] by (simp add: drop_bit_eq_div take_bit_nat_eq_self)
  have m: "unat (c AND 0x007fffff) = m"
    unfolding mask23 unsigned_take_bit_eq m_def by (rule take_bit_eq_mod)
  have sign: "c AND 0x00800000 \<noteq> 0 \<longleftrightarrow> bit c 23" using and_exp_eq_0_iff_not_bit [of c 23] by simp
  have up: "unat (ucast w :: uint64) = unat w" for w :: uint32
    using unat32_lt [of w] by (simp add: unsigned_ucast_eq take_bit_nat_eq_self)
  show ?thesis
  proof (cases "e \<le> 3")
    case True
    define w where "w = drop_bit (8 * (3 - e)) (c AND 0x007fffff)"
    have w: "unat w = v"
      unfolding w_def unsigned_drop_bit_eq m v using True m23
      by (simp add: compact_value_def pow256 drop_bit_eq_div take_bit_nat_eq_self)
    then have "w \<noteq> 0 \<longleftrightarrow> v \<noteq> 0" by (metis unat_eq_zero)
    moreover have "v < 2 ^ 23" unfolding v using True m23 by (rule compact_small_lt)
    moreover have "SetCompact c = (bu_of_uint64 8 (ucast w), w \<noteq> 0 \<and> c AND 0x00800000 \<noteq> 0, w \<noteq> 0 \<and>
        (e > 34 \<or> (w > 0xff \<and> e > 33) \<or> (w > 0xffff \<and> e > 32)))"
      by (simp only: SetCompact_def Let_def size w_def True if_True prod.case)
    ultimately show ?thesis using assms(1) True w up [of w] by (auto simp: sign bu_of_uint64_value)
  next
    case False
    define w where "w = c AND 0x007fffff"
    have w: "unat w = m" unfolding w_def by (rule m)
    have "w \<noteq> 0 \<longleftrightarrow> m \<noteq> 0" using w by (metis unat_eq_zero)
    moreover have "v \<noteq> 0 \<longleftrightarrow> m \<noteq> 0" using False by (simp add: v compact_value_def)
    moreover have "w > 0xff \<longleftrightarrow> m > 0xff" "w > 0xffff \<longleftrightarrow> m > 0xffff" using w by (simp_all add: word_less_nat_alt)
    moreover have "big (bu_shl (bu_of_uint64 8 (ucast w)) (8 * (e - 3))) = v mod 2 ^ 256"
      using False w up [of w] by (simp add: big_shl bu_of_uint64_value take_bit_eq_mod push_bit_nat_def v
          compact_value_def pow256)
    moreover have "SetCompact c = (bu_shl (bu_of_uint64 8 (ucast w)) (8 * (e - 3)), w \<noteq> 0 \<and> c AND 0x00800000 \<noteq> 0,
        w \<noteq> 0 \<and> (e > 34 \<or> (w > 0xff \<and> e > 33) \<or> (w > 0xffff \<and> e > 32)))"
      by (simp only: SetCompact_def Let_def size w_def False if_False prod.case)
    moreover have "2 ^ 256 \<le> v \<longleftrightarrow> m \<noteq> 0 \<and> (e > 34 \<or> (m > 0xff \<and> e > 33) \<or> (m > 0xffff \<and> e > 32))"
      unfolding v using False m23 by (intro compact_overflow_iff) simp_all
    ultimately show ?thesis using assms(1) by (auto simp: sign bu_of_uint64_value)
  qed
qed

lemma GetCompact_SetCompact:
  assumes "length a = 8"
  shows "\<exists>c t. GetCompact a fNegative = Ok c \<and> SetCompact c = (t, fNegative \<and> big t \<noteq> 0, False) \<and>
    length t = 8 \<and> big t \<le> big a \<and> 2 ^ 15 * (big a - big t) \<le> big a \<and> GetCompact t fNegative = Ok c"
proof -
  define s where "s = (bu_bits a + 7) div 8"
  have bl: "byte_length (big a) s" unfolding s_def by (rule byte_length_bits [OF bu_bits_sound])
  then obtain m e where p: "compact_parts (big a) s = (m, e)" "m < 2 ^ 23" "compact_value m e \<le> big a"
      "2 ^ 15 * (big a - compact_value m e) \<le> big a" "byte_length (compact_value m e) s"
      "compact_parts (compact_value m e) s = (m, e)" by (rule compact_parts_ok)
  obtain c where c: "GetCompact a fNegative = Ok c" "unat c = compact_word m e fNegative"
    using GetCompact_value [OF assms bl p(1)] by metis
  obtain t neg ovf where t: "SetCompact c = (t, neg, ovf)" by (metis prod_cases3)
  note f = compact_word_fields [OF p(2)]
  have lt: "compact_value m e < 2 ^ 256" using p(3) big_lt [of a] assms by simp
  have "bit c 23 \<longleftrightarrow> fNegative \<and> m \<noteq> 0" unfolding bit_unat32 [symmetric] bit_iff_odd c(2) by (rule f)
  moreover have "m = 0 \<Longrightarrow> compact_value m e = 0" by (simp add: compact_value_def)
  ultimately have s: "length t = 8" "big t = compact_value m e" "neg \<longleftrightarrow> fNegative \<and> big t \<noteq> 0" "\<not> ovf"
    using SetCompact_spec [OF t] lt unfolding c(2) f by auto
  obtain c' where "GetCompact t fNegative = Ok c'" "unat c' = compact_word m e fNegative"
    using GetCompact_value [OF s(1), of s m e fNegative] p(5,6) s(2) by metis
  then have "GetCompact t fNegative = Ok c" using c(2) by (metis unsigned_word_eqI)
  then show ?thesis using c(1) t s p(3,4) by (intro exI [of _ c] exI [of _ t]) simp
qed

text \<open>
  C25: encoding a 256-bit number in the compact format never fails an assertion, and decoding it again
  raises no overflow flag, raises the sign flag exactly for a non-zero value encoded as negative, never
  rounds up, loses at most one part in \<open>2 ^ 15\<close>, and is stable: the decoded number encodes to the same word.
\<close>

theorem compact_roundtrip:
  assumes "length a = 8"
  shows "\<exists>c t. GetCompact a fNegative = Ok c \<and> SetCompact c = (t, fNegative \<and> big t \<noteq> 0, False) \<and>
    length t = 8 \<and> big t \<le> big a \<and> 2 ^ 15 * (big a - big t) \<le> big a \<and> GetCompact t fNegative = Ok c"
  using assms by (rule GetCompact_SetCompact)

theorem compact_roundtrip_witness:
  "\<exists>c t. GetCompact [0, 0, 0, 0, 0xc0de, 7, 0, 0] True = Ok c \<and> SetCompact c = (t, True \<and> big t \<noteq> 0, False) \<and>
    length t = 8 \<and> big t \<le> big [0, 0, 0, 0, 0xc0de, 7, 0, 0] \<and>
    2 ^ 15 * (big [0, 0, 0, 0, 0xc0de, 7, 0, 0] - big t) \<le> big [0, 0, 0, 0, 0xc0de, 7, 0, 0] \<and>
    GetCompact t True = Ok c"
  by (rule compact_roundtrip) simp

end
