(* ===== verification/ChainIndex.thy ===== *)
theory ChainIndex
  imports Transaction
begin

text \<open>
  The block index and the active chain, \<open>src/src/chain.h\<close>, \<open>chain.cpp\<close> and the skip list of
  \<open>main.cpp\<close>. A \<open>CBlockIndex*\<close> is an address in a store, null is \<open>None\<close>, and following a null or
  dangling pointer is \<open>Abort\<close>. Loops that follow pointers are partial functions whose value \<open>None\<close> means
  that they do not return; on a well-formed index they return.
\<close>

section \<open>Block index entries\<close>

type_synonym addr = nat

record CBlockIndex =
  phashBlock :: uint256
  pprev :: "addr option"
  pskip :: "addr option"
  nHeight :: int
  nStatus :: uint32
  nFlags :: uint32
  idxVersion :: int
  idxTime :: uint32
  idxBits :: uint32

type_synonym block_store = "addr \<Rightarrow> CBlockIndex option"

definition deref :: "block_store \<Rightarrow> addr option \<Rightarrow> (unit, CBlockIndex) outcome" where
  "deref st p = (case p of None \<Rightarrow> Abort | Some a \<Rightarrow> (case st a of None \<Rightarrow> Abort | Some b \<Rightarrow> Ok b))"

definition BLOCK_VALID_MASK :: uint32 where "BLOCK_VALID_MASK = 1 OR 2 OR 3 OR 4 OR 5"
definition BLOCK_FAILED_MASK :: uint32 where "BLOCK_FAILED_MASK = 32 OR 64"
definition BLOCK_PROOF_OF_STAKE :: uint32 where "BLOCK_PROOF_OF_STAKE = push_bit 0 1"
definition BLOCK_STAKE_ENTROPY :: uint32 where "BLOCK_STAKE_ENTROPY = push_bit 1 1"
definition BLOCK_STAKE_MODIFIER :: uint32 where "BLOCK_STAKE_MODIFIER = push_bit 2 1"

definition GetBlockTime :: "CBlockIndex \<Rightarrow> int" where
  "GetBlockTime b = uint (idxTime b)"

definition IsProofOfStake :: "CBlockIndex \<Rightarrow> bool" where
  "IsProofOfStake b \<longleftrightarrow> nFlags b AND BLOCK_PROOF_OF_STAKE \<noteq> 0"

definition IsProofOfWork :: "CBlockIndex \<Rightarrow> bool" where
  "IsProofOfWork b \<longleftrightarrow> \<not> nFlags b AND BLOCK_PROOF_OF_STAKE \<noteq> 0"

definition SetProofOfStake :: "CBlockIndex \<Rightarrow> CBlockIndex" where
  "SetProofOfStake b = b\<lparr>nFlags := nFlags b OR BLOCK_PROOF_OF_STAKE\<rparr>"

definition SetStakeEntropyBit :: "CBlockIndex \<Rightarrow> uint32 \<Rightarrow> bool \<times> CBlockIndex" where
  "SetStakeEntropyBit b nEntropyBit =
     (if nEntropyBit > 1 then (False, b)
      else (True, b\<lparr>nFlags := nFlags b OR (if nEntropyBit \<noteq> 0 then BLOCK_STAKE_ENTROPY else 0)\<rparr>))"

definition GeneratedStakeModifier :: "CBlockIndex \<Rightarrow> bool" where
  "GeneratedStakeModifier b \<longleftrightarrow> nFlags b AND BLOCK_STAKE_MODIFIER \<noteq> 0"

definition IsValid :: "CBlockIndex \<Rightarrow> uint32 \<Rightarrow> (unit, bool) outcome" where
  "IsValid b nUpTo =
     (if nUpTo AND NOT BLOCK_VALID_MASK \<noteq> 0 then Abort
      else if nStatus b AND BLOCK_FAILED_MASK \<noteq> 0 then Ok False
      else Ok (nStatus b AND BLOCK_VALID_MASK \<ge> nUpTo))"

definition RaiseValidity :: "CBlockIndex \<Rightarrow> uint32 \<Rightarrow> (unit, bool \<times> CBlockIndex) outcome" where
  "RaiseValidity b nUpTo =
     (if nUpTo AND NOT BLOCK_VALID_MASK \<noteq> 0 then Abort
      else if nStatus b AND BLOCK_FAILED_MASK \<noteq> 0 then Ok (False, b)
      else if nStatus b AND BLOCK_VALID_MASK < nUpTo
      then Ok (True, b\<lparr>nStatus := (nStatus b AND NOT BLOCK_VALID_MASK) OR nUpTo\<rparr>)
      else Ok (False, b))"

text \<open>The times of the block and of its predecessors, at most \<open>n\<close> of them.\<close>

fun past_times :: "block_store \<Rightarrow> nat \<Rightarrow> addr option \<Rightarrow> (unit, int list) outcome" where
  "past_times st 0 p = Ok []"
| "past_times st (Suc n) None = Ok []"
| "past_times st (Suc n) (Some a) =
     bindO (deref st (Some a)) (\<lambda>b. bindO (past_times st n (pprev b)) (\<lambda>ts. Ok (GetBlockTime b # ts)))"

definition GetMedianTimePast :: "block_store \<Rightarrow> addr \<Rightarrow> (unit, int) outcome" where
  "GetMedianTimePast st a =
     bindO (past_times st 11 (Some a)) (\<lambda>ts. let ts = sort (rev ts) in Ok (ts ! (length ts div 2)))"

fun majority_loop :: "block_store \<Rightarrow> nat \<Rightarrow> int \<Rightarrow> addr option \<Rightarrow> nat \<Rightarrow> nat \<Rightarrow> (unit, nat) outcome" where
  "majority_loop st 0 minVersion pstart nFound nRequired = Ok nFound"
| "majority_loop st (Suc n) minVersion pstart nFound nRequired =
     (if nFound < nRequired \<and> pstart \<noteq> None
      then bindO (deref st pstart) (\<lambda>b.
        majority_loop st n minVersion (pprev b) (if idxVersion b \<ge> minVersion then nFound + 1 else nFound) nRequired)
      else Ok nFound)"

definition IsSuperMajority :: "nat \<Rightarrow> block_store \<Rightarrow> int \<Rightarrow> addr option \<Rightarrow> nat \<Rightarrow> (unit, bool) outcome" where
  "IsSuperMajority nToCheck st minVersion pstart nRequired =
     bindO (majority_loop st nToCheck minVersion pstart 0 nRequired) (\<lambda>nFound. Ok (nFound \<ge> nRequired))"

section \<open>The skip list\<close>

definition InvertLowestOne :: "int \<Rightarrow> int" where
  "InvertLowestOne n = n AND (n - 1)"

definition GetSkipHeight :: "int \<Rightarrow> int" where
  "GetSkipHeight height =
     (if height < 2 then 0
      else if height AND 1 \<noteq> 0 then InvertLowestOne (InvertLowestOne (height - 1)) + 1
      else InvertLowestOne height)"

lemma InvertLowestOne_bounds: "0 < n \<Longrightarrow> 0 \<le> InvertLowestOne n \<and> InvertLowestOne n < n"
  using AND_upper2 [of "n - 1" n] by (simp add: InvertLowestOne_def)

lemma GetSkipHeight_nonneg: "0 \<le> GetSkipHeight h"
proof -
  have "0 \<le> InvertLowestOne n" if "0 \<le> n" for n
    using that InvertLowestOne_bounds [of n] by (cases "n = 0") (auto simp: InvertLowestOne_def)
  then show ?thesis by (simp add: GetSkipHeight_def)
qed

lemma GetSkipHeight_lt: "0 < h \<Longrightarrow> GetSkipHeight h < h"
proof -
  assume "0 < h"
  have "InvertLowestOne (InvertLowestOne (h - 1)) + 1 < h" if "2 \<le> h"
  proof (cases "InvertLowestOne (h - 1) = 0")
    case False
    then show ?thesis using that InvertLowestOne_bounds [of "h - 1"] InvertLowestOne_bounds [of "InvertLowestOne (h - 1)"]
      by linarith
  qed (use that in \<open>simp add: InvertLowestOne_def\<close>)
  then show ?thesis using \<open>0 < h\<close> InvertLowestOne_bounds [of h] by (simp add: GetSkipHeight_def)
qed

text \<open>
  The loop of \<open>GetAncestor\<close>. Its only call passes a height that is not negative, which is part of the
  guard here because the skip height of a negative height is not below it.
\<close>

function ancestor_loop :: "block_store \<Rightarrow> int \<Rightarrow> addr option \<Rightarrow> int \<Rightarrow> (unit, addr option) outcome" where
  "ancestor_loop st height pindexWalk heightWalk =
     (if 0 \<le> height \<and> heightWalk > height
      then let heightSkip = GetSkipHeight heightWalk; heightSkipPrev = GetSkipHeight (heightWalk - 1) in
           if heightSkip = height \<or>
              (heightSkip > height \<and> \<not> (heightSkipPrev < heightSkip - 2 \<and> heightSkipPrev \<ge> height))
           then bindO (deref st pindexWalk) (\<lambda>b. ancestor_loop st height (pskip b) heightSkip)
           else bindO (deref st pindexWalk) (\<lambda>b. ancestor_loop st height (pprev b) (heightWalk - 1))
      else Ok pindexWalk)"
  by pat_completeness auto
termination
  by (relation "measure (\<lambda>(st, height, p, heightWalk). nat heightWalk)")
    (auto simp: GetSkipHeight_lt intro: less_le_trans [OF GetSkipHeight_lt])

declare ancestor_loop.simps [simp del]

definition GetAncestor :: "block_store \<Rightarrow> addr \<Rightarrow> int \<Rightarrow> (unit, addr option) outcome" where
  "GetAncestor st a height =
     bindO (deref st (Some a)) (\<lambda>b.
       if height > nHeight b \<or> height < 0 then Ok None else ancestor_loop st height (Some a) (nHeight b))"

definition BuildSkip :: "block_store \<Rightarrow> CBlockIndex \<Rightarrow> (unit, CBlockIndex) outcome" where
  "BuildSkip st b =
     (case pprev b of None \<Rightarrow> Ok b
      | Some p \<Rightarrow> bindO (GetAncestor st p (GetSkipHeight (nHeight b))) (\<lambda>s. Ok (b\<lparr>pskip := s\<rparr>)))"

text \<open>Heights are of type \<open>int\<close>: an increment that leaves its range is undefined.\<close>

definition inc_height :: "int \<Rightarrow> (unit, int) outcome" where
  "inc_height h = (if h + 1 > int32_max then Abort else Ok (h + 1))"

text \<open>How \<open>AddToBlockIndex\<close> links a new entry to its predecessor \<open>p\<close>.\<close>

definition link_block :: "block_store \<Rightarrow> addr \<Rightarrow> CBlockIndex \<Rightarrow> (unit, CBlockIndex) outcome" where
  "link_block st p b =
     (let b = b\<lparr>pprev := Some p\<rparr> in
      bindO (deref st (Some p)) (\<lambda>q. bindO (inc_height (nHeight q)) (\<lambda>h.
        let b = b\<lparr>nHeight := h\<rparr> in BuildSkip st b)))"

section \<open>Well-formed indexes\<close>

text \<open>\<open>walk_back st a n\<close> follows \<open>pprev\<close> \<open>n\<close> times.\<close>

fun walk_back :: "block_store \<Rightarrow> addr \<Rightarrow> nat \<Rightarrow> addr option" where
  "walk_back st a 0 = Some a"
| "walk_back st a (Suc n) =
     (case st a of None \<Rightarrow> None | Some b \<Rightarrow> (case pprev b of None \<Rightarrow> None | Some p \<Rightarrow> walk_back st p n))"

text \<open>
  Heights count the predecessors and fit their type, and the skip pointer of an entry with a predecessor is its ancestor at
  the skip height.
\<close>

definition linked :: "block_store \<Rightarrow> CBlockIndex \<Rightarrow> bool" where
  "linked st b \<longleftrightarrow> (case pprev b of None \<Rightarrow> nHeight b = 0
     | Some p \<Rightarrow> (case st p of None \<Rightarrow> False
        | Some q \<Rightarrow> nHeight b = nHeight q + 1 \<and>
            pskip b = walk_back st p (nat (nHeight q - GetSkipHeight (nHeight b)))))"

definition wf_store :: "block_store \<Rightarrow> bool" where
  "wf_store st \<longleftrightarrow> (\<forall>a b. st a = Some b \<longrightarrow> linked st b \<and> 0 \<le> nHeight b \<and> nHeight b \<le> int32_max)"

lemma wf_height: "wf_store st \<Longrightarrow> st a = Some b \<Longrightarrow> 0 \<le> nHeight b \<and> nHeight b \<le> int32_max"
  by (simp add: wf_store_def)

lemma wf_prev:
  assumes "wf_store st" "st a = Some b" "0 < nHeight b"
  obtains p q where "pprev b = Some p" "st p = Some q" "nHeight q = nHeight b - 1"
    "pskip b = walk_back st p (nat (nHeight q - GetSkipHeight (nHeight b)))"
  using assms unfolding wf_store_def linked_def by (fastforce split: option.splits)

lemma walk_back_add:
  "walk_back st a (m + n) = (case walk_back st a m of None \<Rightarrow> None | Some c \<Rightarrow> walk_back st c n)"
  by (induction m arbitrary: a) (auto split: option.splits)

lemma walk_back_height:
  assumes "wf_store st" "st a = Some b" "int n \<le> nHeight b"
  obtains c q where "walk_back st a n = Some c" "st c = Some q" "nHeight q = nHeight b - int n"
proof -
  have "\<exists>c q. walk_back st a n = Some c \<and> st c = Some q \<and> nHeight q = nHeight b - int n"
    using assms(2,3)
  proof (induction n arbitrary: a b)
    case (Suc n)
    then have "0 < nHeight b" by simp
    then obtain p q where "pprev b = Some p" "st p = Some q" "nHeight q = nHeight b - 1"
      by (rule wf_prev [OF assms(1) Suc.prems(1)])
    with Suc.IH [of p q] Suc.prems show ?case by auto
  qed auto
  with that show ?thesis by blast
qed

lemma ancestor_loop_walk:
  assumes "wf_store st" "st a = Some b" "0 \<le> height" "height \<le> nHeight b"
  shows "ancestor_loop st height (Some a) (nHeight b) = Ok (walk_back st a (nat (nHeight b - height)))"
  using assms(2,4)
proof (induction "nat (nHeight b)" arbitrary: a b rule: less_induct)
  case less
  show ?case
  proof (cases "height < nHeight b")
    case True
    with less.prems assms(1,3) obtain p q where p: "pprev b = Some p" "st p = Some q" "nHeight q = nHeight b - 1"
      "pskip b = walk_back st p (nat (nHeight q - GetSkipHeight (nHeight b)))"
      using wf_prev by (metis order.strict_trans1)
    let ?s = "GetSkipHeight (nHeight b)"
    have s: "0 \<le> ?s" "?s < nHeight b" using GetSkipHeight_nonneg GetSkipHeight_lt True assms(3) by auto
    have prev: "ancestor_loop st height (Some p) (nHeight b - 1) = Ok (walk_back st a (nat (nHeight b - height)))"
    proof -
      have "nat (nHeight b - height) = Suc (nat (nHeight q - height))" using True p(3) by simp
      then show ?thesis using less.hyps [of q p] less.prems p True assms(3) by simp
    qed
    have skip: "ancestor_loop st height (pskip b) ?s = Ok (walk_back st a (nat (nHeight b - height)))"
      if "height \<le> ?s"
    proof -
      have "int (nat (nHeight q - ?s)) \<le> nHeight q" using s p(3) by simp
      then obtain c r where c: "walk_back st p (nat (nHeight q - ?s)) = Some c" "st c = Some r" "nHeight r = ?s"
        using walk_back_height [OF assms(1) p(2), of "nat (nHeight q - ?s)"] s p(3) by auto
      have "nat (nHeight b - height) = Suc (nat (nHeight q - ?s) + nat (?s - height))" using that s p(3) by simp
      then have "walk_back st a (nat (nHeight b - height)) = walk_back st c (nat (?s - height))"
        using less.prems(1) p c(1) by (simp add: walk_back_add)
      then show ?thesis using less.hyps [of r c] c p(4) s that by simp
    qed
    show ?thesis
      using True assms(3) less.prems(1) prev skip p(1)
      by (subst ancestor_loop.simps) (auto simp: Let_def deref_def)
  qed (use less.prems in \<open>simp add: ancestor_loop.simps\<close>)
qed

text \<open>An index of two blocks, for concrete instances.\<close>

definition entry :: "addr option \<Rightarrow> int \<Rightarrow> CBlockIndex" where
  "entry p h = \<lparr>phashBlock = of_int h, pprev = p, pskip = p, nHeight = h, nStatus = 0, nFlags = 0,
     idxVersion = 1, idxTime = of_int h, idxBits = 0\<rparr>"

definition two_blocks :: block_store where
  "two_blocks = [0 \<mapsto> entry None 0, 1 \<mapsto> entry (Some 0) 1]"

lemma two_blocks_wf: "wf_store two_blocks"
proof -
  have "linked two_blocks (entry None 0)" "linked two_blocks (entry (Some 0) 1)"
    by (simp_all add: linked_def two_blocks_def entry_def GetSkipHeight_def)
  moreover have "b = entry None 0 \<or> b = entry (Some 0) 1" if "two_blocks a = Some b" for a b
    using that by (auto simp: two_blocks_def split: if_splits)
  moreover have "nHeight (entry None 0) = 0" "nHeight (entry (Some 0) 1) = 1" by (simp_all add: entry_def)
  ultimately show ?thesis unfolding wf_store_def int32_max_def by fastforce
qed

lemma walk_back_upd:
  assumes "st n = None" "wf_store st" "a \<noteq> n" "st a \<noteq> None \<or> k = 0"
  shows "walk_back (st(n \<mapsto> b)) a k = walk_back st a k"
  using assms(3,4)
proof (induction k arbitrary: a)
  case (Suc k)
  then obtain c where c: "st a = Some c" by auto
  show ?case
  proof (cases "pprev c")
    case (Some p)
    then obtain q where "st p = Some q"
      using assms(2) c by (fastforce simp: wf_store_def linked_def split: option.splits)
    with Suc Some c assms(1) show ?thesis by (cases "p = n") auto
  qed (use Suc c in simp)
qed simp

lemma linked_upd:
  assumes "st n = None" "wf_store st" "linked st c"
  shows "linked (st(n \<mapsto> b)) c"
proof (cases "pprev c")
  case (Some p)
  with assms(3) obtain q where "st p = Some q" by (auto simp: linked_def split: option.splits)
  with assms Some walk_back_upd [OF assms(1,2), of p] show ?thesis by (auto simp: linked_def)
qed (use assms in \<open>simp add: linked_def\<close>)

lemma GetAncestor_walk:
  assumes "wf_store st" "st a = Some b" "0 \<le> height" "height \<le> nHeight b"
  shows "GetAncestor st a height = Ok (walk_back st a (nat (nHeight b - height)))"
  using ancestor_loop_walk [OF assms] assms by (simp add: GetAncestor_def deref_def)

text \<open>
  C30: on a well-formed block index, \<open>GetAncestor\<close> returns: null for a height above the block or below 0,
  and otherwise the block reached by following \<open>pprev\<close> step by step, which exists and has the
  requested height. The skip pointers only change how it gets there.
\<close>

theorem get_ancestor_is_walk:
  assumes "wf_store st" "st a = Some b"
  shows "if 0 \<le> height \<and> height \<le> nHeight b
    then \<exists>c q. GetAncestor st a height = Ok (Some c) \<and> walk_back st a (nat (nHeight b - height)) = Some c \<and>
      st c = Some q \<and> nHeight q = height
    else GetAncestor st a height = Ok None"
proof (cases "0 \<le> height \<and> height \<le> nHeight b")
  case True
  then have "int (nat (nHeight b - height)) \<le> nHeight b" by simp
  then obtain c q where "walk_back st a (nat (nHeight b - height)) = Some c" "st c = Some q" "nHeight q = height"
    using walk_back_height [OF assms, of "nat (nHeight b - height)"] True by auto
  with True GetAncestor_walk [OF assms, of height] show ?thesis by auto
qed (auto simp: GetAncestor_def deref_def assms)

theorem get_ancestor_is_walk_witness:
  "wf_store two_blocks \<and> (\<exists>c q. GetAncestor two_blocks 1 0 = Ok (Some c) \<and>
     walk_back two_blocks 1 1 = Some c \<and> two_blocks c = Some q \<and> nHeight q = 0)"
  using get_ancestor_is_walk [OF two_blocks_wf, of 1 "entry (Some 0) 1" 0] two_blocks_wf
  by (simp add: two_blocks_def entry_def)

text \<open>
  C31: linking a new block to a predecessor in the index keeps the index well-formed and never follows a null
  pointer. Only a predecessor at the greatest height an \<open>int\<close> can hold has no successor: there the
  increment of the height overflows.
\<close>

theorem link_block_invariant:
  assumes "wf_store st" "st n = None" "st p = Some q"
  shows "if nHeight q = int32_max then link_block st p b = Abort
    else \<exists>b'. link_block st p b = Ok b' \<and> wf_store (st(n \<mapsto> b'))"
proof (cases "nHeight q = int32_max")
  case False
  let ?h = "nHeight q + 1"
  have h: "0 \<le> nHeight q" "?h \<le> int32_max" using wf_height [OF assms(1,3)] False by auto
  then have s: "0 \<le> GetSkipHeight ?h" "GetSkipHeight ?h \<le> nHeight q"
    using GetSkipHeight_nonneg GetSkipHeight_lt [of ?h] by auto
  define b' where
    "b' = b\<lparr>pprev := Some p, nHeight := ?h, pskip := walk_back st p (nat (nHeight q - GetSkipHeight ?h))\<rparr>"
  have "link_block st p b = Ok b'"
    using GetAncestor_walk [OF assms(1,3) s] h(2) by (simp add: link_block_def inc_height_def BuildSkip_def deref_def assms(3) b'_def)
  moreover have "linked st b'" using assms(3) by (simp add: linked_def b'_def)
  then have "wf_store (st(n \<mapsto> b'))"
    using assms(1) h linked_upd [OF assms(2,1), of _ b'] by (auto simp: wf_store_def b'_def)
  ultimately show ?thesis using False by auto
qed (simp add: link_block_def inc_height_def deref_def assms(3))

theorem link_block_invariant_witness:
  "\<exists>b'. link_block two_blocks 1 (entry None 0) = Ok b' \<and> wf_store (two_blocks(2 \<mapsto> b'))"
  using link_block_invariant [OF two_blocks_wf, of 2 1 "entry (Some 0) 1" "entry None 0"]
  by (simp add: two_blocks_def entry_def int32_max_def)

section \<open>The active chain\<close>

text \<open>\<open>vChain\<close>: the pointers by height. \<open>operator[]\<close> is null outside the chain.\<close>

type_synonym CChain = "addr option list"

definition chain_at :: "CChain \<Rightarrow> int \<Rightarrow> addr option" where
  "chain_at vChain h = (if h < 0 \<or> h \<ge> int (length vChain) then None else vChain ! nat h)"

definition Genesis :: "CChain \<Rightarrow> addr option" where
  "Genesis vChain = (if length vChain > 0 then vChain ! 0 else None)"

partial_function (option) last_stake :: "block_store \<Rightarrow> addr option \<Rightarrow> (unit, addr option) outcome option" where
  "last_stake st p =
     (case p of None \<Rightarrow> Some (Ok None)
      | Some a \<Rightarrow> (case st a of None \<Rightarrow> Some Abort
          | Some b \<Rightarrow> if pprev b \<noteq> None \<and> \<not> IsProofOfStake b then last_stake st (pprev b) else Some (Ok p)))"

definition Tip :: "block_store \<Rightarrow> CChain \<Rightarrow> bool \<Rightarrow> (unit, addr option) outcome option" where
  "Tip st vChain fProofOfStake =
     (if length vChain < 1 then Some (Ok None)
      else if fProofOfStake then last_stake st (vChain ! (length vChain - 1))
      else Some (Ok (vChain ! (length vChain - 1))))"

definition Height :: "CChain \<Rightarrow> int" where
  "Height vChain = int (length vChain) - 1"

definition Contains :: "block_store \<Rightarrow> CChain \<Rightarrow> addr \<Rightarrow> (unit, bool) outcome" where
  "Contains st vChain a = bindO (deref st (Some a)) (\<lambda>b. Ok (chain_at vChain (nHeight b) = Some a))"

definition Next :: "block_store \<Rightarrow> CChain \<Rightarrow> addr \<Rightarrow> (unit, addr option) outcome" where
  "Next st vChain a =
     bindO (Contains st vChain a) (\<lambda>c.
       if c then bindO (deref st (Some a)) (\<lambda>b. bindO (inc_height (nHeight b)) (\<lambda>h. Ok (chain_at vChain h))) else Ok None)"

text \<open>\<open>vector::resize\<close> keeps the entries below the new size and adds null pointers.\<close>

definition resize :: "nat \<Rightarrow> CChain \<Rightarrow> CChain" where
  "resize n v = take n v @ replicate (n - length v) None"

partial_function (option) tip_loop :: "block_store \<Rightarrow> CChain \<Rightarrow> addr option \<Rightarrow> (unit, CChain) outcome option" where
  "tip_loop st vChain p =
     (case p of None \<Rightarrow> Some (Ok vChain)
      | Some a \<Rightarrow> (case st a of None \<Rightarrow> Some Abort
          | Some b \<Rightarrow>
              if nHeight b < 0 \<or> nHeight b \<ge> int (length vChain) then Some Abort
              else if vChain ! nat (nHeight b) \<noteq> Some a
              then tip_loop st (vChain[nat (nHeight b) := Some a]) (pprev b)
              else Some (Ok vChain)))"

definition SetTip :: "block_store \<Rightarrow> CChain \<Rightarrow> addr option \<Rightarrow> (unit, CChain) outcome option" where
  "SetTip st vChain p =
     (case p of None \<Rightarrow> Some (Ok [])
      | Some a \<Rightarrow> (case st a of None \<Rightarrow> Some Abort
          | Some b \<Rightarrow> (case inc_height (nHeight b) of
                Ok n \<Rightarrow> if n < 0 then Some Abort else tip_loop st (resize (nat n) vChain) p
              | _ \<Rightarrow> Some Abort)))"

partial_function (option) fork_loop :: "block_store \<Rightarrow> CChain \<Rightarrow> addr option \<Rightarrow> (unit, addr option) outcome option" where
  "fork_loop st vChain p =
     (case p of None \<Rightarrow> Some (Ok None)
      | Some a \<Rightarrow> (case st a of None \<Rightarrow> Some Abort
          | Some b \<Rightarrow> if chain_at vChain (nHeight b) \<noteq> Some a then fork_loop st vChain (pprev b) else Some (Ok p)))"

definition FindFork :: "block_store \<Rightarrow> CChain \<Rightarrow> addr \<Rightarrow> (unit, addr option) outcome option" where
  "FindFork st vChain a =
     (case st a of None \<Rightarrow> Some Abort
      | Some b \<Rightarrow>
          if nHeight b > Height vChain
          then (case GetAncestor st a (Height vChain) of Ok p \<Rightarrow> fork_loop st vChain p | _ \<Rightarrow> Some Abort)
          else fork_loop st vChain (Some a))"

partial_function (option) locator_loop ::
    "block_store \<Rightarrow> CChain \<Rightarrow> int \<Rightarrow> uint256 list \<Rightarrow> addr option \<Rightarrow> (unit, uint256 list) outcome option" where
  "locator_loop st vChain nStep vHave p =
     (case p of None \<Rightarrow> Some (Ok vHave)
      | Some a \<Rightarrow> (case st a of None \<Rightarrow> Some Abort
          | Some b \<Rightarrow>
              let vHave = vHave @ [phashBlock b] in
              if nHeight b = 0 then Some (Ok vHave)
              else let h = max (nHeight b - nStep) 0;
                       q = (if chain_at vChain (nHeight b) = Some a then Ok (chain_at vChain h) else GetAncestor st a h);
                       nStep = (if length vHave > 10 then nStep * 2 else nStep)
                   in if nStep > int32_max then Some Abort
                      else (case q of Ok p \<Rightarrow> locator_loop st vChain nStep vHave p | _ \<Rightarrow> Some Abort)))"

definition GetLocator :: "block_store \<Rightarrow> CChain \<Rightarrow> addr option \<Rightarrow> (unit, uint256 list) outcome option" where
  "GetLocator st vChain p =
     (case p of Some a \<Rightarrow> locator_loop st vChain 1 [] p
      | None \<Rightarrow> (case Tip st vChain False of Some (Ok t) \<Rightarrow> locator_loop st vChain 1 [] t | _ \<Rightarrow> Some Abort))"

text \<open>The blocks from genesis up to \<open>a\<close>, and a chain that is such a list.\<close>

definition chain_of :: "block_store \<Rightarrow> addr \<Rightarrow> nat \<Rightarrow> CChain" where
  "chain_of st a h = map (\<lambda>i. walk_back st a (h - i)) [0..<Suc h]"

definition is_chain :: "block_store \<Rightarrow> CChain \<Rightarrow> bool" where
  "is_chain st v \<longleftrightarrow> v = [] \<or> (\<exists>a b. st a = Some b \<and> v = chain_of st a (nat (nHeight b)))"

text \<open>Where \<open>v\<close> has a block at a height up to \<open>k\<close>, it has the predecessors of that block below.\<close>

definition consistent :: "block_store \<Rightarrow> CChain \<Rightarrow> nat \<Rightarrow> bool" where
  "consistent st v k \<longleftrightarrow> (\<forall>i \<le> k. \<forall>x. i < length v \<longrightarrow> v ! i = Some x \<longrightarrow> (\<forall>j \<le> i. v ! j = walk_back st x (i - j)))"

lemma length_chain_of [simp]: "length (chain_of st a h) = Suc h"
  by (simp add: chain_of_def)

lemma nth_chain_of: "i \<le> h \<Longrightarrow> chain_of st a h ! i = walk_back st a (h - i)"
  by (simp add: chain_of_def less_Suc_eq_le del: upt_Suc)

lemma chain_of_Suc:
  assumes "st c = Some b" "pprev b = Some p"
  shows "chain_of st c (Suc k) = chain_of st p k @ [Some c]"
proof (rule nth_equalityI)
  fix i
  assume "i < length (chain_of st c (Suc k))"
  then consider "i \<le> k" | "i = Suc k" by fastforce
  then show "chain_of st c (Suc k) ! i = (chain_of st p k @ [Some c]) ! i"
    using assms by cases (simp_all add: nth_chain_of nth_append Suc_diff_le)
qed simp

lemma wf_root: "wf_store st \<Longrightarrow> st a = Some b \<Longrightarrow> nHeight b = 0 \<Longrightarrow> pprev b = None"
proof (cases "pprev b")
  case (Some p)
  assume a: "wf_store st" "st a = Some b" "nHeight b = 0"
  then have "linked st b" by (simp add: wf_store_def)
  with Some obtain q where "st p = Some q" "nHeight b = nHeight q + 1"
    by (cases "st p") (simp_all add: linked_def)
  moreover from this a(1) have "0 \<le> nHeight q" by (simp add: wf_store_def)
  ultimately show ?thesis using a(3) by simp
qed simp

lemma chain_of_consistent: "consistent st (chain_of st a h) k"
  unfolding consistent_def
proof (intro allI impI)
  fix i x j
  assume i: "i < length (chain_of st a h)" "chain_of st a h ! i = Some x" and "j \<le> i"
  then have "walk_back st a ((h - i) + (i - j)) = walk_back st x (i - j)"
    unfolding walk_back_add by (simp add: nth_chain_of)
  with i \<open>j \<le> i\<close> show "chain_of st a h ! j = walk_back st x (i - j)" by (simp add: nth_chain_of)
qed

lemma consistent_resize: "consistent st v k \<Longrightarrow> consistent st (resize n v) k"
proof -
  have n: "resize n v ! i = (if i < length v then v ! i else None)" if "i < n" for i
    using that by (auto simp: resize_def nth_append)
  have len: "length (resize n v) = n" by (simp add: resize_def)
  assume "consistent st v k"
  then show ?thesis unfolding consistent_def len by (simp add: n split: if_splits)
qed

lemma tip_loop_None: "tip_loop st v None = Some (Ok v)"
  by (subst tip_loop.simps) simp

lemma tip_loop_step:
  "st a = Some b \<Longrightarrow> nHeight b = int k \<Longrightarrow> k < length v \<Longrightarrow>
   tip_loop st v (Some a) = (if v ! k \<noteq> Some a then tip_loop st (v[k := Some a]) (pprev b) else Some (Ok v))"
  by (subst tip_loop.simps) simp

lemma tip_loop_chain:
  assumes wf: "wf_store st" and "st c = Some b" "nHeight b = int k" "k < length v" "consistent st v k"
  shows "tip_loop st v (Some c) = Some (Ok (chain_of st c k @ drop (Suc k) v))"
  using assms(2-)
proof (induction k arbitrary: c b v)
  case 0
  have "v[0 := Some c] = Some c # drop 1 v" using 0 by (cases v) auto
  moreover have "pprev b = None" using wf_root [OF wf "0.prems"(1)] "0.prems"(2) by simp
  moreover have "v ! 0 = Some c \<Longrightarrow> v = Some c # drop 1 v" using 0 by (cases v) auto
  ultimately show ?case using "0.prems"
    by (subst tip_loop_step) (auto simp: chain_of_def tip_loop_None)
next
  case (Suc k)
  then have "0 < nHeight b" by simp
  then obtain p q where p: "pprev b = Some p" "st p = Some q" "nHeight q = nHeight b - 1"
    by (rule wf_prev [OF wf Suc.prems(1)])
  have split: "chain_of st c (Suc k) = chain_of st p k @ [Some c]"
    using Suc.prems(1) p(1) by (rule chain_of_Suc)
  show ?case
  proof (cases "v ! Suc k = Some c")
    case True
    have "v ! i = chain_of st c (Suc k) ! i" if "i \<le> Suc k" for i
      using Suc.prems(3,4) True that by (simp add: consistent_def nth_chain_of)
    then have "take (Suc (Suc k)) v = chain_of st c (Suc k)"
      using Suc.prems(3) by (intro nth_equalityI) (simp_all add: less_Suc_eq_le)
    then have "chain_of st c (Suc k) @ drop (Suc (Suc k)) v = v" by (metis append_take_drop_id)
    then show ?thesis using True tip_loop_step [of st c b "Suc k" v] Suc.prems(1,2,3) by simp
  next
    case False
    let ?v = "v[Suc k := Some c]"
    have "consistent st ?v k" using Suc.prems(4) by (auto simp: consistent_def nth_list_update)
    then have "tip_loop st ?v (Some p) = Some (Ok (chain_of st p k @ drop (Suc k) ?v))"
      using Suc.prems p by (intro Suc.IH [of p q]) auto
    moreover have "drop (Suc k) ?v = Some c # drop (Suc (Suc k)) v"
      using Suc.prems(3) by (simp add: drop_update_swap flip: Cons_nth_drop_Suc)
    ultimately show ?thesis using False tip_loop_step [of st c b "Suc k" v] Suc.prems(1,2,3) p(1) split by simp
  qed
qed

lemma resize_drop: "drop n (resize n v) = []" "length (resize n v) = n"
  by (simp_all add: resize_def)

lemma is_chain_consistent: "is_chain st v \<Longrightarrow> consistent st v k"
proof -
  have "consistent st [] k" by (simp add: consistent_def)
  then show "is_chain st v \<Longrightarrow> consistent st v k" unfolding is_chain_def by (metis chain_of_consistent)
qed

lemma SetTip_chain:
  assumes wf: "wf_store st" and a: "st a = Some b" and "is_chain st v" and h': "nHeight b \<noteq> int32_max"
  shows "SetTip st v (Some a) = Some (Ok (chain_of st a (nat (nHeight b))))"
proof -
  have h: "0 \<le> nHeight b" "nHeight b + 1 \<le> int32_max" using wf_height [OF wf a] h' by auto
  have "consistent st v (nat (nHeight b))" using assms(3) by (rule is_chain_consistent)
  then have "consistent st (resize (nat (nHeight b + 1)) v) (nat (nHeight b))" by (rule consistent_resize)
  then have "tip_loop st (resize (nat (nHeight b + 1)) v) (Some a) = Some (Ok (chain_of st a (nat (nHeight b))))"
    using tip_loop_chain [OF wf a, of "nat (nHeight b)" "resize (nat (nHeight b + 1)) v"] h
    by (simp add: resize_drop nat_add_distrib)
  then show ?thesis using a h by (simp add: SetTip_def inc_height_def)
qed

text \<open>
  C32: \<open>SetTip\<close> terminates on a well-formed index, whatever chain was active before, and leaves exactly the
  blocks from genesis to the new tip, each at its height, although the loop stops at the first block that
  is in place already. Only for a tip at the greatest height an \<open>int\<close> can hold the size of the new chain
  overflows.
\<close>

theorem set_tip_activates_branch:
  assumes "wf_store st" "st a = Some b" "is_chain st v"
  shows "if nHeight b = int32_max then SetTip st v (Some a) = Some Abort
    else \<exists>v'. SetTip st v (Some a) = Some (Ok v') \<and> is_chain st v' \<and> length v' = nat (nHeight b) + 1 \<and>
      (\<forall>i \<le> nat (nHeight b). v' ! i = walk_back st a (nat (nHeight b) - i))"
proof (cases "nHeight b = int32_max")
  case False
  have "is_chain st (chain_of st a (nat (nHeight b)))" unfolding is_chain_def using assms(2) by blast
  then show ?thesis using SetTip_chain [OF assms False] False by (simp add: nth_chain_of)
qed (simp add: SetTip_def inc_height_def assms(2))

theorem set_tip_activates_branch_witness:
  "\<exists>v'. SetTip two_blocks [] (Some 1) = Some (Ok v') \<and> is_chain two_blocks v' \<and> length v' = 2 \<and>
    (\<forall>i \<le> 1. v' ! i = walk_back two_blocks 1 (1 - i))"
  using set_tip_activates_branch [OF two_blocks_wf, of 1 "entry (Some 0) 1" "[]"]
  by (simp add: is_chain_def two_blocks_def entry_def numeral_2_eq_2 int32_max_def)

section \<open>Forks\<close>

lemma chain_at_height:
  assumes "wf_store st" "is_chain st v" "st c = Some q"
  shows "chain_at v (nHeight q) = Some c \<longleftrightarrow> Some c \<in> set v"
proof
  show "chain_at v (nHeight q) = Some c \<Longrightarrow> Some c \<in> set v"
    by (metis chain_at_def linorder_not_less nat_less_iff nth_mem option.distinct(1))
  assume m: "Some c \<in> set v"
  then obtain a b where a: "st a = Some b" "v = chain_of st a (nat (nHeight b))"
    using assms(2) by (auto simp: is_chain_def)
  have h: "0 \<le> nHeight b" using assms(1) a by (simp add: wf_store_def)
  from m a(2) obtain i where i: "i \<le> nat (nHeight b)" "v ! i = Some c"
    by (metis in_set_conv_nth length_chain_of less_Suc_eq_le)
  then have w: "walk_back st a (nat (nHeight b) - i) = Some c" using a(2) by (simp add: nth_chain_of)
  have "int (nat (nHeight b) - i) \<le> nHeight b" using h by simp
  then obtain c' q' where "walk_back st a (nat (nHeight b) - i) = Some c'" "st c' = Some q'"
      "nHeight q' = nHeight b - int (nat (nHeight b) - i)" by (rule walk_back_height [OF assms(1) a(1)])
  with w assms(3) have "nHeight q = int i" using i(1) h by simp
  then show "chain_at v (nHeight q) = Some c" using i a(2) h by (simp add: chain_at_def)
qed

text \<open>The first of the blocks from \<open>a\<close> down to genesis that is in the chain \<open>v\<close>.\<close>

definition last_common :: "block_store \<Rightarrow> CChain \<Rightarrow> addr \<Rightarrow> nat \<Rightarrow> addr option" where
  "last_common st v a h = Option.bind (List.find (\<lambda>x. x \<in> set v) (rev (chain_of st a h))) id"

lemma chain_of_0: "chain_of st a 0 = [Some a]"
  by (simp add: chain_of_def)

lemma fork_loop_None: "fork_loop st v None = Some (Ok None)"
  by (subst fork_loop.simps) simp

lemma fork_loop_step:
  assumes "wf_store st" "is_chain st v" "st a = Some b"
  shows "fork_loop st v (Some a) = (if Some a \<in> set v then Some (Ok (Some a)) else fork_loop st v (pprev b))"
  using chain_at_height [OF assms] assms(3) by (subst fork_loop.simps) simp

lemma fork_loop_last_common:
  assumes "wf_store st" "is_chain st v" "st a = Some b" "nHeight b = int k"
  shows "fork_loop st v (Some a) = Some (Ok (last_common st v a k))"
  using assms(3,4)
proof (induction k arbitrary: a b)
  case 0
  then have "pprev b = None" using wf_root [OF assms(1), of a b] by simp
  then show ?case
    using fork_loop_step [OF assms(1,2), of a b] 0 by (simp add: last_common_def chain_of_0 fork_loop_None)
next
  case (Suc k)
  then have "0 < nHeight b" by simp
  then obtain p q where p: "pprev b = Some p" "st p = Some q" "nHeight q = nHeight b - 1"
    by (rule wf_prev [OF assms(1) Suc.prems(1)])
  have "fork_loop st v (Some p) = Some (Ok (last_common st v p k))"
    using Suc.IH [OF p(2)] p(3) Suc.prems(2) by simp
  then show ?case
    using fork_loop_step [OF assms(1,2), of a b] Suc.prems(1) p(1) chain_of_Suc [of st a b p k]
    by (simp add: last_common_def)
qed

lemma find_False: "List.find (\<lambda>x. False) xs = None"
  by (induction xs) auto

lemma find_append_none: "\<forall>x \<in> set xs. \<not> P x \<Longrightarrow> List.find P (xs @ ys) = List.find P ys"
  by (induction xs) auto

lemma last_common_above:
  assumes "wf_store st" "is_chain st v" "st a = Some b" "nHeight b = int h" "length v = Suc H" "H < h"
    and c: "walk_back st a (h - H) = Some c"
  shows "last_common st v a h = last_common st v c H"
proof -
  let ?top = "map (\<lambda>i. walk_back st a (h - i)) [Suc H..<Suc h]"
  have eq: "chain_of st a h = chain_of st c H @ ?top"
  proof (rule nth_equalityI)
    fix i
    assume i: "i < length (chain_of st a h)"
    have "walk_back st a (h - i) = walk_back st c (H - i)" if "i \<le> H"
    proof -
      have "walk_back st a ((h - H) + (H - i)) = walk_back st c (H - i)" unfolding walk_back_add c by simp
      then show ?thesis using that \<open>H < h\<close> by simp
    qed
    then show "chain_of st a h ! i = (chain_of st c H @ ?top) ! i"
      using i by (cases "i \<le> H") (simp_all add: nth_chain_of nth_append del: upt_Suc)
  qed (use \<open>H < h\<close> in simp)
  have "x \<notin> set v" if "x \<in> set ?top" for x
  proof -
    from that obtain i where "i \<in> set [Suc H..<Suc h]" "x = walk_back st a (h - i)"
      unfolding set_map by blast
    then have i: "H < i" "i \<le> h" "x = walk_back st a (h - i)" by (simp_all only: set_upt atLeastLessThan_iff Suc_le_eq less_Suc_eq_le)
    have "int (h - i) \<le> nHeight b" using assms(4) by simp
    then obtain y q where "walk_back st a (h - i) = Some y" "st y = Some q" "nHeight q = nHeight b - int (h - i)"
      by (rule walk_back_height [OF assms(1,3)])
    moreover from this have "chain_at v (nHeight q) = None" using i assms(4,5) by (simp add: chain_at_def)
    ultimately show ?thesis using chain_at_height [OF assms(1,2), of y q] i(3) by simp
  qed
  then show ?thesis unfolding last_common_def eq rev_append by (subst find_append_none) auto
qed

text \<open>
  C33: \<open>FindFork\<close> terminates on a well-formed index and returns the highest block that the branch of the
  given block shares with the active chain, or null when they share none.
\<close>

theorem find_fork_is_last_common:
  assumes "wf_store st" "is_chain st v" "st a = Some b"
  shows "FindFork st v a = Some (Ok (last_common st v a (nat (nHeight b))))"
proof (cases "nHeight b > Height v")
  case False
  moreover have "0 \<le> nHeight b" using assms by (simp add: wf_store_def)
  ultimately show ?thesis using fork_loop_last_common [OF assms] assms(3) by (simp add: FindFork_def)
next
  case True
  show ?thesis
  proof (cases v)
    case Nil
    then show ?thesis using True assms(3)
      by (simp add: FindFork_def Height_def GetAncestor_def deref_def fork_loop_None last_common_def
          find_False)
  next
    case (Cons x xs)
    define H where "H = length xs"
    have H: "Height v = int H" "length v = Suc H" "int H < nHeight b" using True Cons by (simp_all add: Height_def H_def)
    have "int (nat (nHeight b) - H) \<le> nHeight b" using H(3) by simp
    then obtain c q where c: "walk_back st a (nat (nHeight b) - H) = Some c" "st c = Some q"
        "nHeight q = nHeight b - int (nat (nHeight b) - H)" by (rule walk_back_height [OF assms(1,3)])
    have "GetAncestor st a (int H) = Ok (Some c)"
      using GetAncestor_walk [OF assms(1,3), of "int H"] H(3) c(1) by (simp add: nat_diff_distrib)
    moreover have "fork_loop st v (Some c) = Some (Ok (last_common st v c H))"
      using c(3) H(3) by (intro fork_loop_last_common [OF assms(1,2) c(2)]) simp
    moreover have "last_common st v a (nat (nHeight b)) = last_common st v c H"
      using H c(1) by (intro last_common_above [OF assms]) simp_all
    ultimately show ?thesis using True assms(3) H(1) by (simp add: FindFork_def)
  qed
qed

theorem find_fork_is_last_common_witness:
  "FindFork two_blocks [Some 0] 1 = Some (Ok (last_common two_blocks [Some 0] 1 1))"
proof -
  have "is_chain two_blocks [Some 0]"
    unfolding is_chain_def by (intro disjI2 exI [of _ 0] exI [of _ "entry None 0"]) (simp add: two_blocks_def entry_def chain_of_0)
  then show ?thesis
    using find_fork_is_last_common [OF two_blocks_wf, of "[Some 0]" 1 "entry (Some 0) 1"]
    by (simp add: two_blocks_def entry_def)
qed

section \<open>The last proof-of-stake block and locators\<close>

text \<open>\<open>Tip(true)\<close> returns: the nearest ancestor, the tip included, that is a proof-of-stake block, or the genesis block.\<close>

lemma last_stake_returns:
  assumes "wf_store st" "st a = Some b"
  shows "\<exists>n c q. last_stake st (Some a) = Some (Ok (Some c)) \<and> walk_back st a n = Some c \<and> st c = Some q \<and>
    (IsProofOfStake q \<or> nHeight q = 0) \<and>
    (\<forall>m < n. \<forall>d r. walk_back st a m = Some d \<longrightarrow> st d = Some r \<longrightarrow> \<not> IsProofOfStake r)"
  using assms(2)
proof (induction "nat (nHeight b)" arbitrary: a b rule: less_induct)
  case less
  have h: "0 \<le> nHeight b" using assms(1) less.prems by (simp add: wf_store_def)
  show ?case
  proof (cases "pprev b \<noteq> None \<and> \<not> IsProofOfStake b")
    case True
    then have "nHeight b \<noteq> 0" using wf_root [OF assms(1) less.prems] by auto
    then obtain p q where p: "pprev b = Some p" "st p = Some q" "nHeight q = nHeight b - 1"
      using wf_prev [OF assms(1) less.prems] h by (metis order_le_less)
    then obtain n c r where n: "last_stake st (Some p) = Some (Ok (Some c))" "walk_back st p n = Some c" "st c = Some r"
      "IsProofOfStake r \<or> nHeight r = 0"
      "\<forall>m < n. \<forall>d r. walk_back st p m = Some d \<longrightarrow> st d = Some r \<longrightarrow> \<not> IsProofOfStake r"
      using less.hyps [of q p] h \<open>nHeight b \<noteq> 0\<close> by auto
    have "last_stake st (Some a) = Some (Ok (Some c))" using n(1) p(1) True less.prems by (subst last_stake.simps) simp
    moreover have "\<not> IsProofOfStake r" if "m < Suc n" "walk_back st a m = Some d" "st d = Some r" for m d r
      using that n(5) True less.prems p(1) by (cases m) auto
    ultimately show ?thesis using n(2-4) p(1) less.prems
      by (intro exI [of _ "Suc n"] exI [of _ c] exI [of _ r]) auto
  next
    case False
    moreover have "linked st b" using assms(1) less.prems by (simp add: wf_store_def)
    then have "pprev b = None \<Longrightarrow> nHeight b = 0" by (simp add: linked_def)
    ultimately have "IsProofOfStake b \<or> nHeight b = 0" by blast
    then show ?thesis using False less.prems
      by (subst last_stake.simps) (intro exI [of _ 0] exI [of _ a] exI [of _ b], auto)
  qed
qed

lemma chain_below:
  assumes "wf_store st" "is_chain st v" "st a = Some b" "chain_at v (nHeight b) = Some a" "0 \<le> h" "h \<le> nHeight b"
  shows "chain_at v h = walk_back st a (nat (nHeight b - h))"
proof -
  have "consistent st v (nat (nHeight b))" using assms(2) by (rule is_chain_consistent)
  moreover have "nat (nHeight b) < length v" "v ! nat (nHeight b) = Some a"
    using assms(4) by (auto simp: chain_at_def split: if_splits)
  ultimately have "v ! nat h = walk_back st a (nat (nHeight b) - nat h)" using assms(5,6) unfolding consistent_def by simp
  then show ?thesis using assms(5,6) \<open>nat (nHeight b) < length v\<close> by (simp add: chain_at_def nat_diff_distrib)
qed

text \<open>The next block of a locator, found in the active chain or over the skip list, is the ancestor at the wanted height.\<close>

lemma locator_step:
  assumes "wf_store st" "is_chain st v" "st a = Some b" "nHeight b \<noteq> 0" "1 \<le> nStep"
  obtains p q where "st p = Some q" "nHeight q = max (nHeight b - nStep) 0" "nHeight q < nHeight b"
    "walk_back st a (nat (nHeight b - nHeight q)) = Some p"
    "locator_loop st v nStep vHave (Some a) =
      (let vHave = vHave @ [phashBlock b]; nStep = (if length vHave > 10 then nStep * 2 else nStep)
       in if nStep > int32_max then Some Abort else locator_loop st v nStep vHave (Some p))"
proof -
  let ?h = "max (nHeight b - nStep) 0"
  have h: "0 \<le> nHeight b" using assms(1,3) by (simp add: wf_store_def)
  then have "int (nat (nHeight b - ?h)) \<le> nHeight b" by simp
  then obtain p q where p: "walk_back st a (nat (nHeight b - ?h)) = Some p" "st p = Some q"
    "nHeight q = nHeight b - int (nat (nHeight b - ?h))" by (rule walk_back_height [OF assms(1,3)])
  have q: "nHeight q = ?h" "?h < nHeight b" using p(3) h assms(4,5) by auto
  have "(if chain_at v (nHeight b) = Some a then Ok (chain_at v ?h) else GetAncestor st a ?h) = Ok (Some p)"
    using chain_below [OF assms(1-3), of ?h] GetAncestor_walk [OF assms(1,3), of ?h] p(1) q(2) by auto
  then have "locator_loop st v nStep vHave (Some a) =
      (let vHave = vHave @ [phashBlock b]; nStep = (if length vHave > 10 then nStep * 2 else nStep)
       in if nStep > int32_max then Some Abort else locator_loop st v nStep vHave (Some p))"
    using assms(3,4) by (subst locator_loop.simps) (simp add: Let_def)
  then show ?thesis using that p(1,2) q by simp
qed

lemma locator_genesis:
  "st a = Some b \<Longrightarrow> nHeight b = 0 \<Longrightarrow> locator_loop st v nStep vHave (Some a) = Some (Ok (vHave @ [phashBlock b]))"
  by (subst locator_loop.simps) (simp add: Let_def)

text \<open>
  The loop of \<open>GetLocator\<close> returns on every well-formed index. From a block below height \<open>2 ^ 30\<close> its step never
  overflows; the locator then lists blocks from the given one to genesis, each an ancestor of it.
\<close>

lemma locator_loop_returns:
  assumes "wf_store st" "is_chain st v" "st a = Some b" "1 \<le> nStep"
  shows "\<exists>r. locator_loop st v nStep vHave (Some a) = Some r"
  using assms(3,4)
proof (induction "nat (nHeight b)" arbitrary: a b nStep vHave rule: less_induct)
  case less
  show ?case
  proof (cases "nHeight b = 0")
    case False
    obtain p q where "st p = Some q" "nHeight q = max (nHeight b - nStep) 0" "nHeight q < nHeight b"
      "walk_back st a (nat (nHeight b - nHeight q)) = Some p"
      "locator_loop st v nStep vHave (Some a) =
        (let vHave = vHave @ [phashBlock b]; nStep = (if length vHave > 10 then nStep * 2 else nStep)
         in if nStep > int32_max then Some Abort else locator_loop st v nStep vHave (Some p))"
      by (rule locator_step [OF assms(1,2) less.prems(1) False less.prems(2)])
    moreover have "\<exists>r. locator_loop st v k vHave' (Some p) = Some r" if "1 \<le> k" for k vHave'
      using \<open>nHeight q < nHeight b\<close> \<open>nHeight q = _\<close> that by (intro less.hyps [OF _ \<open>st p = Some q\<close>]) auto
    ultimately show ?thesis using less.prems(2) unfolding Let_def by simp
  qed (use locator_genesis [of st a b] less.prems in blast)
qed

lemma locator_loop_ok:
  assumes "wf_store st" "is_chain st v" "st a = Some b" "1 \<le> nStep" "nHeight b = 0 \<or> nHeight b + nStep \<le> 2 ^ 30"
  shows "\<exists>ns. locator_loop st v nStep vHave (Some a) =
      Some (Ok (vHave @ map (\<lambda>n. phashBlock (the (st (the (walk_back st a n))))) (0 # ns))) \<and>
    sorted_wrt (<) (0 # ns) \<and> last (0 # ns) = nat (nHeight b)"
  using assms(3-5)
proof (induction "nat (nHeight b)" arbitrary: a b nStep vHave rule: less_induct)
  case less
  show ?case
  proof (cases "nHeight b = 0")
    case True
    then show ?thesis using locator_genesis [of st a b v nStep vHave] less.prems(1) by (intro exI [of _ "[]"]) simp
  next
    case False
    obtain p q where p: "st p = Some q" "nHeight q = max (nHeight b - nStep) 0" "nHeight q < nHeight b"
      "walk_back st a (nat (nHeight b - nHeight q)) = Some p"
      "locator_loop st v nStep vHave (Some a) =
        (let vHave = vHave @ [phashBlock b]; nStep = (if length vHave > 10 then nStep * 2 else nStep)
         in if nStep > int32_max then Some Abort else locator_loop st v nStep vHave (Some p))"
      by (rule locator_step [OF assms(1,2) less.prems(1) False less.prems(2)])
    let ?v = "vHave @ [phashBlock b]"
    define k where "k = (if length ?v > 10 then nStep * 2 else nStep)"
    define d where "d = nat (nHeight b - nHeight q)"
    have h: "0 \<le> nHeight q" "0 \<le> nHeight b" using p(2,3) by auto
    have k: "1 \<le> k" "k \<le> int32_max" "nHeight q = 0 \<or> nHeight q + k \<le> 2 ^ 30"
      using less.prems(2,3) False p(2) h by (auto simp: k_def int32_max_def)
    have lt: "nat (nHeight q) < nat (nHeight b)" using p(3) h by simp
    obtain ns where ns: "locator_loop st v k ?v (Some p) =
        Some (Ok (?v @ map (\<lambda>n. phashBlock (the (st (the (walk_back st p n))))) (0 # ns)))"
      "sorted_wrt (<) (0 # ns)" "last (0 # ns) = nat (nHeight q)"
      using less.hyps [OF lt p(1) k(1,3), of ?v] by blast
    have w: "walk_back st p n = walk_back st a (d + n)" for n using p(4) by (simp add: walk_back_add d_def)
    have "locator_loop st v nStep vHave (Some a) = locator_loop st v k ?v (Some p)"
      using p(5) k(2) unfolding k_def Let_def by simp
    then have "locator_loop st v nStep vHave (Some a) =
        Some (Ok (vHave @ map (\<lambda>n. phashBlock (the (st (the (walk_back st a n))))) (0 # map ((+) d) (0 # ns))))"
      unfolding ns(1) w list.map using less.prems(1) by (simp add: comp_def)
    moreover have "sorted_wrt (<) (0 # map ((+) d) (0 # ns))" using ns(2) p(3) by (auto simp: sorted_wrt_map d_def)
    moreover have "last (0 # map ((+) d) (0 # ns)) = d + last (0 # ns)" by (simp add: last_map)
    then have "last (0 # map ((+) d) (0 # ns)) = nat (nHeight b)" unfolding ns(3) using p(3) h by (simp add: d_def)
    ultimately show ?thesis by blast
  qed
qed

end
