(* ===== verification/Pow.thy ===== *)
theory Pow
  imports ArithCompact ChainIndex "HOL-Library.Signed_Division"
begin

text \<open>
  Proof of work, \<open>src/src/pow.cpp\<close>, and the trust score of \<open>src/src/chain.cpp\<close>. The chain parameters the
  code asks for are a record; the printing of \<open>CheckProofOfWork\<close> is left out. \<open>int64_t\<close> values are
  integers. A product with an \<open>int64_t\<close> selects the overload with a 32-bit factor, so the factor is
  truncated.
\<close>

section \<open>Definitions\<close>

record CChainParams =
  ProofOfWorkLimit :: base_uint
  AllowMinDifficultyBlocks :: bool
  SkipProofOfWorkCheck :: bool
  TargetSpacing :: int
  LAST_POW_BLOCK :: int

abbreviation arith256 :: "uint64 \<Rightarrow> base_uint" where
  "arith256 b \<equiv> bu_of_uint64 8 b"

definition CheckProofOfWork :: "CChainParams \<Rightarrow> uint256 \<Rightarrow> uint32 \<Rightarrow> bool" where
  "CheckProofOfWork P h nBits =
     (if SkipProofOfWorkCheck P then True
      else let (bnTarget, fNegative, fOverflow) = SetCompact nBits in
           if fNegative \<or> EqualTo bnTarget 0 \<or> fOverflow \<or> CompareTo bnTarget (ProofOfWorkLimit P) > 0 then False
           else if CompareTo (UintToArith256 h) bnTarget > 0 then False
           else True)"

definition GetBlockProof :: "uint32 \<Rightarrow> (unit, base_uint) outcome" where
  "GetBlockProof nBits =
     (let (bnTarget, fNegative, fOverflow) = SetCompact nBits in
      if fNegative \<or> fOverflow \<or> EqualTo bnTarget 0 then Ok (arith256 0)
      else bindO (bu_div (bu_not bnTarget) (bu_add bnTarget (arith256 1))) (\<lambda>q. Ok (bu_add q (arith256 1))))"

definition GetBlockTrust :: "CBlockIndex \<Rightarrow> (unit, base_uint) outcome" where
  "GetBlockTrust b =
     (let bnTarget = fst (SetCompact (idxBits b)) in
      if CompareTo bnTarget (arith256 0) \<le> 0 then Ok (arith256 0)
      else if IsProofOfStake b
      then bu_div (bu_shl (arith256 1) 256) (bu_add bnTarget (arith256 1))
      else bindO (bu_div (bu_shr (bu_not (arith256 0)) 20) (bu_add bnTarget (arith256 1))) (\<lambda>bnPoWTrust.
        Ok (if CompareTo bnPoWTrust (arith256 1) > 0 then bnPoWTrust else arith256 1)))"

text \<open>The loop over the past blocks; \<open>n\<close> rounds are left of the 24.\<close>

record gravity =
  CountBlocks :: int
  PastDifficultyAverage :: base_uint
  PastDifficultyAveragePrev :: base_uint
  nActualTimespan :: int
  LastBlockTime :: int

definition gravity_average :: "gravity \<Rightarrow> CBlockIndex \<Rightarrow> (unit, base_uint) outcome" where
  "gravity_average g b =
     (if CountBlocks g = 1 then Ok (fst (SetCompact (idxBits b)))
      else bu_div (bu_add (bu_mul32 (PastDifficultyAveragePrev g) (of_int (CountBlocks g)))
                          (fst (SetCompact (idxBits b))))
                  (arith256 (of_int (CountBlocks g + 1))))"

definition gravity_step :: "gravity \<Rightarrow> CBlockIndex \<Rightarrow> (unit, gravity) outcome" where
  "gravity_step g b =
     (let g = g\<lparr>CountBlocks := CountBlocks g + 1\<rparr> in
      bindO (if CountBlocks g \<le> 24
             then bindO (gravity_average g b) (\<lambda>a. Ok (g\<lparr>PastDifficultyAverage := a, PastDifficultyAveragePrev := a\<rparr>))
             else Ok g) (\<lambda>g.
      let g = (if LastBlockTime g > 0
               then g\<lparr>nActualTimespan := nActualTimespan g + (LastBlockTime g - GetBlockTime b)\<rparr> else g)
      in Ok (g\<lparr>LastBlockTime := GetBlockTime b\<rparr>)))"

fun gravity_loop :: "block_store \<Rightarrow> nat \<Rightarrow> addr option \<Rightarrow> gravity \<Rightarrow> (unit, gravity) outcome" where
  "gravity_loop st n None g = Ok g"
| "gravity_loop st n (Some a) g =
     bindO (deref st (Some a)) (\<lambda>b.
       if nHeight b > 0
       then (case n of 0 \<Rightarrow> Ok g
             | Suc n \<Rightarrow> bindO (gravity_step g b) (\<lambda>g.
                 case pprev b of None \<Rightarrow> Ok g | Some p \<Rightarrow> gravity_loop st n (Some p) g))
       else Ok g)"

definition stake_target :: "block_store \<Rightarrow> CBlockIndex \<Rightarrow> (unit, uint32) outcome" where
  "stake_target st b =
     (let bnTargetLimit = bu_shr (bu_not (arith256 0)) 24; nTargetSpacing = 60; nTargetTimespan = 60 * 40 in
      bindO (if nHeight b \<noteq> 0
             then bindO (deref st (pprev b)) (\<lambda>p. Ok (GetBlockTime b - GetBlockTime p)) else Ok 0) (\<lambda>nActualSpacing.
      let nActualSpacing = (if nActualSpacing < 0 then 1 else nActualSpacing);
          bnNew = fst (SetCompact (idxBits b));
          nInterval = nTargetTimespan sdiv nTargetSpacing;
          bnNew = bu_mul32 bnNew (of_int ((nInterval - 1) * nTargetSpacing + nActualSpacing + nActualSpacing))
      in bindO (bu_div bnNew (arith256 (of_int ((nInterval + 1) * nTargetSpacing)))) (\<lambda>bnNew.
      let bnNew = (if CompareTo bnNew (arith256 0) \<le> 0 \<or> CompareTo bnNew bnTargetLimit > 0 then bnTargetLimit
                   else bnNew)
      in GetCompact bnNew False)))"

definition work_target :: "CChainParams \<Rightarrow> block_store \<Rightarrow> addr \<Rightarrow> (unit, uint32) outcome" where
  "work_target P st a =
     bindO (gravity_loop st 24 (Some a)
       \<lparr>CountBlocks = 0, PastDifficultyAverage = bu_zero 8, PastDifficultyAveragePrev = bu_zero 8,
        nActualTimespan = 0, LastBlockTime = 0\<rparr>) (\<lambda>g.
     let bnNew = PastDifficultyAverage g;
         nTargetTimespan = CountBlocks g * TargetSpacing P;
         t = nActualTimespan g;
         t = (if t < nTargetTimespan sdiv 3 then nTargetTimespan sdiv 3 else t);
         t = (if t > nTargetTimespan * 3 then nTargetTimespan * 3 else t);
         bnNew = bu_mul32 bnNew (of_int t)
     in bindO (bu_div bnNew (arith256 (of_int nTargetTimespan))) (\<lambda>bnNew.
     let bnNew = (if CompareTo bnNew (ProofOfWorkLimit P) > 0 then ProofOfWorkLimit P else bnNew)
     in GetCompact bnNew False))"

definition GetNextWorkRequired :: "CChainParams \<Rightarrow> block_store \<Rightarrow> addr option \<Rightarrow> (unit, uint32) outcome" where
  "GetNextWorkRequired P st pindexLast =
     bindO (deref st pindexLast) (\<lambda>b.
       if nHeight b < LAST_POW_BLOCK P \<and> AllowMinDifficultyBlocks P then GetCompact (ProofOfWorkLimit P) False
       else if pindexLast = None \<or> nHeight b = 0 \<or> nHeight b < 24 then GetCompact (ProofOfWorkLimit P) False
       else if nHeight b > LAST_POW_BLOCK P then stake_target st b
       else work_target P st (the pindexLast))"

section \<open>Targets\<close>

lemma arith256_simps [simp]: "length (arith256 b) = 8" "big (arith256 b) = unat b"
  by (simp_all add: bu_of_uint64_value)

lemma SetCompact_length: "length (fst (SetCompact c)) = 8"
  using SetCompact_spec [of c] by (metis prod.collapse)

text \<open>The target that a compact word stands for, before it is cut to 256 bits.\<close>

definition target :: "uint32 \<Rightarrow> nat" where
  "target nBits = compact_value (unat nBits mod 2 ^ 23) (unat nBits div 2 ^ 24)"

lemma SetCompact_target:
  obtains t neg ovf where "SetCompact nBits = (t, neg, ovf)" "length t = 8" "big t = target nBits mod 2 ^ 256"
    "neg \<longleftrightarrow> target nBits \<noteq> 0 \<and> bit nBits 23" "ovf \<longleftrightarrow> 2 ^ 256 \<le> target nBits"
  using SetCompact_spec [of nBits] unfolding target_def by (metis prod_cases3)

lemma target_plus_1: "target nBits mod 2 ^ 256 + 1 < 2 ^ 256"
proof (cases "unat nBits div 2 ^ 24 \<le> 3")
  case True
  have "target nBits < 2 ^ 23" unfolding target_def using True by (rule compact_small_lt) simp
  moreover have "(2 :: nat) ^ 23 + 1 \<le> 2 ^ 256" by simp
  moreover have "target nBits mod 2 ^ 256 \<le> target nBits" by (rule mod_less_eq_dividend)
  ultimately show ?thesis by linarith
next
  case False
  then have "even (target nBits)"
    unfolding target_def compact_value_def by (simp add: pow256)
  then have "even (target nBits mod 2 ^ 256)" by (simp add: dvd_mod)
  moreover have "odd ((2 :: nat) ^ 256 - 1)" by simp
  moreover have "target nBits mod 2 ^ 256 < 2 ^ 256" by (rule mod_less_divisor) simp
  ultimately show ?thesis by (metis Suc_eq_plus1 Suc_lessI diff_Suc_1)
qed

text \<open>
  C26: unless the check is switched off, \<open>CheckProofOfWork\<close> accepts exactly the hashes that, as a number, do
  not exceed the target, where the target is positive and not above the limit of the network. No
  compact word passes because its target was cut to 256 bits.
\<close>

theorem check_proof_of_work_iff:
  assumes "length (ProofOfWorkLimit P) = 8"
  shows "CheckProofOfWork P h nBits \<longleftrightarrow> SkipProofOfWorkCheck P \<or>
    (0 < target nBits \<and> \<not> bit nBits 23 \<and> target nBits \<le> big (ProofOfWorkLimit P) \<and> unat h \<le> target nBits)"
proof -
  obtain t neg ovf where t: "SetCompact nBits = (t, neg, ovf)" "length t = 8" "big t = target nBits mod 2 ^ 256"
    "neg \<longleftrightarrow> target nBits \<noteq> 0 \<and> bit nBits 23" "ovf \<longleftrightarrow> 2 ^ 256 \<le> target nBits" by (rule SetCompact_target)
  have lim: "big (ProofOfWorkLimit P) < 2 ^ 256" using big_lt [of "ProofOfWorkLimit P"] assms by simp
  have *: "CheckProofOfWork P h nBits \<longleftrightarrow> SkipProofOfWorkCheck P \<or>
      (\<not> neg \<and> big t \<noteq> 0 \<and> \<not> ovf \<and> big t \<le> big (ProofOfWorkLimit P) \<and> unat h \<le> big t)"
    using t(1,2) assms by (auto simp: CheckProofOfWork_def EqualTo_iff CompareTo_sound big_UintToArith256 not_less)
  show ?thesis
  proof (cases "target nBits < 2 ^ 256")
    case True
    then show ?thesis unfolding * t(3-5) by (auto simp: not_le)
  next
    case False
    then show ?thesis unfolding * t(3-5) using lim by (auto simp: not_le)
  qed
qed

definition example_params :: CChainParams where
  "example_params = \<lparr>ProofOfWorkLimit = bu_shr (bu_not (arith256 0)) 20, AllowMinDifficultyBlocks = False,
     SkipProofOfWorkCheck = False, TargetSpacing = 60, LAST_POW_BLOCK = 100\<rparr>"

lemma example_params_limit: "length (ProofOfWorkLimit example_params) = 8"
  by (simp add: example_params_def)

theorem check_proof_of_work_iff_witness:
  "CheckProofOfWork example_params 5 0x1e0fffff \<longleftrightarrow> SkipProofOfWorkCheck example_params \<or>
    (0 < target 0x1e0fffff \<and> \<not> bit (0x1e0fffff :: uint32) 23 \<and>
     target 0x1e0fffff \<le> big (ProofOfWorkLimit example_params) \<and> unat (5 :: uint256) \<le> target 0x1e0fffff)"
  by (rule check_proof_of_work_iff [OF example_params_limit])

text \<open>
  C27: \<open>GetBlockProof\<close> never divides by zero and returns the expected number of hashes
  \<open>2 ^ 256 div (target + 1)\<close>, computed without leaving 256 bits; words that stand for no valid target count 0.
\<close>

theorem block_proof_value:
  "\<exists>w. GetBlockProof nBits = Ok w \<and> length w = 8 \<and>
    big w = (if target nBits = 0 \<or> bit nBits 23 \<or> 2 ^ 256 \<le> target nBits then 0 else 2 ^ 256 div (target nBits + 1))"
proof -
  obtain t neg ovf where t: "SetCompact nBits = (t, neg, ovf)" "length t = 8" "big t = target nBits mod 2 ^ 256"
    "neg \<longleftrightarrow> target nBits \<noteq> 0 \<and> bit nBits 23" "ovf \<longleftrightarrow> 2 ^ 256 \<le> target nBits" by (rule SetCompact_target)
  show ?thesis
  proof (cases "target nBits = 0 \<or> bit nBits 23 \<or> 2 ^ 256 \<le> target nBits")
    case True
    then have "neg \<or> ovf \<or> EqualTo t 0" using t by (auto simp: EqualTo_iff)
    then show ?thesis using True t(1) by (intro exI [of _ "arith256 0"]) (auto simp: GetBlockProof_def)
  next
    case False
    define n where "n = target nBits"
    have n: "0 < n" "n + 1 < 2 ^ 256" "big t = n"
      using False target_plus_1 [of nBits] t(3) by (simp_all add: n_def not_le)
    have "big (bu_add t (arith256 1)) = n + 1" using t(2) n by (simp add: big_add)
    then obtain q where q: "bu_div (bu_not t) (bu_add t (arith256 1)) = Ok q" "length q = 8"
        "big q = (2 ^ 256 - 1 - n) div (n + 1)"
      using bu_div_quotient [of "bu_not t" "bu_add t (arith256 1)"] t(2) n(3) by (auto simp: big_not)
    have "(2 ^ 256 - 1 - n) div (n + 1) + 1 = 2 ^ 256 div (n + 1)"
      using n(2) div_add_self2 [of "n + 1" "2 ^ 256 - (n + 1)"] by simp
    moreover have "2 ^ 256 div (n + 1) < 2 ^ 256" using n(1) by (intro div_less_dividend) auto
    ultimately have "big (bu_add q (arith256 1)) = 2 ^ 256 div (n + 1)" using q by (simp add: big_add)
    moreover have "\<not> neg" "\<not> ovf" "\<not> EqualTo t 0" using False t n by (auto simp: EqualTo_iff)
    ultimately show ?thesis using q t(1) False
      by (intro exI [of _ "bu_add q (arith256 1)"]) (simp add: GetBlockProof_def n_def)
  qed
qed

text \<open>
  C29: a proof-of-stake block has no trust. The dividend \<open>arith_uint256(1) << 256\<close> of \<open>GetBlockTrust\<close> is 0,
  because the shift leaves the 256 bits, so the score is 0 for every target.
\<close>

theorem stake_trust_is_zero:
  assumes "IsProofOfStake b"
  shows "\<exists>w. GetBlockTrust b = Ok w \<and> big w = 0"
proof -
  let ?t = "fst (SetCompact (idxBits b))"
  show ?thesis
  proof (cases "CompareTo ?t (arith256 0) \<le> 0")
    case True
    then show ?thesis by (simp add: GetBlockTrust_def Let_def)
  next
    case False
    have len: "length ?t = 8" by (rule SetCompact_length)
    obtain t neg ovf where "SetCompact (idxBits b) = (t, neg, ovf)" "big t = target (idxBits b) mod 2 ^ 256"
      using SetCompact_target [of "idxBits b"] by metis
    then have "big ?t + 1 < 2 ^ 256" using target_plus_1 [of "idxBits b"] by simp
    then have "big (bu_add ?t (arith256 1)) = big ?t + 1" using len by (simp add: big_add)
    moreover have "big (bu_shl (arith256 1) 256) = 0" by (simp add: big_shl take_bit_push_bit)
    ultimately obtain q where "bu_div (bu_shl (arith256 1) 256) (bu_add ?t (arith256 1)) = Ok q" "big q = 0"
      using bu_div_quotient [of "bu_shl (arith256 1) 256" "bu_add ?t (arith256 1)"] len by auto
    then show ?thesis using False assms by (simp add: GetBlockTrust_def Let_def)
  qed
qed

theorem stake_trust_is_zero_witness:
  "\<exists>w. GetBlockTrust ((entry None 0)\<lparr>nFlags := 1, idxBits := 0x1e0fffff\<rparr>) = Ok w \<and> big w = 0"
  by (rule stake_trust_is_zero) (simp add: IsProofOfStake_def BLOCK_PROOF_OF_STAKE_def)

section \<open>The next target\<close>

lemma GetCompact_below:
  assumes "length a = 8" "big a \<le> n"
  shows "\<exists>c t. GetCompact a False = Ok c \<and> SetCompact c = (t, False, False) \<and> big t \<le> n"
  using GetCompact_SetCompact [OF assms(1), of False] assms(2) le_trans by fastforce

lemma unat_of_int64: "0 \<le> x \<Longrightarrow> x < 2 ^ 64 \<Longrightarrow> unat (of_int x :: uint64) = nat x"
  by (simp add: unsigned_of_int take_bit_int_eq_self unat_eq_nat_uint)

lemma bu_div_ok:
  assumes "length a = 8" "0 < x" "x < 2 ^ 64"
  obtains q where "bu_div a (arith256 (of_int x)) = Ok q" "length q = 8"
  using bu_div_quotient [of a "arith256 (of_int x)"] assms by (auto simp: unat_of_int64)

lemma gravity_step_ok:
  assumes "length (PastDifficultyAveragePrev g) = 8" "0 \<le> CountBlocks g" "CountBlocks g < 24"
  obtains g' where "gravity_step g b = Ok g'" "CountBlocks g' = CountBlocks g + 1"
    "length (PastDifficultyAverage g') = 8" "length (PastDifficultyAveragePrev g') = 8"
proof -
  let ?m = "bu_add (bu_mul32 (PastDifficultyAveragePrev g) (of_int (CountBlocks g + 1))) (fst (SetCompact (idxBits b)))"
  have "length ?m = 8" using assms(1) SetCompact_length by simp
  moreover have "0 < CountBlocks g + 2" "CountBlocks g + 2 < 2 ^ 64" using assms(2,3) by simp_all
  ultimately obtain q where "bu_div ?m (arith256 (of_int (CountBlocks g + 2))) = Ok q" "length q = 8"
    by (rule bu_div_ok)
  then have "\<exists>a. gravity_average (g\<lparr>CountBlocks := CountBlocks g + 1\<rparr>) b = Ok a \<and> length a = 8"
    using SetCompact_length by (simp add: gravity_average_def add.commute)
  then obtain a where "gravity_average (g\<lparr>CountBlocks := CountBlocks g + 1\<rparr>) b = Ok a" "length a = 8" by blast
  then show ?thesis using that assms(3) by (auto simp: gravity_step_def Let_def split: if_splits)
qed

lemma gravity_loop_ok:
  assumes "wf_store st" "st a = Some b" "int n \<le> nHeight b" "length (PastDifficultyAverage g) = 8"
    "length (PastDifficultyAveragePrev g) = 8" "0 \<le> CountBlocks g" "CountBlocks g + int n \<le> 24"
  obtains g' where "gravity_loop st n (Some a) g = Ok g'" "CountBlocks g' = CountBlocks g + int n"
    "length (PastDifficultyAverage g') = 8"
proof -
  have "\<exists>g'. gravity_loop st n (Some a) g = Ok g' \<and> CountBlocks g' = CountBlocks g + int n \<and>
      length (PastDifficultyAverage g') = 8"
    using assms(2-)
  proof (induction n arbitrary: a b g)
    case 0
    then show ?case by (simp add: deref_def)
  next
    case (Suc n)
    then have pos: "0 < nHeight b" by simp
    then obtain p q where p: "pprev b = Some p" "st p = Some q" "nHeight q = nHeight b - 1"
      by (rule wf_prev [OF assms(1) Suc.prems(1)])
    obtain g' where g: "gravity_step g b = Ok g'" "CountBlocks g' = CountBlocks g + 1"
        "length (PastDifficultyAverage g') = 8" "length (PastDifficultyAveragePrev g') = 8"
      using Suc.prems by (auto intro: gravity_step_ok [of g b])
    have "\<exists>g''. gravity_loop st n (Some p) g' = Ok g'' \<and> CountBlocks g'' = CountBlocks g' + int n \<and>
        length (PastDifficultyAverage g'') = 8"
      using Suc.prems p g by (intro Suc.IH) auto
    then show ?case using Suc.prems(1) pos p(1) g(1,2) by (auto simp: deref_def)
  qed
  with that show ?thesis by blast
qed

lemma clamp_ok:
  assumes "length q = 8" "length l = 8"
  shows "\<exists>c t. GetCompact (if P \<or> CompareTo q l > 0 then l else q) False = Ok c \<and>
    SetCompact c = (t, False, False) \<and> big t \<le> big l"
  using assms by (intro GetCompact_below) (auto simp: CompareTo_sound split: if_splits)

lemma stake_target_ok:
  assumes "wf_store st" "st a = Some b"
  shows "\<exists>c t. stake_target st b = Ok c \<and> SetCompact c = (t, False, False) \<and> big t \<le> 2 ^ 232 - 1"
proof -
  let ?limit = "bu_shr (bu_not (arith256 0)) 24"
  have limit: "length ?limit = 8" "big ?limit = 2 ^ 232 - 1"
    by (simp_all add: big_shr big_not drop_bit_eq_div)
  have "\<exists>sp. (if nHeight b \<noteq> 0 then bindO (deref st (pprev b)) (\<lambda>p. Ok (GetBlockTime b - GetBlockTime p))
      else Ok 0) = (Ok sp :: (unit, int) outcome)"
  proof (cases "nHeight b = 0")
    case False
    then have "0 < nHeight b" using assms by (simp add: wf_store_def less_le)
    then obtain p q where "pprev b = Some p" "st p = Some q" by (rule wf_prev [OF assms])
    then show ?thesis by (simp add: deref_def)
  qed simp
  then obtain sp where sp: "(if nHeight b \<noteq> 0 then bindO (deref st (pprev b)) (\<lambda>p. Ok (GetBlockTime b - GetBlockTime p))
      else Ok 0) = (Ok sp :: (unit, int) outcome)" by blast
  define x where "x = (if sp < 0 then 1 else sp)"
  have m: "length (bu_mul32 (fst (SetCompact (idxBits b))) (of_int (2340 + x + x))) = 8"
    by (simp add: SetCompact_length)
  obtain q where q: "bu_div (bu_mul32 (fst (SetCompact (idxBits b))) (of_int (2340 + x + x)))
      (arith256 (of_int 2460)) = Ok q" "length q = 8" by (rule bu_div_ok [OF m, of 2460]) simp_all
  have "(60 * 40) sdiv (60 :: int) = 40" by (simp add: signed_divide_int_def)
  then have "stake_target st b = GetCompact
      (if CompareTo q (arith256 0) \<le> 0 \<or> CompareTo q ?limit > 0 then ?limit else q) False"
    unfolding stake_target_def sp Let_def using q(1) by (simp flip: x_def)
  then show ?thesis using clamp_ok [OF q(2) limit(1)] limit(2) by simp
qed

lemma work_target_ok:
  assumes "wf_store st" "st a = Some b" "24 \<le> nHeight b" "length (ProofOfWorkLimit P) = 8"
    and "0 < TargetSpacing P" "TargetSpacing P < 2 ^ 32"
  shows "\<exists>c t. work_target P st a = Ok c \<and> SetCompact c = (t, False, False) \<and> big t \<le> big (ProofOfWorkLimit P)"
proof -
  obtain g where g: "gravity_loop st 24 (Some a) \<lparr>CountBlocks = 0, PastDifficultyAverage = bu_zero 8,
      PastDifficultyAveragePrev = bu_zero 8, nActualTimespan = 0, LastBlockTime = 0\<rparr> = Ok g"
      "CountBlocks g = 24" "length (PastDifficultyAverage g) = 8"
    using gravity_loop_ok [OF assms(1,2), of 24 "\<lparr>CountBlocks = 0, PastDifficultyAverage = bu_zero 8,
      PastDifficultyAveragePrev = bu_zero 8, nActualTimespan = 0, LastBlockTime = 0\<rparr>"] assms(3) by auto
  define T where "T = 24 * TargetSpacing P"
  define t where "t = (let t = nActualTimespan g; t = (if t < T sdiv 3 then T sdiv 3 else t)
      in if t > T * 3 then T * 3 else t)"
  have m: "length (bu_mul32 (PastDifficultyAverage g) (of_int t)) = 8" using g(3) by simp
  have T: "0 < T" "T < 2 ^ 64" using assms(5,6) by (simp_all add: T_def)
  obtain q where q: "bu_div (bu_mul32 (PastDifficultyAverage g) (of_int t)) (arith256 (of_int T)) = Ok q"
      "length q = 8" by (rule bu_div_ok [OF m T])
  have "work_target P st a = GetCompact
      (if False \<or> CompareTo q (ProofOfWorkLimit P) > 0 then ProofOfWorkLimit P else q) False"
    unfolding work_target_def g(1) by (simp only: bindO.simps Let_def g(2) q(1) HOL.simp_thms
        flip: T_def t_def [unfolded Let_def])
  then show ?thesis using clamp_ok [OF q(2) assms(4), of False] by simp
qed

text \<open>
  C28: for a block in a well-formed index, \<open>GetNextWorkRequired\<close> neither divides by zero nor fails an
  assertion, and the word it returns decodes without sign or overflow to a target within the limit: the
  proof-of-work limit, or \<open>2 ^ 232 - 1\<close> after the last proof-of-work block. For a null
  pointer it is undefined: the pointer is followed before it is compared with null.
\<close>

theorem next_work_bounded:
  assumes "wf_store st" "st a = Some b" "length (ProofOfWorkLimit P) = 8"
    and "0 < TargetSpacing P" "TargetSpacing P < 2 ^ 32"
  shows "(\<exists>c t. GetNextWorkRequired P st (Some a) = Ok c \<and> SetCompact c = (t, False, False) \<and>
      big t \<le> (if 24 \<le> nHeight b \<and> LAST_POW_BLOCK P < nHeight b then 2 ^ 232 - 1 else big (ProofOfWorkLimit P))) \<and>
    GetNextWorkRequired P st None = Abort"
proof -
  have d: "deref st (Some a) = Ok b" using assms(2) by (simp add: deref_def)
  have "\<exists>c t. GetNextWorkRequired P st (Some a) = Ok c \<and> SetCompact c = (t, False, False) \<and>
      big t \<le> (if 24 \<le> nHeight b \<and> LAST_POW_BLOCK P < nHeight b then 2 ^ 232 - 1 else big (ProofOfWorkLimit P))"
    using GetCompact_below [OF assms(3) order_refl] stake_target_ok [OF assms(1,2)]
      work_target_ok [OF assms(1,2) _ assms(3-5)]
    unfolding GetNextWorkRequired_def d by auto
  then show ?thesis by (simp add: GetNextWorkRequired_def deref_def)
qed

theorem next_work_bounded_witness:
  "(\<exists>c t. GetNextWorkRequired example_params two_blocks (Some 1) = Ok c \<and> SetCompact c = (t, False, False) \<and>
      big t \<le> (if 24 \<le> nHeight (entry (Some 0) 1) \<and> LAST_POW_BLOCK example_params < nHeight (entry (Some 0) 1)
        then 2 ^ 232 - 1 else big (ProofOfWorkLimit example_params))) \<and>
    GetNextWorkRequired example_params two_blocks None = Abort"
  by (rule next_work_bounded [OF two_blocks_wf _ example_params_limit])
    (simp_all add: two_blocks_def example_params_def)

end
