(* ===== verification/MerkleTree.thy ===== *)
theory MerkleTree
  imports Transaction
begin

text \<open>
  Merkle trees: the tree in memory of \<open>src/src/primitives/block.cpp\<close> and the constant-space computation of
  \<open>src/src/consensus/merkle.cpp\<close>, both compared with the definition by rows. The 32-bit counters of the
  latter keep their width; a shift by 32 or more, or an index outside \<open>inner\<close>, is \<open>Abort\<close>.
\<close>

section \<open>The tree in memory\<close>

text \<open>\<open>Hash\<close> over two ranges, and the hasher object of \<open>merkle.cpp\<close>.\<close>

definition hash_pair :: "uint256 \<Rightarrow> uint256 \<Rightarrow> uint256" where
  "hash_pair l r = uint256_of_bytes (Hash uninit [Serialize_word l, Serialize_word r])"

definition chash_pair :: "uint256 \<Rightarrow> uint256 \<Rightarrow> uint256" where
  "chash_pair l r = uint256_of_bytes (fst (CHash256_Finalize
     (CHash256_Write (CHash256_Write (CSHA256 uninit) (Serialize_word l)) (Serialize_word r))))"

lemma chash_pair_eq: "chash_pair = hash_pair"
  by (rule ext, rule ext) (simp add: chash_pair_def hash_pair_def Hash_def)

text \<open>
  The counters \<open>i\<close>, \<open>i2\<close>, \<open>j\<close> and \<open>nSize\<close> of the loops below are of type \<open>int\<close> in the source and natural numbers
  here. They are positions in the tree or its size, which \<open>tree_counters_fit\<close> bounds: up to \<open>2 ^ 29\<close>
  transactions, far more than a block can hold, no counter leaves the range of \<open>int\<close>.
\<close>

text \<open>One round of the inner loop, for \<open>i = 2 * k\<close>; the row of \<open>nSize\<close> nodes starts at \<open>j\<close>.\<close>

definition tree_node :: "nat \<Rightarrow> nat \<Rightarrow> uint256 list \<times> bool \<Rightarrow> nat \<Rightarrow> uint256 list \<times> bool" where
  "tree_node j nSize vm k =
     (let (v, mutated) = vm; i = 2 * k; i2 = min (i + 1) (nSize - 1);
          mutated = (if i2 = i + 1 \<and> i2 + 1 = nSize \<and> v ! (j + i) = v ! (j + i2) then True else mutated)
      in (v @ [hash_pair (v ! (j + i)) (v ! (j + i2))], mutated))"

function tree_rows :: "uint256 list \<times> bool \<Rightarrow> nat \<Rightarrow> nat \<Rightarrow> uint256 list \<times> bool" where
  "tree_rows vm j nSize =
     (if nSize > 1 then tree_rows (foldl (tree_node j nSize) vm [0..<(nSize + 1) div 2]) (j + nSize) ((nSize + 1) div 2)
      else vm)"
  by pat_completeness auto
termination
  by (relation "measure (\<lambda>(vm, j, nSize). nSize)") auto

declare tree_rows.simps [simp del]

text \<open>The root, the flag and \<open>vMerkleTree\<close>, for the transaction ids of the block.\<close>

definition BuildMerkleTree :: "uint256 list \<Rightarrow> uint256 \<times> bool \<times> uint256 list" where
  "BuildMerkleTree txids =
     (let (v, mutated) = tree_rows (txids, False) 0 (length txids)
      in ((if v = [] then 0 else last v), mutated, v))"

function branch_rows :: "uint256 list \<Rightarrow> nat \<Rightarrow> nat \<Rightarrow> int \<Rightarrow> (unit, uint256 list) outcome" where
  "branch_rows v j nSize nIndex =
     (if nSize > 1
      then let i = min (nIndex XOR 1) (int nSize - 1) in
           if int j + i < 0 \<or> int j + i \<ge> int (length v) then Abort
           else bindO (branch_rows v (j + nSize) ((nSize + 1) div 2) (drop_bit 1 nIndex)) (\<lambda>b.
                  Ok (v ! nat (int j + i) # b))
      else Ok [])"
  by pat_completeness auto
termination
  by (relation "measure (\<lambda>(v, j, nSize, nIndex). nSize)") auto

declare branch_rows.simps [simp del]

definition GetMerkleBranch :: "uint256 list \<Rightarrow> uint256 list \<Rightarrow> int \<Rightarrow> (unit, uint256 list) outcome" where
  "GetMerkleBranch txids vMerkleTree nIndex =
     (let v = (if vMerkleTree = [] then snd (snd (BuildMerkleTree txids)) else vMerkleTree)
      in branch_rows v 0 (length txids) nIndex)"

fun fold_branch :: "uint256 \<Rightarrow> uint256 list \<Rightarrow> int \<Rightarrow> uint256" where
  "fold_branch h [] nIndex = h"
| "fold_branch h (b # bs) nIndex =
     fold_branch (if nIndex AND 1 \<noteq> 0 then hash_pair b h else hash_pair h b) bs (drop_bit 1 nIndex)"

definition CheckMerkleBranch :: "uint256 \<Rightarrow> uint256 list \<Rightarrow> int \<Rightarrow> uint256" where
  "CheckMerkleBranch h vMerkleBranch nIndex = (if nIndex = -1 then 0 else fold_branch h vMerkleBranch nIndex)"

section \<open>The constant-space computation\<close>

record merkle_state =
  mutated :: bool
  inner :: "uint256 list"
  matchlevel :: int
  branch :: "uint256 list"

text \<open>
  What both climbing loops do to the branch at a level: the sibling of the tracked node is pushed. The
  argument \<open>pbranch\<close> says whether a branch was asked for.
\<close>

definition push_sibling :: "bool \<Rightarrow> merkle_state \<Rightarrow> nat \<Rightarrow> uint256 \<Rightarrow> bool \<Rightarrow> merkle_state \<times> bool" where
  "push_sibling pbranch s level h matchh =
     (if pbranch then
        if matchh then (s\<lparr>branch := branch s @ [inner s ! level]\<rparr>, matchh)
        else if matchlevel s = int level then (s\<lparr>branch := branch s @ [h]\<rparr>, True)
        else (s, matchh)
      else (s, matchh))"

function leaf_loop ::
    "bool \<Rightarrow> uint32 \<Rightarrow> merkle_state \<Rightarrow> nat \<Rightarrow> uint256 \<Rightarrow> bool \<Rightarrow> (unit, merkle_state \<times> nat \<times> uint256 \<times> bool) outcome" where
  "leaf_loop pbranch count s level h matchh =
     (if level \<ge> 32 then Abort
      else if count AND push_bit level 1 = 0
      then let (s, matchh) = push_sibling pbranch s level h matchh;
               s = s\<lparr>mutated := (mutated s \<or> inner s ! level = h)\<rparr>
           in leaf_loop pbranch count s (level + 1) (chash_pair (inner s ! level) h) matchh
      else Ok (s, level, h, matchh))"
  by pat_completeness auto
termination
  by (relation "measure (\<lambda>(pbranch, count, s, level, h, matchh). 32 - level)") auto

declare leaf_loop.simps [simp del]

text \<open>The body of the loop over the leaves, and the loop.\<close>

definition process_leaf :: "bool \<Rightarrow> uint32 \<Rightarrow> uint32 \<Rightarrow> merkle_state \<Rightarrow> uint256 \<Rightarrow> (unit, merkle_state) outcome" where
  "process_leaf pbranch branchpos count s h =
     (let matchh = (count = branchpos); count = count + 1 in
      bindO (leaf_loop pbranch count s 0 h matchh) (\<lambda>(s, level, h, matchh).
      let s = s\<lparr>inner := (inner s)[level := h]\<rparr>
      in Ok (if matchh then s\<lparr>matchlevel := int level\<rparr> else s)))"

fun process_leaves :: "bool \<Rightarrow> uint32 \<Rightarrow> uint32 \<Rightarrow> merkle_state \<Rightarrow> uint256 list \<Rightarrow> (unit, merkle_state) outcome" where
  "process_leaves pbranch branchpos count s [] = Ok s"
| "process_leaves pbranch branchpos count s (x # xs) =
     bindO (process_leaf pbranch branchpos count s x) (\<lambda>s. process_leaves pbranch branchpos (count + 1) s xs)"

function lowest_level :: "uint32 \<Rightarrow> nat \<Rightarrow> (unit, nat) outcome" where
  "lowest_level count level =
     (if level \<ge> 32 then Abort
      else if count AND push_bit level 1 = 0 then lowest_level count (level + 1) else Ok level)"
  by pat_completeness auto
termination
  by (relation "measure (\<lambda>(count, level). 32 - level)") auto

declare lowest_level.simps [simp del]

function climb_loop ::
    "bool \<Rightarrow> uint32 \<Rightarrow> merkle_state \<Rightarrow> nat \<Rightarrow> uint256 \<Rightarrow> bool \<Rightarrow> (unit, merkle_state \<times> nat \<times> uint256 \<times> bool) outcome" where
  "climb_loop pbranch count s level h matchh =
     (if level \<ge> 32 then Abort
      else if count AND push_bit level 1 = 0
      then let (s, matchh) = push_sibling pbranch s level h matchh
           in climb_loop pbranch count s (level + 1) (chash_pair (inner s ! level) h) matchh
      else Ok (s, level, h, matchh))"
  by pat_completeness auto
termination
  by (relation "measure (\<lambda>(pbranch, count, s, level, h, matchh). 32 - level)") auto

declare climb_loop.simps [simp del]

lemma climb_loop_level: "climb_loop pbranch count s level h matchh = Ok (s', level', h', m') \<Longrightarrow> level \<le> level'"
proof (induction pbranch count s level h matchh rule: climb_loop.induct)
  case (1 pbranch count s level h matchh)
  then show ?case
    by (subst (asm) (2) climb_loop.simps) (fastforce simp: Let_def split: if_splits prod.splits)
qed

text \<open>The sweep over the right border, from a node \<open>h\<close> at \<open>level\<close>.\<close>

function sweep :: "bool \<Rightarrow> uint32 \<Rightarrow> merkle_state \<Rightarrow> nat \<Rightarrow> uint256 \<Rightarrow> bool \<Rightarrow> (unit, merkle_state \<times> uint256) outcome" where
  "sweep pbranch count s level h matchh =
     (if level \<ge> 32 then Abort
      else if count \<noteq> push_bit level 1
      then let s = (if pbranch \<and> matchh then s\<lparr>branch := branch s @ [h]\<rparr> else s);
               h = chash_pair h h;
               count = count + push_bit level 1
           in (case climb_loop pbranch count s (level + 1) h matchh of
                 Ok (s, level, h, matchh) \<Rightarrow> sweep pbranch count s level h matchh
               | _ \<Rightarrow> Abort)
      else Ok (s, h))"
  by pat_completeness auto
termination
  by (relation "measure (\<lambda>(pbranch, count, s, level, h, matchh). 32 - level)") (auto dest: climb_loop_level)

declare sweep.simps [simp del]

text \<open>The root, the flag and the branch.\<close>

definition MerkleComputation ::
    "bool \<Rightarrow> uint256 list \<Rightarrow> uint32 \<Rightarrow> (unit, uint256 \<times> bool \<times> uint256 list) outcome" where
  "MerkleComputation pbranch leaves branchpos =
     (if length leaves = 0 then Ok (0, False, [])
      else bindO (process_leaves pbranch branchpos 0
              \<lparr>mutated = False, inner = replicate 32 0, matchlevel = -1, branch = []\<rparr> leaves) (\<lambda>s.
           let count = of_nat (length leaves) in
           bindO (lowest_level count 0) (\<lambda>level.
           let h = inner s ! level; matchh = (matchlevel s = int level) in
           bindO (sweep pbranch count s level h matchh) (\<lambda>(s, h).
           Ok (h, mutated s, branch s)))))"

definition ComputeMerkleRoot :: "uint256 list \<Rightarrow> (unit, uint256 \<times> bool) outcome" where
  "ComputeMerkleRoot leaves =
     bindO (MerkleComputation False leaves (-1)) (\<lambda>(root, mut, br). Ok (root, mut))"

definition ComputeMerkleBranch :: "uint256 list \<Rightarrow> uint32 \<Rightarrow> (unit, uint256 list) outcome" where
  "ComputeMerkleBranch leaves position =
     bindO (MerkleComputation True leaves position) (\<lambda>(root, mut, br). Ok br)"

fun ComputeMerkleRootFromBranch :: "uint256 \<Rightarrow> uint256 list \<Rightarrow> uint32 \<Rightarrow> uint256" where
  "ComputeMerkleRootFromBranch h [] nIndex = h"
| "ComputeMerkleRootFromBranch h (b # bs) nIndex =
     ComputeMerkleRootFromBranch (if nIndex AND 1 \<noteq> 0 then hash_pair b h else hash_pair h b) bs (drop_bit 1 nIndex)"

section \<open>The tree by rows\<close>

fun level :: "uint256 list \<Rightarrow> uint256 list" where
  "level (x # y # xs) = hash_pair x y # level xs"
| "level [x] = [hash_pair x x]"
| "level [] = []"

lemma length_level [simp]: "length (level xs) = (length xs + 1) div 2"
  by (induction xs rule: level.induct) auto

function merkle_root :: "uint256 list \<Rightarrow> uint256" where
  "merkle_root xs = (if xs = [] then 0 else if length xs = 1 then hd xs else merkle_root (level xs))"
  by pat_completeness auto
termination
  by (relation "measure length") (auto simp: neq_Nil_conv)

declare merkle_root.simps [simp del]

lemma nth_level:
  "k < (length xs + 1) div 2 \<Longrightarrow> level xs ! k = hash_pair (xs ! (2 * k)) (xs ! min (2 * k + 1) (length xs - 1))"
proof (induction xs arbitrary: k rule: level.induct)
  case (1 x y xs)
  then show ?case by (cases k) (auto simp: min_def nth_Cons' split: if_splits)
qed auto

text \<open>All rows, one after the other.\<close>

function rows :: "uint256 list \<Rightarrow> uint256 list" where
  "rows xs = (if length xs > 1 then xs @ rows (level xs) else xs)"
  by pat_completeness auto
termination
  by (relation "measure length") auto

declare rows.simps [simp del]

lemma tree_counters_fit: "length txids \<le> 2 ^ 29 \<Longrightarrow> int (length (rows txids)) \<le> int32_max"
proof -
  have "length (rows xs) \<le> 3 * length xs" for xs
  proof (induction xs rule: rows.induct)
    case (1 xs)
    show ?case
    proof (cases "length xs > 1")
      case True
      then have "length (rows (level xs)) \<le> 3 * ((length xs + 1) div 2)" using 1 by simp
      moreover have "length xs = 2 \<Longrightarrow> length (rows (level xs)) = 1" by (subst rows.simps) simp
      moreover have "length (rows xs) = length xs + length (rows (level xs))" using True by (simp add: rows.simps [of xs])
      ultimately show ?thesis using True by (cases "length xs = 2") linarith+
    qed (simp add: rows.simps)
  qed
  from this [of txids] show "length txids \<le> 2 ^ 29 \<Longrightarrow> int (length (rows txids)) \<le> int32_max"
    by (simp add: int32_max_def)
qed

lemma last_rows: "xs \<noteq> [] \<Longrightarrow> last (rows xs) = merkle_root xs"
proof (induction xs rule: rows.induct)
  case (1 xs)
  show ?case
  proof (cases "length xs > 1")
    case True
    then have ne: "level xs \<noteq> []" by (cases xs rule: level.cases) auto
    then have "rows (level xs) \<noteq> []" by (subst rows.simps) auto
    with 1 True ne show ?thesis by (simp add: rows.simps [of xs] merkle_root.simps [of xs])
  next
    case False
    with "1.prems" show ?thesis by (cases xs) (simp_all add: rows.simps merkle_root.simps)
  qed
qed

lemma tree_row:
  assumes "m \<le> (length cur + 1) div 2"
  shows "fst (foldl (tree_node (length prev) (length cur)) (prev @ cur, mu) [0..<m]) = prev @ cur @ take m (level cur)"
  using assms
proof (induction m)
  case (Suc m)
  obtain v mu' where f: "foldl (tree_node (length prev) (length cur)) (prev @ cur, mu) [0..<m] = (v, mu')"
    by (metis prod.exhaust)
  have v: "v = prev @ cur @ take m (level cur)" using Suc f by simp
  have m: "m < (length cur + 1) div 2" "2 * m < length cur" using Suc.prems by linarith+
  have nth: "v ! (length prev + i) = cur ! i" if "i < length cur" for i
    using that by (simp add: v nth_append)
  have "fst (foldl (tree_node (length prev) (length cur)) (prev @ cur, mu) [0..<Suc m]) =
      v @ [hash_pair (cur ! (2 * m)) (cur ! min (2 * m + 1) (length cur - 1))]"
    using f m nth [of "2 * m"] nth [of "min (2 * m + 1) (length cur - 1)"] by (simp add: tree_node_def Let_def)
  also have "\<dots> = prev @ cur @ take (Suc m) (level cur)"
    using m(1) nth_level [of m cur] by (simp add: v take_Suc_conv_app_nth)
  finally show ?case .
qed simp

lemma tree_rows_rows: "fst (tree_rows (prev @ cur, mu) (length prev) (length cur)) = prev @ rows cur"
proof (induction cur arbitrary: prev mu rule: rows.induct)
  case (1 cur)
  show ?case
  proof (cases "length cur > 1")
    case True
    obtain v mu' where f: "foldl (tree_node (length prev) (length cur)) (prev @ cur, mu) [0..<(length cur + 1) div 2] = (v, mu')"
      by (metis prod.exhaust)
    have "v = (prev @ cur) @ level cur"
      using tree_row [of "(length cur + 1) div 2" cur prev mu] f by simp
    with True f "1.IH" [of "prev @ cur" mu'] show ?thesis
      by (subst tree_rows.simps, subst rows.simps) simp
  qed (simp add: tree_rows.simps rows.simps)
qed

lemma BuildMerkleTree_rows: "BuildMerkleTree txids = (merkle_root txids, fst (snd (BuildMerkleTree txids)), rows txids)"
proof -
  have "rows txids = [] \<longleftrightarrow> txids = []" by (subst rows.simps) auto
  then show ?thesis using tree_rows_rows [of "[]" txids False] last_rows [of txids]
    by (auto simp: BuildMerkleTree_def Let_def merkle_root.simps [of "[]"] split: prod.splits)
qed

section \<open>Branches\<close>

definition sibling :: "nat \<Rightarrow> nat" where
  "sibling i = (if even i then i + 1 else i - 1)"

function merkle_branch :: "uint256 list \<Rightarrow> nat \<Rightarrow> uint256 list" where
  "merkle_branch xs i =
     (if length xs > 1 then xs ! min (sibling i) (length xs - 1) # merkle_branch (level xs) (i div 2) else [])"
  by pat_completeness auto
termination
  by (relation "measure (\<lambda>(xs, i). length xs)") auto

declare merkle_branch.simps [simp del]

lemma int_sibling: "int i XOR 1 = int (sibling i)"
  by (simp add: xor_one_eq sibling_def of_nat_diff odd_pos Suc_leI)

lemma branch_rows_branch:
  "i < length cur \<Longrightarrow> branch_rows (prev @ rows cur) (length prev) (length cur) (int i) = Ok (merkle_branch cur i)"
proof (induction cur arbitrary: prev i rule: rows.induct)
  case (1 cur)
  show ?case
  proof (cases "length cur > 1")
    case True
    have r: "rows cur = cur @ rows (level cur)" using True by (simp add: rows.simps [of cur])
    define k where "k = min (sibling i) (length cur - 1)"
    have k: "k < length cur" using True by (simp add: k_def)
    have e: "int (length prev) + min (int i XOR 1) (int (length cur) - 1) = int (length prev + k)"
      using True unfolding int_sibling k_def by linarith
    have "branch_rows ((prev @ cur) @ rows (level cur)) (length (prev @ cur)) (length (level cur)) (int (i div 2)) =
        Ok (merkle_branch (level cur) (i div 2))"
      using "1.prems" by (intro "1.IH" [OF True]) auto
    then have rest: "branch_rows (prev @ rows cur) (length prev + length cur) ((length cur + 1) div 2) (drop_bit 1 (int i)) =
        Ok (merkle_branch (level cur) (i div 2))" by (simp add: r drop_bit_eq_div zdiv_int)
    have "(prev @ rows cur) ! (length prev + k) = cur ! k" using k by (simp add: r nth_append)
    moreover have "length prev + k < length (prev @ rows cur)" using k by (simp add: r)
    moreover have "merkle_branch cur i = cur ! k # merkle_branch (level cur) (i div 2)"
      using True by (simp add: merkle_branch.simps [of cur] k_def)
    ultimately show ?thesis using True rest
      by (subst branch_rows.simps) (simp add: Let_def e nat_int [of "length prev + k"] del: of_nat_add)
  qed (simp add: branch_rows.simps merkle_branch.simps)
qed

lemma fold_branch_root:
  "i < length xs \<Longrightarrow> fold_branch (xs ! i) (merkle_branch xs i) (int i) = merkle_root xs"
proof (induction xs i rule: merkle_branch.induct)
  case (1 xs i)
  show ?case
  proof (cases "length xs > 1")
    case True
    let ?s = "xs ! min (sibling i) (length xs - 1)"
    have i: "i div 2 < (length xs + 1) div 2" using "1.prems" by linarith
    have "(if odd i then hash_pair ?s (xs ! i) else hash_pair (xs ! i) ?s) = level xs ! (i div 2)"
    proof (cases "odd i")
      case True
      then obtain k where "i = 2 * k + 1" by (rule oddE)
      moreover from this "1.prems" have "min (2 * k) (length xs - 1) = 2 * k" "min (2 * k + 1) (length xs - 1) = 2 * k + 1"
        by simp_all
      ultimately show ?thesis using nth_level [OF i] by (simp add: sibling_def)
    next
      case False
      then obtain k where "i = 2 * k" by (auto elim: evenE)
      then show ?thesis using i nth_level [OF i] by (simp add: sibling_def)
    qed
    moreover have "int i AND 1 \<noteq> 0 \<longleftrightarrow> odd i" by (simp add: and_one_eq flip: odd_iff_mod_2_eq_one)
    moreover have "fold_branch (level xs ! (i div 2)) (merkle_branch (level xs) (i div 2)) (int (i div 2)) = merkle_root (level xs)"
      using i by (intro "1.IH" [OF True]) simp
    moreover have "xs \<noteq> []" "length xs \<noteq> 1" using True by auto
    ultimately show ?thesis using True
      by (cases "odd i") (simp_all add: merkle_branch.simps [of xs] merkle_root.simps [of xs] drop_bit_eq_div zdiv_int)
  next
    case False
    with "1.prems" show ?thesis by (cases xs) (simp_all add: merkle_branch.simps merkle_root.simps)
  qed
qed

text \<open>
  C34: the tree of a block proves its transactions: \<open>BuildMerkleTree\<close> returns the Merkle root, and for every
  position \<open>GetMerkleBranch\<close> reads inside the tree and returns a branch from which \<open>CheckMerkleBranch\<close>
  computes that root.
\<close>

theorem merkle_branch_proves_transaction:
  assumes "i < length txids"
  shows "case BuildMerkleTree txids of (root, mut, tree) \<Rightarrow> root = merkle_root txids \<and>
    (\<exists>br. GetMerkleBranch txids tree (int i) = Ok br \<and> CheckMerkleBranch (txids ! i) br (int i) = root)"
proof -
  have "branch_rows (rows txids) 0 (length txids) (int i) = Ok (merkle_branch txids i)"
    using branch_rows_branch [OF assms, of "[]"] by simp
  moreover obtain mut where b: "BuildMerkleTree txids = (merkle_root txids, mut, rows txids)"
    using BuildMerkleTree_rows by blast
  ultimately have "GetMerkleBranch txids (rows txids) (int i) = Ok (merkle_branch txids i)"
    by (auto simp: GetMerkleBranch_def)
  moreover have "CheckMerkleBranch (txids ! i) (merkle_branch txids i) (int i) = merkle_root txids"
    using fold_branch_root [OF assms] by (simp add: CheckMerkleBranch_def)
  ultimately show ?thesis unfolding b by simp
qed

theorem merkle_branch_proves_transaction_witness:
  "case BuildMerkleTree [1, 2, 3] of (root, mut, tree) \<Rightarrow> root = merkle_root [1, 2, 3] \<and>
    (\<exists>br. GetMerkleBranch [1, 2, 3] tree (int 2) = Ok br \<and> CheckMerkleBranch ([1, 2, 3] ! 2) br (int 2) = root)"
  by (rule merkle_branch_proves_transaction) simp

section \<open>Duplicated transactions\<close>

text \<open>What makes \<open>BuildMerkleTree\<close> report a mutation: two equal nodes at the end of a row of even length.\<close>

definition end_dup :: "uint256 list \<Rightarrow> bool" where
  "end_dup xs \<longleftrightarrow> even (length xs) \<and> xs \<noteq> [] \<and> xs ! (length xs - 2) = xs ! (length xs - 1)"

function row_dup :: "uint256 list \<Rightarrow> bool" where
  "row_dup xs = (if length xs > 1 then end_dup xs \<or> row_dup (level xs) else False)"
  by pat_completeness auto
termination
  by (relation "measure length") auto

declare row_dup.simps [simp del]

lemma snd_tree_node:
  "snd (tree_node j n (v, mu) k) \<longleftrightarrow>
    mu \<or> (2 * k + 2 = n \<and> v ! (j + 2 * k) = v ! (j + (2 * k + 1)))"
  by (auto simp: tree_node_def Let_def min_def)

lemma tree_row_flag:
  assumes "m \<le> (length cur + 1) div 2"
  shows "snd (foldl (tree_node (length prev) (length cur)) (prev @ cur, mu) [0..<m]) \<longleftrightarrow>
    mu \<or> (end_dup cur \<and> 2 * m \<ge> length cur)"
  using assms
proof (induction m)
  case 0
  then show ?case by (auto simp: end_dup_def)
next
  case (Suc m)
  obtain v mu' where f: "foldl (tree_node (length prev) (length cur)) (prev @ cur, mu) [0..<m] = (v, mu')"
    by (metis prod.exhaust)
  have v: "v = prev @ cur @ take m (level cur)" using tree_row [of m cur prev mu] Suc.prems f by simp
  have m: "2 * m < length cur" using Suc.prems by linarith
  have nth: "v ! (length prev + i) = cur ! i" if "i < length cur" for i
    using that by (simp add: v nth_append)
  have mu': "mu' \<longleftrightarrow> mu" using Suc.IH f m Suc.prems by auto
  have step: "snd (foldl (tree_node (length prev) (length cur)) (prev @ cur, mu) [0..<Suc m]) \<longleftrightarrow>
      mu \<or> (2 * m + 2 = length cur \<and> v ! (length prev + 2 * m) = v ! (length prev + (2 * m + 1)))"
    by (simp add: f snd_tree_node mu')
  show ?case
  proof (cases "2 * m + 2 = length cur")
    case True
    then have "cur \<noteq> []" by auto
    moreover from True have "length cur - 2 = 2 * m" "length cur - 1 = 2 * m + 1" "even (length cur)" by presburger+
    ultimately have "end_dup cur \<longleftrightarrow> cur ! (2 * m) = cur ! (2 * m + 1)" by (simp add: end_dup_def)
    then show ?thesis unfolding step using nth [of "2 * m"] nth [of "2 * m + 1"] True by auto
  next
    case False
    then have "\<not> (end_dup cur \<and> 2 * Suc m \<ge> length cur)" using m by (auto simp: end_dup_def)
    then show ?thesis unfolding step using False by blast
  qed
qed

lemma tree_rows_flag:
  "snd (tree_rows (prev @ cur, mu) (length prev) (length cur)) \<longleftrightarrow> mu \<or> row_dup cur"
proof (induction cur arbitrary: prev mu rule: rows.induct)
  case (1 cur)
  show ?case
  proof (cases "length cur > 1")
    case True
    obtain v mu' where f: "foldl (tree_node (length prev) (length cur)) (prev @ cur, mu) [0..<(length cur + 1) div 2] = (v, mu')"
      by (metis prod.exhaust)
    have "v = (prev @ cur) @ level cur"
      using tree_row [of "(length cur + 1) div 2" cur prev mu] f by simp
    moreover have "mu' \<longleftrightarrow> mu \<or> end_dup cur"
      using tree_row_flag [of "(length cur + 1) div 2" cur prev mu] f by auto
    ultimately show ?thesis using True f "1.IH" [OF True, of "prev @ cur" mu']
      by (subst tree_rows.simps, subst row_dup.simps) auto
  qed (simp add: tree_rows.simps row_dup.simps)
qed

lemma BuildMerkleTree_eq: "BuildMerkleTree txids = (merkle_root txids, row_dup txids, rows txids)"
  using BuildMerkleTree_rows [of txids] tree_rows_flag [of "[]" txids False]
  by (auto simp: BuildMerkleTree_def Let_def split: prod.splits)

text \<open>The pairs of nodes that are hashed, and the number of rows above the leaves.\<close>

function hashed_pairs :: "uint256 list \<Rightarrow> (uint256 \<times> uint256) set" where
  "hashed_pairs xs = (if length xs > 1
     then {(xs ! (2 * k), xs ! min (2 * k + 1) (length xs - 1)) |k. k < (length xs + 1) div 2} \<union> hashed_pairs (level xs)
     else {})"
  by pat_completeness auto
termination
  by (relation "measure length") auto

declare hashed_pairs.simps [simp del]

function tree_height :: "uint256 list \<Rightarrow> nat" where
  "tree_height xs = (if length xs > 1 then Suc (tree_height (level xs)) else 0)"
  by pat_completeness auto
termination
  by (relation "measure length") auto

declare tree_height.simps [simp del]

lemma hashed_pairs_rec: "length xs > 1 \<Longrightarrow> hashed_pairs xs =
    {(xs ! (2 * k), xs ! min (2 * k + 1) (length xs - 1)) |k. k < (length xs + 1) div 2} \<union> hashed_pairs (level xs)"
  by (subst hashed_pairs.simps) simp

lemma tree_height_rec: "length xs > 1 \<Longrightarrow> tree_height xs = Suc (tree_height (level xs))" "length xs \<le> 1 \<Longrightarrow> tree_height xs = 0"
  by (simp_all add: tree_height.simps [of xs])

lemma half_eq: "(u + 1) div 2 = (v + 1) div 2 \<Longrightarrow> u < v \<Longrightarrow> odd u \<and> v = u + (1 :: nat)"
  by presburger

lemma level_inj:
  assumes "level us = level vs" "us \<noteq> []" "length us \<le> length vs" "\<not> end_dup vs"
    and inj: "\<And>i. i < (length us + 1) div 2 \<Longrightarrow> (us ! (2 * i), us ! min (2 * i + 1) (length us - 1)) =
      (vs ! (2 * i), vs ! min (2 * i + 1) (length vs - 1))"
  shows "us = vs"
proof -
  have half: "(length us + 1) div 2 = (length vs + 1) div 2" using arg_cong [OF assms(1), of length] by simp
  have "length us = length vs"
  proof (rule ccontr)
    assume "length us \<noteq> length vs"
    then have "odd (length us) \<and> length vs = length us + 1" using half assms(3) by (intro half_eq) auto
    then obtain k where k: "length us = 2 * k + 1" "length vs = 2 * k + 2" by (auto elim: oddE)
    have "vs ! (2 * k) = vs ! (2 * k + 1)" using inj [of k] k by auto
    then show False using assms(4) k by (simp add: end_dup_def)
  qed
  then show ?thesis
  proof (rule nth_equalityI)
    fix i
    assume i: "i < length us"
    then have "i div 2 < (length us + 1) div 2" by linarith
    note eq = inj [OF this]
    show "us ! i = vs ! i"
    proof (cases "even i")
      case True
      then show ?thesis using eq by simp
    next
      case False
      then have "2 * (i div 2) + 1 = i" by presburger
      moreover have "i \<le> length us - 1" "i \<le> length vs - 1" using i \<open>length us = length vs\<close> by auto
      ultimately show ?thesis using eq by (simp add: min_absorb1)
    qed
  qed
qed

lemma row_inj:
  assumes "level us = level vs" "length us > 1" "length vs > 1" "\<not> end_dup us" "\<not> end_dup vs"
    and inj: "inj_on (\<lambda>(a, b). hash_pair a b) (hashed_pairs us \<union> hashed_pairs vs)"
  shows "us = vs"
proof -
  have half: "(length us + 1) div 2 = (length vs + 1) div 2" using arg_cong [OF assms(1), of length] by simp
  have eq: "(us ! (2 * i), us ! min (2 * i + 1) (length us - 1)) = (vs ! (2 * i), vs ! min (2 * i + 1) (length vs - 1))"
    if "i < (length us + 1) div 2" for i
  proof (rule inj_onD [OF inj])
    show "(us ! (2 * i), us ! min (2 * i + 1) (length us - 1)) \<in> hashed_pairs us \<union> hashed_pairs vs"
      using that by (auto simp: hashed_pairs_rec [OF assms(2)])
    show "(vs ! (2 * i), vs ! min (2 * i + 1) (length vs - 1)) \<in> hashed_pairs us \<union> hashed_pairs vs"
      using that half by (auto simp: hashed_pairs_rec [OF assms(3)])
    show "(case (us ! (2 * i), us ! min (2 * i + 1) (length us - 1)) of (a, b) \<Rightarrow> hash_pair a b) =
        (case (vs ! (2 * i), vs ! min (2 * i + 1) (length vs - 1)) of (a, b) \<Rightarrow> hash_pair a b)"
      using that half nth_level [of i us] nth_level [of i vs] assms(1) by simp
  qed
  show ?thesis
  proof (cases "length us \<le> length vs")
    case True
    show ?thesis by (rule level_inj [OF assms(1) _ True assms(5) eq]) (use assms(2) in auto)
  next
    case False
    have "vs = us"
      by (rule level_inj [OF assms(1) [symmetric] _ _ assms(4)]) (use assms(3) False eq half in auto)
    then show ?thesis by simp
  qed
qed

lemma row_dup_rec: "length xs > 1 \<Longrightarrow> row_dup xs \<longleftrightarrow> end_dup xs \<or> row_dup (level xs)"
  by (subst row_dup.simps) simp

lemma level_Nil: "level xs = [] \<longleftrightarrow> xs = []"
  by (cases xs rule: level.cases) auto

lemma merkle_root_rec: "length xs > 1 \<Longrightarrow> merkle_root xs = merkle_root (level xs)" "merkle_root [x] = x"
  by (subst merkle_root.simps, auto)+

lemma merkle_root_inj:
  assumes "tree_height xs = tree_height ys" "merkle_root xs = merkle_root ys" "xs \<noteq> []" "ys \<noteq> []"
    "\<not> row_dup xs" "\<not> row_dup ys" "inj_on (\<lambda>(a, b). hash_pair a b) (hashed_pairs xs \<union> hashed_pairs ys)"
  shows "xs = ys"
  using assms
proof (induction xs arbitrary: ys rule: tree_height.induct)
  case (1 xs ys)
  show ?case
  proof (cases "length xs > 1")
    case True
    then have len: "length ys > 1" using "1.prems"(1) tree_height_rec [of xs] tree_height_rec [of ys] by fastforce
    have sub: "hashed_pairs (level xs) \<union> hashed_pairs (level ys) \<subseteq> hashed_pairs xs \<union> hashed_pairs ys"
      using hashed_pairs_rec [OF True] hashed_pairs_rec [OF len] by blast
    have dup: "\<not> end_dup xs" "\<not> end_dup ys" "\<not> row_dup (level xs)" "\<not> row_dup (level ys)"
      using "1.prems"(5,6) row_dup_rec [OF True] row_dup_rec [OF len] by blast+
    have "level xs = level ys"
    proof (rule "1.IH" [OF True])
      show "tree_height (level xs) = tree_height (level ys)"
        using "1.prems"(1) tree_height_rec(1) [OF True] tree_height_rec(1) [OF len] by simp
      show "merkle_root (level xs) = merkle_root (level ys)"
        using "1.prems"(2) merkle_root_rec(1) [OF True] merkle_root_rec(1) [OF len] by simp
      show "inj_on (\<lambda>(a, b). hash_pair a b) (hashed_pairs (level xs) \<union> hashed_pairs (level ys))"
        using "1.prems"(7) sub by (rule inj_on_subset)
      show "level xs \<noteq> []" "level ys \<noteq> []" using "1.prems"(3,4) by (simp_all only: level_Nil not_False_eq_True)
    qed (rule dup)+
    then show ?thesis using True len dup(1,2) "1.prems"(7) by (rule row_inj)
  next
    case False
    then have "length ys \<le> 1" using "1.prems"(1) tree_height_rec [of xs] tree_height_rec [of ys] by fastforce
    with False "1.prems"(3,4) obtain x y where "xs = [x]" "ys = [y]" by (cases xs; cases ys) auto
    with "1.prems"(2) show ?thesis by (simp add: merkle_root_rec(2))
  qed
qed

text \<open>
  C35: the mutation flag does what its comment says. Two transaction lists whose trees have the same
  number of rows, with the same root and both not reported as mutated, are equal, unless two different
  pairs of nodes of these two trees have the same hash.
\<close>

theorem merkle_root_binding:
  assumes "BuildMerkleTree xs = (root, False, txs)" "BuildMerkleTree ys = (root, False, tys)"
    and "xs \<noteq> []" "ys \<noteq> []" "tree_height xs = tree_height ys"
    and "inj_on (\<lambda>(a, b). hash_pair a b) (hashed_pairs xs \<union> hashed_pairs ys)"
  shows "xs = ys"
  using assms by (intro merkle_root_inj) (simp_all add: BuildMerkleTree_eq)

theorem merkle_root_binding_witness:
  "BuildMerkleTree [1, 2] = (merkle_root [1, 2], False, rows [1, 2]) \<and> [1, 2] = [1, 2 :: uint256]"
proof -
  have dup: "\<not> row_dup [1, 2]" by (simp add: row_dup_rec end_dup_def row_dup.simps [of "[_]"])
  then have b: "BuildMerkleTree [1, 2] = (merkle_root [1, 2], False, rows [1, 2])" by (simp add: BuildMerkleTree_eq)
  have "hashed_pairs [1, 2] = {(1, 2)}"
    by (auto simp: hashed_pairs_rec hashed_pairs.simps [of "[_]"])
  then have "[1, 2] = [1, 2 :: uint256]" by (intro merkle_root_binding [OF b b]) simp_all
  with b show ?thesis by simp
qed

section \<open>Completed nodes\<close>

text \<open>
  \<open>pairs\<close> is \<open>level\<close> without the odd node at the end; \<open>complete b xs\<close> are the nodes of row \<open>b\<close> that cover
  \<open>2 ^ b\<close> leaves. After a prefix of the leaves, \<open>inner\<close> holds the unpaired node of each row.
\<close>

fun pairs :: "uint256 list \<Rightarrow> uint256 list" where
  "pairs (x # y # xs) = hash_pair x y # pairs xs"
| "pairs _ = []"

definition complete :: "nat \<Rightarrow> uint256 list \<Rightarrow> uint256 list" where
  "complete b = pairs ^^ b"

lemma complete_simps: "complete 0 xs = xs" "complete (Suc b) xs = pairs (complete b xs)"
  by (simp_all add: complete_def)

lemma length_pairs [simp]: "length (pairs xs) = length xs div 2"
  by (induction xs rule: pairs.induct) auto

lemma length_complete: "length (complete b xs) = length xs div 2 ^ b"
  by (induction b) (simp_all add: complete_simps div_mult2_eq [symmetric] mult.commute)

lemma pairs_snoc: "pairs (xs @ [x]) = (if even (length xs) then pairs xs else pairs xs @ [hash_pair (last xs) x])"
  by (induction xs rule: pairs.induct) (auto simp: neq_Nil_conv)

lemma level_pairs: "level xs = (if even (length xs) then pairs xs else pairs xs @ [hash_pair (last xs) (last xs)])"
  by (induction xs rule: level.induct) (auto simp: neq_Nil_conv)

lemma bit_length_complete: "bit (length xs) b \<longleftrightarrow> odd (length (complete b xs))"
  by (simp add: length_complete bit_iff_odd)

text \<open>Row \<open>b\<close> after one more leaf, where the rows below had an unpaired node each.\<close>

definition carry :: "nat \<Rightarrow> uint256 list \<Rightarrow> uint256 \<Rightarrow> uint256 \<Rightarrow> bool" where
  "carry b xs x h \<longleftrightarrow> complete b (xs @ [x]) = complete b xs @ [h]"

lemma carry_0: "carry 0 xs x x"
  by (simp add: carry_def complete_simps)

lemma carry_Suc:
  assumes "carry b xs x h" "odd (length (complete b xs))"
  shows "carry (Suc b) xs x (hash_pair (last (complete b xs)) h)"
  using assms by (simp add: carry_def complete_simps pairs_snoc)

lemma carry_stop:
  assumes "carry b xs x h" "even (length (complete b xs))" "b < i"
  shows "complete i (xs @ [x]) = complete i xs"
proof -
  have "complete (Suc b) (xs @ [x]) = complete (Suc b) xs"
    using assms(1,2) by (simp add: carry_def complete_simps pairs_snoc)
  moreover have "complete (Suc b + n) ys = (pairs ^^ n) (complete (Suc b) ys)" for n ys
    by (simp only: complete_def add.commute [of "Suc b"] funpow_add o_def)
  ultimately show ?thesis using assms(3) by (metis Suc_leI le_Suc_ex)
qed

lemma bit_Suc_count:
  fixes n :: nat
  assumes "\<forall>i < b. bit n i"
  shows "bit (Suc n) b \<longleftrightarrow> \<not> bit n b"
  using assms
proof (induction b arbitrary: n)
  case (Suc b)
  then have "odd n" by (auto simp: bit_0)
  then have "Suc n div 2 = Suc (n div 2)" by (auto elim!: oddE)
  moreover have "\<forall>i < b. bit (n div 2) i" using Suc.prems by (auto simp flip: bit_Suc)
  ultimately show ?case using Suc.IH [of "n div 2"] by (simp add: bit_Suc)
qed (simp add: bit_0)


end
