(* ===== verification/MerkleRoot.thy ===== *)
theory MerkleRoot
  imports MerkleTree
begin

text \<open>
  The constant-space computation of \<open>src/src/consensus/merkle.cpp\<close> returns the root and the branches of the
  tree in memory. While the leaves come in, \<open>inner\<close> is a binary counter of completed nodes; the sweep
  climbs the right border of the tree.
\<close>

section \<open>Leaves\<close>

lemma count_bit:
  assumes "n < 2 ^ 32"
  shows "(of_nat n :: uint32) AND push_bit b 1 = 0 \<longleftrightarrow> \<not> bit n b"
proof -
  have "(of_nat n :: uint32) AND 2 ^ b = 0 \<longleftrightarrow> \<not> bit (of_nat n :: uint32) b" by (rule and_exp_eq_0_iff_not_bit)
  moreover have "bit (of_nat n :: uint32) b \<longleftrightarrow> bit n b"
  proof -
    have "bit (unat (of_nat n :: uint32)) b \<longleftrightarrow> bit (of_nat n :: uint32) b" by (simp add: bit_unsigned_iff)
    then show ?thesis using assms by (simp add: unsigned_of_nat take_bit_nat_eq_self)
  qed
  ultimately show ?thesis by (simp add: push_bit_of_1)
qed

definition inner_ok :: "uint256 list \<Rightarrow> merkle_state \<Rightarrow> bool" where
  "inner_ok xs s \<longleftrightarrow> length (inner s) = 32 \<and>
     (\<forall>b < 32. odd (length (complete b xs)) \<longrightarrow> inner s ! b = last (complete b xs))"

text \<open>The siblings of position \<open>p\<close> in the rows below \<open>m\<close>, all of them completed.\<close>

definition siblings :: "nat \<Rightarrow> uint256 list \<Rightarrow> nat \<Rightarrow> uint256 list" where
  "siblings m xs p = map (\<lambda>b. complete b xs ! sibling (p div 2 ^ b)) [0..<m]"

text \<open>The node over \<open>p\<close> is the unpaired one of row \<open>m\<close>, and its branch up to there has been collected.\<close>

definition tracked :: "nat \<Rightarrow> uint256 list \<Rightarrow> nat \<Rightarrow> merkle_state \<Rightarrow> bool" where
  "tracked p xs m s \<longleftrightarrow> matchlevel s = int m \<and> m < 32 \<and> odd (length (complete m xs)) \<and>
     p div 2 ^ m = length (complete m xs) - 1 \<and> branch s = siblings m xs p"

definition untracked :: "nat \<Rightarrow> uint256 list \<Rightarrow> merkle_state \<Rightarrow> bool" where
  "untracked p xs s \<longleftrightarrow> length xs \<le> p \<and> matchlevel s = -1 \<and> branch s = []"

lemma tracked_mutated [simp]: "tracked p xs m (s\<lparr>mutated := mu\<rparr>) = tracked p xs m s"
  "untracked p xs (s\<lparr>mutated := mu\<rparr>) = untracked p xs s"
  by (simp_all add: tracked_def untracked_def)

lemma siblings_Suc: "siblings (Suc m) xs p = siblings m xs p @ [complete m xs ! sibling (p div 2 ^ m)]"
  by (simp add: siblings_def)

text \<open>Siblings of a completed node are completed.\<close>

lemma sibling_lt: "i div 2 < n div 2 \<Longrightarrow> sibling i < n"
  unfolding sibling_def by presburger

lemma sibling_complete:
  assumes "p div 2 ^ m < length (complete m xs)" "b < m"
  shows "sibling (p div 2 ^ b) < length (complete b xs)"
proof -
  have "p div 2 ^ Suc b < length (complete (Suc b) xs)"
  proof -
    obtain d where d: "m = Suc b + d" using assms(2) by (metis Suc_leI le_Suc_ex)
    have "p div 2 ^ m = p div 2 ^ Suc b div 2 ^ d" "length xs div 2 ^ m = length xs div 2 ^ Suc b div 2 ^ d"
      unfolding d power_add by (simp_all only: div_mult2_eq)
    then show ?thesis using assms(1) unfolding length_complete by (metis div_le_mono linorder_not_less)
  qed
  then show ?thesis by (intro sibling_lt) (simp add: length_complete div_mult2_eq [symmetric] mult.commute)
qed

lemma complete_snoc:
  obtains "complete b (xs @ [x]) = complete b xs" | h where "complete b (xs @ [x]) = complete b xs @ [h]"
proof -
  have "complete b (xs @ [x]) = complete b xs \<or> (\<exists>h. complete b (xs @ [x]) = complete b xs @ [h])"
  proof (induction b)
    case (Suc b)
    then show ?case by (cases "even (length (complete b xs))") (auto simp: complete_simps pairs_snoc)
  qed (simp add: complete_simps)
  with that show ?thesis by blast
qed

lemma siblings_snoc:
  assumes "\<And>b. b < m \<Longrightarrow> sibling (p div 2 ^ b) < length (complete b xs)"
  shows "siblings m (xs @ [x]) p = siblings m xs p"
  unfolding siblings_def
proof (rule map_cong [OF refl])
  fix b
  assume "b \<in> set [0..<m]"
  then have "sibling (p div 2 ^ b) < length (complete b xs)" using assms by simp
  then show "complete b (xs @ [x]) ! sibling (p div 2 ^ b) = complete b xs ! sibling (p div 2 ^ b)"
    using complete_snoc [of b xs x] by (metis nth_append)
qed

lemma tracked_lt: "tracked p xs m s \<Longrightarrow> p div 2 ^ m < length (complete m xs)"
  unfolding tracked_def by (metis diff_less odd_pos zero_less_one)

lemma tracked_position: "tracked p xs m s \<Longrightarrow> p < length xs"
  using tracked_lt [of p xs m s] unfolding length_complete by (metis div_le_mono linorder_not_less)

text \<open>The invariant of the inner loop: row \<open>b\<close> gets the node \<open>h\<close> for the new leaf \<open>x\<close>.\<close>

definition climbing :: "bool \<Rightarrow> nat \<Rightarrow> uint256 list \<Rightarrow> uint256 \<Rightarrow> nat \<Rightarrow> uint256 \<Rightarrow> bool \<Rightarrow> merkle_state \<Rightarrow> bool" where
  "climbing pbranch p xs x b h matchh s \<longleftrightarrow>
     (\<forall>i < b. odd (length (complete i xs))) \<and> carry b xs x h \<and> inner_ok xs s \<and>
     (pbranch \<longrightarrow> (if matchh then p div 2 ^ b = length (complete b xs) \<and> branch s = siblings b (xs @ [x]) p
        else length xs < p \<and> untracked p xs s \<or> (\<exists>m \<ge> b. tracked p xs m s)))"

lemma push_sibling_inner [simp]: "inner (fst (push_sibling pb s b h matchh)) = inner s"
  by (simp add: push_sibling_def)

lemma climbing_step:
  assumes c: "climbing pb p xs x b h matchh s" and odd: "odd (length (complete b xs))" and "b < 32"
    and ps: "push_sibling pb s b h matchh = (s', matchh')"
  shows "climbing pb p xs x (Suc b) (hash_pair (inner s' ! b) h) matchh' (s'\<lparr>mutated := mu\<rparr>)"
proof -
  have in_eq: "inner s' = inner s" using push_sibling_inner [of pb s b h matchh] ps by simp
  have inner: "inner s ! b = last (complete b xs)" using c odd \<open>b < 32\<close> by (simp add: climbing_def inner_ok_def)
  have carry: "complete b (xs @ [x]) = complete b xs @ [h]" using c by (simp add: climbing_def carry_def)
  have half: "length (complete (Suc b) xs) = length (complete b xs) div 2" by (simp add: complete_simps)
  have pdiv: "p div 2 ^ Suc b = p div 2 ^ b div 2" by (simp add: div_mult2_eq [symmetric] mult.commute)
  have last: "complete b (xs @ [x]) ! (length (complete b xs) - 1) = last (complete b xs)"
  proof -
    have "complete b xs \<noteq> []" using odd by auto
    then show ?thesis by (simp add: carry nth_append last_conv_nth)
  qed
  have track: "if matchh' then p div 2 ^ Suc b = length (complete (Suc b) xs) \<and> branch s' = siblings (Suc b) (xs @ [x]) p
      else length xs < p \<and> untracked p xs s' \<or> (\<exists>m \<ge> Suc b. tracked p xs m s')" if pb
  proof (cases matchh)
    case True
    then have m: "p div 2 ^ b = length (complete b xs)" "branch s = siblings b (xs @ [x]) p"
      using c \<open>pb\<close> by (simp_all add: climbing_def)
    have "branch s' = branch s @ [inner s ! b]" "matchh'" using ps True \<open>pb\<close> by (auto simp: push_sibling_def)
    moreover have "sibling (p div 2 ^ b) = length (complete b xs) - 1" using m odd by (simp add: sibling_def)
    ultimately show ?thesis using m inner last by (simp only: if_True half pdiv siblings_Suc)
  next
    case False
    then consider "length xs < p" "untracked p xs s" | m where "b \<le> m" "tracked p xs m s"
      using c \<open>pb\<close> by (auto simp: climbing_def)
    then show ?thesis
    proof cases
      case 1
      then have "s' = s" "\<not> matchh'"
        using ps False by (auto simp: push_sibling_def untracked_def split: if_splits)
      then show ?thesis using 1 by simp
    next
      case (2 m)
      show ?thesis
      proof (cases "m = b")
        case True
        then have m: "matchlevel s = int b" "p div 2 ^ b = length (complete b xs) - 1" "branch s = siblings b xs p"
          using 2 by (simp_all add: tracked_def)
        have lt: "p div 2 ^ b < length (complete b xs)" using m(2) odd_pos [OF odd] by simp
        have "siblings b (xs @ [x]) p = siblings b xs p" by (rule siblings_snoc) (rule sibling_complete [OF lt])
        moreover have "branch s' = branch s @ [h]" "matchh'" using ps False \<open>pb\<close> m(1) by (auto simp: push_sibling_def)
        moreover have "sibling (p div 2 ^ b) = length (complete b xs)" using m(2) odd odd_pos by (simp add: sibling_def)
        moreover have "(length (complete b xs) - 1) div 2 = length (complete b xs) div 2" using odd by presburger
        ultimately show ?thesis using m by (simp add: half pdiv [unfolded power_Suc] siblings_Suc carry)
      next
        case False
        then have "s' = s" "\<not> matchh'"
          using ps 2 \<open>\<not> matchh\<close> by (auto simp: push_sibling_def tracked_def split: if_splits)
        then show ?thesis using 2 False by (auto intro!: exI [of _ m])
      qed
    qed
  qed
  have "inner_ok xs (s'\<lparr>mutated := mu\<rparr>)" using c in_eq by (simp add: climbing_def inner_ok_def)
  moreover have "carry (Suc b) xs x (hash_pair (inner s' ! b) h)"
    using c odd in_eq inner carry_Suc by (simp add: climbing_def)
  moreover have "\<forall>i < Suc b. odd (length (complete i xs))" using c odd by (auto simp: climbing_def less_Suc_eq)
  ultimately show ?thesis using track unfolding climbing_def by (simp del: power_Suc)
qed

lemma carry_exists: "\<forall>j < i. odd (length (complete j xs)) \<Longrightarrow> \<exists>h. carry i xs x h"
proof (induction i)
  case (Suc i)
  then obtain h where "carry i xs x h" by auto
  then show ?case using carry_Suc Suc.prems by blast
qed (use carry_0 in blast)

lemma climbing_stop:
  assumes c: "climbing pb p xs x b h matchh s" and even: "even (length (complete b xs))" and "b < 32"
  defines "s' \<equiv> (let s = s\<lparr>inner := (inner s)[b := h]\<rparr> in if matchh then s\<lparr>matchlevel := int b\<rparr> else s)"
  shows "inner_ok (xs @ [x]) s' \<and> (pb \<longrightarrow> untracked p (xs @ [x]) s' \<or> (\<exists>m. tracked p (xs @ [x]) m s'))"
proof
  have carry: "carry b xs x h" "complete b (xs @ [x]) = complete b xs @ [h]" using c by (simp_all add: climbing_def carry_def)
  have above: "complete i (xs @ [x]) = complete i xs" if "b < i" for i using carry_stop [OF carry(1) even that] .
  have below: "even (length (complete i (xs @ [x])))" if "i < b" for i
  proof -
    have "\<forall>j < i. odd (length (complete j xs))" "odd (length (complete i xs))" using c that by (auto simp: climbing_def)
    then show ?thesis using carry_exists [of i xs x] by (auto simp: carry_def)
  qed
  show "inner_ok (xs @ [x]) s'" unfolding inner_ok_def
  proof (intro conjI allI impI)
    show "length (inner s') = 32" using c by (simp add: s'_def Let_def climbing_def inner_ok_def)
    fix i :: nat
    assume i: "i < 32" "odd (length (complete i (xs @ [x])))"
    consider "i = b" | "b < i" using i(2) below by fastforce
    then show "inner s' ! i = last (complete i (xs @ [x]))"
      using c i above carry(2) by cases (auto simp: s'_def Let_def climbing_def inner_ok_def)
  qed
  show "pb \<longrightarrow> untracked p (xs @ [x]) s' \<or> (\<exists>m. tracked p (xs @ [x]) m s')"
  proof
    assume pb
    show "untracked p (xs @ [x]) s' \<or> (\<exists>m. tracked p (xs @ [x]) m s')"
    proof (cases matchh)
      case True
      then have "tracked p (xs @ [x]) b s'"
        using c even \<open>pb\<close> \<open>b < 32\<close> by (simp add: climbing_def tracked_def s'_def Let_def carry(2))
      then show ?thesis by blast
    next
      case False
      then consider "length xs < p" "untracked p xs s" | m where "b \<le> m" "tracked p xs m s"
        using c \<open>pb\<close> by (auto simp: climbing_def)
      then show ?thesis
      proof cases
        case 1
        then show ?thesis using False by (simp add: untracked_def s'_def)
      next
        case (2 m)
        then have "b < m" using even by (cases "m = b") (auto simp: tracked_def)
        have lt: "p div 2 ^ m < length (complete m xs)" using 2(2) by (rule tracked_lt)
        have "siblings m (xs @ [x]) p = siblings m xs p" by (rule siblings_snoc) (rule sibling_complete [OF lt])
        then have "tracked p (xs @ [x]) m s'"
          using 2(2) above [OF \<open>b < m\<close>] False by (simp add: tracked_def s'_def)
        then show ?thesis by blast
      qed
    qed
  qed
qed

lemma all_bits_ge: "\<forall>i < k. bit n i \<Longrightarrow> 2 ^ k - 1 \<le> (n :: nat)"
proof (induction k arbitrary: n)
  case (Suc k)
  have "\<forall>i < k. bit (n div 2) i" using Suc.prems by (auto simp flip: bit_Suc)
  then have "2 ^ k - 1 \<le> n div 2" by (rule Suc.IH)
  moreover have "odd n" using Suc.prems by (auto simp: bit_0)
  ultimately show ?case by (auto elim!: oddE)
qed simp

lemma leaf_loop_climbs:
  assumes "climbing pb p xs x b h matchh s" "length xs + 1 < 2 ^ 32"
  shows "\<exists>s' b' h' m'. leaf_loop pb (of_nat (length xs + 1)) s b h matchh = Ok (s', b', h', m') \<and>
    climbing pb p xs x b' h' m' s' \<and> even (length (complete b' xs)) \<and> b' < 32"
  using assms(1)
proof (induction "32 - b" arbitrary: b h matchh s rule: less_induct)
  case less
  have odd: "\<forall>i < b. odd (length (complete i xs))" using less.prems by (simp add: climbing_def)
  have b: "b < 32"
  proof (rule ccontr)
    assume "\<not> b < 32"
    then have "\<forall>i < 32. bit (length xs) i" using odd by (simp add: bit_length_complete)
    then have "2 ^ 32 - 1 \<le> length xs" by (rule all_bits_ge)
    then show False using assms(2) by simp
  qed
  have bit: "(of_nat (length xs + 1) :: uint32) AND push_bit b 1 = 0 \<longleftrightarrow> odd (length (complete b xs))"
  proof -
    have "\<forall>i < b. bit (length xs) i" using odd by (simp add: bit_length_complete)
    then have "bit (length xs + 1) b \<longleftrightarrow> \<not> bit (length xs) b" using bit_Suc_count by simp
    then show ?thesis unfolding count_bit [OF assms(2)] by (simp add: bit_length_complete)
  qed
  show ?case
  proof (cases "odd (length (complete b xs))")
    case True
    obtain s' m' where ps: "push_sibling pb s b h matchh = (s', m')" by (metis prod.exhaust)
    have "climbing pb p xs x (Suc b) (hash_pair (inner s' ! b) h) m' (s'\<lparr>mutated := (mutated s' \<or> inner s' ! b = h)\<rparr>)"
      by (rule climbing_step [OF less.prems True b ps])
    moreover have "32 - Suc b < 32 - b" using b by simp
    ultimately show ?thesis using less.hyps bit True b ps
      by (subst leaf_loop.simps) (simp add: Let_def chash_pair_eq)
  next
    case False
    then show ?thesis using bit b less.prems by (subst leaf_loop.simps) simp
  qed
qed

definition leaves_ok :: "bool \<Rightarrow> nat \<Rightarrow> uint256 list \<Rightarrow> merkle_state \<Rightarrow> bool" where
  "leaves_ok pb p xs s \<longleftrightarrow> inner_ok xs s \<and> (pb \<longrightarrow> untracked p xs s \<or> (\<exists>m. tracked p xs m s))"

lemma process_leaf_ok:
  assumes "leaves_ok pb p xs s" "length xs + 1 < 2 ^ 32" "p < 2 ^ 32"
  shows "\<exists>s'. process_leaf pb (of_nat p) (of_nat (length xs)) s x = Ok s' \<and> leaves_ok pb p (xs @ [x]) s'"
proof -
  have eq: "(of_nat (length xs) :: uint32) = of_nat p \<longleftrightarrow> length xs = p"
    using assms(2,3) by (simp add: word_unat_eq_iff unsigned_of_nat take_bit_nat_eq_self)
  have "length xs < p \<and> untracked p xs s \<or> (\<exists>m. tracked p xs m s)" if pb "length xs \<noteq> p"
    using assms(1) that by (auto simp: leaves_ok_def untracked_def)
  moreover have "branch s = []" if pb "length xs = p"
    using assms(1) that tracked_position [of p xs _ s] by (auto simp: leaves_ok_def untracked_def)
  ultimately have "climbing pb p xs x 0 x (length xs = p) s"
    using assms(1) carry_0 by (simp add: climbing_def leaves_ok_def siblings_def complete_simps)
  from leaf_loop_climbs [OF this assms(2)] obtain s' b' h' m'
    where l: "leaf_loop pb (of_nat (length xs + 1)) s 0 x (length xs = p) = Ok (s', b', h', m')"
      "climbing pb p xs x b' h' m' s'" "even (length (complete b' xs))" "b' < 32" by blast
  have "process_leaf pb (of_nat p) (of_nat (length xs)) s x =
      Ok (let s = s'\<lparr>inner := (inner s')[b' := h']\<rparr> in if m' then s\<lparr>matchlevel := int b'\<rparr> else s)"
    using l(1) by (simp add: process_leaf_def eq Let_def add.commute)
  then show ?thesis using climbing_stop [OF l(2-4)] by (simp add: leaves_ok_def)
qed

lemma process_leaves_ok:
  assumes "leaves_ok pb p xs s" "length xs + length ys < 2 ^ 32" "p < 2 ^ 32"
  shows "\<exists>s'. process_leaves pb (of_nat p) (of_nat (length xs)) s ys = Ok s' \<and> leaves_ok pb p (xs @ ys) s'"
  using assms(1,2)
proof (induction ys arbitrary: xs s)
  case (Cons y ys)
  then obtain s' where s': "process_leaf pb (of_nat p) (of_nat (length xs)) s y = Ok s'" "leaves_ok pb p (xs @ [y]) s'"
    using process_leaf_ok [OF Cons.prems(1) _ assms(3), of y] by auto
  from Cons.IH [OF s'(2)] Cons.prems(2) s'(1) show ?case by (simp add: add.commute)
qed simp

section \<open>Rows\<close>

definition row :: "nat \<Rightarrow> uint256 list \<Rightarrow> uint256 list" where
  "row l = level ^^ l"

lemma row_simps: "row 0 xs = xs" "row (Suc l) xs = level (row l xs)"
  by (simp_all add: row_def)

lemma row_Suc_level: "row (Suc l) xs = row l (level xs)"
  by (simp add: row_def funpow_swap1)

lemma length_row_bound: "length xs \<le> 2 ^ k * 2 ^ l \<Longrightarrow> length (row l xs) \<le> 2 ^ k"
proof (induction l arbitrary: k)
  case (Suc l)
  have "length (row l xs) \<le> 2 ^ Suc k" using Suc.prems by (intro Suc.IH) (simp add: ac_simps)
  then show ?case by (simp add: row_simps)
qed (simp add: row_simps)

lemma row_nonempty: "xs \<noteq> [] \<Longrightarrow> row l xs \<noteq> []"
proof (induction l)
  case (Suc l)
  then have "length (row l xs) \<noteq> 0" by simp
  then have "length (level (row l xs)) \<noteq> 0" unfolding length_level by presburger
  then show ?case by (metis list.size(3) row_simps(2))
qed (simp add: row_simps)

lemma length_row_covers: "length xs \<le> length (row l xs) * 2 ^ l"
proof (induction l)
  case (Suc l)
  then have "length xs \<le> length (row l xs) * 2 ^ l" .
  also have "\<dots> \<le> length (level (row l xs)) * 2 * 2 ^ l" by (intro mult_right_mono) auto
  finally show ?case by (simp add: row_simps mult.assoc)
qed (simp add: row_simps)

lemma merkle_root_row: "(\<And>b. b < l \<Longrightarrow> length (row b xs) > 1) \<Longrightarrow> merkle_root (row l xs) = merkle_root xs"
proof (induction l)
  case (Suc l)
  then show ?case using merkle_root_rec(1) [of "row l xs"] by (simp add: row_simps)
qed (simp add: row_simps)

lemma row_complete:
  obtains "row l xs = complete l xs" | z where "row l xs = complete l xs @ [z]"
proof -
  have "row l xs = complete l xs \<or> (\<exists>z. row l xs = complete l xs @ [z])"
  proof (induction l)
    case (Suc l)
    then show ?case by (auto simp: row_simps complete_simps level_pairs pairs_snoc)
  qed (simp add: row_simps complete_simps)
  with that show ?thesis by blast
qed

definition row_branch :: "nat \<Rightarrow> uint256 list \<Rightarrow> nat \<Rightarrow> uint256 list" where
  "row_branch l xs p = map (\<lambda>b. row b xs ! min (sibling (p div 2 ^ b)) (length (row b xs) - 1)) [0..<l]"

lemma row_branch_Suc:
  "row_branch (Suc l) xs p = row_branch l xs p @ [row l xs ! min (sibling (p div 2 ^ l)) (length (row l xs) - 1)]"
  by (simp add: row_branch_def)

lemma merkle_branch_rows:
  "(\<And>b. b < l \<Longrightarrow> length (row b xs) > 1) \<Longrightarrow> length (row l xs) \<le> 1 \<Longrightarrow> merkle_branch xs p = row_branch l xs p"
proof (induction l arbitrary: xs p)
  case 0
  then have "\<not> length xs > 1" by (simp add: row_simps)
  then show ?case by (subst merkle_branch.simps) (simp add: row_branch_def)
next
  case (Suc l)
  have "length xs > 1" using Suc.prems(1) [of 0] by (simp add: row_simps)
  moreover have "merkle_branch (level xs) (p div 2) = row_branch l (level xs) (p div 2)"
    using Suc.prems by (intro Suc.IH) (auto simp flip: row_Suc_level)
  moreover have "row_branch (Suc l) xs p =
      xs ! min (sibling p) (length xs - 1) # row_branch l (level xs) (p div 2)"
    by (simp add: row_branch_def upt_conv_Cons map_Suc_upt [symmetric] row_simps(1) row_Suc_level
        div_mult2_eq [symmetric] del: upt_Suc)
  ultimately show ?case by (simp add: merkle_branch.simps [of xs])
qed

lemma siblings_rows:
  assumes "\<And>b. b < m \<Longrightarrow> sibling (p div 2 ^ b) < length (complete b xs)"
  shows "siblings m xs p = row_branch m xs p"
  unfolding siblings_def row_branch_def
proof (rule map_cong [OF refl])
  fix b
  assume "b \<in> set [0..<m]"
  then have lt: "sibling (p div 2 ^ b) < length (complete b xs)" using assms by simp
  obtain zs where zs: "row b xs = complete b xs @ zs" using row_complete [of b xs] by (metis append.right_neutral)
  have "min (sibling (p div 2 ^ b)) (length (row b xs) - 1) = sibling (p div 2 ^ b)" using lt zs by simp
  then show "complete b xs ! sibling (p div 2 ^ b) = row b xs ! min (sibling (p div 2 ^ b)) (length (row b xs) - 1)"
    using lt zs by (simp only: nth_append if_True)
qed

section \<open>The sweep\<close>

text \<open>The node \<open>h\<close> is the last one of row \<open>l\<close>, and the branch of \<open>p\<close> has been collected up to where it meets it.\<close>

definition border :: "bool \<Rightarrow> nat \<Rightarrow> uint256 list \<Rightarrow> nat \<Rightarrow> uint256 \<Rightarrow> bool \<Rightarrow> merkle_state \<Rightarrow> bool" where
  "border pb p xs l h matchh s \<longleftrightarrow>
     row l xs \<noteq> [] \<and> last (row l xs) = h \<and> (row l xs = complete l xs \<longrightarrow> odd (length (row l xs))) \<and>
     (\<forall>b < l. length (row b xs) > 1) \<and> l \<le> 31 \<and> inner_ok xs s \<and>
     (pb \<longrightarrow> (if matchh then p div 2 ^ l = length (row l xs) - 1 \<and> branch s = row_branch l xs p
        else \<exists>m \<ge> l. (m = l \<longrightarrow> row l xs \<noteq> complete l xs) \<and> tracked p xs m s))"

lemma tracked_branch: "tracked p xs m s \<Longrightarrow> branch s = row_branch m xs p"
  using siblings_rows [of m p xs] sibling_complete [OF tracked_lt] by (simp add: tracked_def)

lemma level_bound: "length xs \<le> 2 ^ 31 \<Longrightarrow> l \<le> 31 \<Longrightarrow> length (row l xs) * 2 ^ l \<le> 2 ^ 31"
proof -
  assume "length xs \<le> 2 ^ 31" and l: "l \<le> 31"
  then have "length xs \<le> 2 ^ (31 - l) * 2 ^ l" by (simp flip: power_add)
  then have "length (row l xs) \<le> 2 ^ (31 - l)" by (rule length_row_bound)
  then have "length (row l xs) * 2 ^ l \<le> 2 ^ (31 - l) * 2 ^ l" by (rule mult_right_mono) simp
  then show ?thesis using l by (simp flip: power_add)
qed

lemma level_lt: "length xs \<le> 2 ^ 31 \<Longrightarrow> l \<le> 31 \<Longrightarrow> 1 < length (row l xs) \<Longrightarrow> l < 31"
  using level_bound [of xs l] by (cases "l = 31") auto

definition sweep_count :: "nat \<Rightarrow> uint256 list \<Rightarrow> uint32" where
  "sweep_count l xs = of_nat (length (row l xs) * 2 ^ l)"

lemma sweep_count_bit:
  assumes "length xs \<le> 2 ^ 31" "l \<le> 31"
  shows "sweep_count l xs AND push_bit l 1 = 0 \<longleftrightarrow> even (length (row l xs))"
proof -
  have "length (row l xs) * 2 ^ l < 2 ^ 32" using level_bound [OF assms] by simp
  from count_bit [OF this, of l] show ?thesis by (simp add: sweep_count_def bit_iff_odd)
qed

lemma sweep_count_one:
  assumes "length xs \<le> 2 ^ 31" "l \<le> 31"
  shows "sweep_count l xs = push_bit l 1 \<longleftrightarrow> length (row l xs) = 1"
proof -
  have *: "length (row l xs) * 2 ^ l < 2 ^ 32" using level_bound [OF assms] by simp
  have "(2 :: nat) ^ l < 2 ^ 32" using assms(2) by (intro power_strict_increasing) auto
  then have "unat (of_nat (2 ^ l) :: uint32) = 2 ^ l" using assms(2) by (simp add: unsigned_of_nat take_bit_nat_eq_self del: of_nat_mult of_nat_power)
  moreover have "unat (of_nat (length (row l xs) * 2 ^ l) :: uint32) = length (row l xs) * 2 ^ l"
    using * by (simp add: unsigned_of_nat take_bit_nat_eq_self del: of_nat_mult of_nat_power)
  moreover have "(push_bit l 1 :: uint32) = of_nat (2 ^ l)" by (simp add: push_bit_of_1)
  ultimately show ?thesis unfolding sweep_count_def word_unat_eq_iff by simp
qed

lemma border_climb:
  assumes c: "border pb p xs l h matchh s" and even: "even (length (row l xs))" and n: "length xs \<le> 2 ^ 31"
    and ps: "push_sibling pb s l h matchh = (s', matchh')"
  shows "border pb p xs (Suc l) (hash_pair (inner s' ! l) h) matchh' s'" "sweep_count (Suc l) xs = sweep_count l xs"
proof -
  have ne: "row l xs \<noteq> complete l xs" "row l xs \<noteq> []" "last (row l xs) = h" using c even by (auto simp: border_def)
  from ne(1) obtain z where "row l xs = complete l xs @ [z]" using row_complete [of l xs] by blast
  with ne have row: "row l xs = complete l xs @ [h]" by simp
  have odd: "odd (length (complete l xs))" using even row by simp
  have lt: "l < 31" using c n level_lt [of xs l] odd_pos [OF odd] row by (auto simp: border_def)
  have inner: "inner s ! l = last (complete l xs)" "inner s' = inner s"
    using c odd lt push_sibling_inner [of pb s l h matchh] ps by (simp_all add: border_def inner_ok_def)
  have next_row: "row (Suc l) xs = complete (Suc l) xs @ [hash_pair (inner s' ! l) h]"
    using odd row inner by (simp add: row_simps complete_simps level_pairs pairs_snoc)
  have half: "length (row (Suc l) xs) = (length (complete l xs) + 1) div 2" using odd by (simp add: row_simps row)
  have pdiv: "p div 2 ^ Suc l = p div 2 ^ l div 2" by (simp add: div_mult2_eq [symmetric] mult.commute)
  have last: "row l xs ! (length (complete l xs) - 1) = inner s ! l"
    using odd odd_pos [OF odd] by (simp add: row nth_append inner last_conv_nth)
  have track: "if matchh' then p div 2 ^ Suc l = length (row (Suc l) xs) - 1 \<and> branch s' = row_branch (Suc l) xs p
      else \<exists>m \<ge> Suc l. tracked p xs m s'" if pb
  proof (cases matchh)
    case True
    then have m: "p div 2 ^ l = length (complete l xs)" "branch s = row_branch l xs p"
      using c \<open>pb\<close> row by (simp_all add: border_def)
    have "branch s' = branch s @ [inner s ! l]" "matchh'" using ps True \<open>pb\<close> by (auto simp: push_sibling_def)
    moreover have "min (sibling (p div 2 ^ l)) (length (row l xs) - 1) = length (complete l xs) - 1"
      using m odd by (simp add: sibling_def row)
    moreover have "length (complete l xs) div 2 = (length (complete l xs) + 1) div 2 - 1" using odd by presburger
    ultimately show ?thesis using m last by (simp only: if_True half pdiv row_branch_Suc simp_thms)
  next
    case False
    then obtain m where m: "l \<le> m" "tracked p xs m s" using c \<open>pb\<close> by (auto simp: border_def)
    show ?thesis
    proof (cases "m = l")
      case True
      then have t: "matchlevel s = int l" "p div 2 ^ l = length (complete l xs) - 1" "branch s = row_branch l xs p"
        using m tracked_branch [of p xs m s] by (simp_all add: tracked_def)
      have "branch s' = branch s @ [h]" "matchh'" using ps False \<open>pb\<close> t(1) by (auto simp: push_sibling_def)
      moreover have "min (sibling (p div 2 ^ l)) (length (row l xs) - 1) = length (complete l xs)"
        using t odd odd_pos by (simp add: sibling_def row)
      moreover have "(length (complete l xs) - 1) div 2 = (length (complete l xs) + 1) div 2 - 1" using odd by presburger
      moreover have "row l xs ! length (complete l xs) = h" by (simp add: row)
      ultimately show ?thesis using t by (simp only: if_True half pdiv row_branch_Suc simp_thms)
    next
      case False
      then have "s' = s" "\<not> matchh'"
        using ps m \<open>\<not> matchh\<close> by (auto simp: push_sibling_def tracked_def split: if_splits)
      then show ?thesis using m False by (auto intro!: exI [of _ m])
    qed
  qed
  have "length (row l xs) > 1" using odd odd_pos [OF odd] by (simp add: row)
  then have "\<forall>b < Suc l. length (row b xs) > 1" using c by (auto simp: border_def less_Suc_eq)
  moreover have "inner_ok xs s'" using c inner(2) by (simp add: border_def inner_ok_def)
  ultimately show "border pb p xs (Suc l) (hash_pair (inner s' ! l) h) matchh' s'"
    using track lt by (auto simp: border_def next_row split: if_splits)
  have "length (row (Suc l) xs) * 2 = length (row l xs)" using odd by (simp add: half row) presburger
  then show "sweep_count (Suc l) xs = sweep_count l xs" unfolding sweep_count_def by (metis mult.assoc power_Suc)
qed

lemma border_double:
  assumes c: "border pb p xs l h matchh s" and odd: "odd (length (row l xs))" and ne: "length (row l xs) \<noteq> 1"
    and n: "length xs \<le> 2 ^ 31"
  defines "s' \<equiv> (if pb \<and> matchh then s\<lparr>branch := branch s @ [h]\<rparr> else s)"
  shows "border pb p xs (Suc l) (hash_pair h h) matchh s'" "sweep_count (Suc l) xs = sweep_count l xs + push_bit l 1"
proof -
  have long: "length (row l xs) > 1" using c ne by (cases "row l xs") (auto simp: border_def)
  then have lt: "l < 31" using c n level_lt [of xs l] by (simp add: border_def)
  have last: "last (row l xs) = h" "row l xs \<noteq> []" using c by (auto simp: border_def)
  have next_row: "row (Suc l) xs = pairs (row l xs) @ [hash_pair h h]" using odd last by (simp add: row_simps level_pairs)
  have "length (row (Suc l) xs) \<noteq> length (complete (Suc l) xs)"
    using odd by (cases rule: row_complete [of l xs]) (auto simp: next_row complete_simps elim!: oddE)
  then have neq: "row (Suc l) xs \<noteq> complete (Suc l) xs" by metis
  have pdiv: "p div 2 ^ Suc l = p div 2 ^ l div 2" by (simp add: div_mult2_eq [symmetric] mult.commute)
  have track: "if matchh then p div 2 ^ Suc l = length (row (Suc l) xs) - 1 \<and> branch s' = row_branch (Suc l) xs p
      else \<exists>m \<ge> Suc l. tracked p xs m s'" if pb
  proof (cases matchh)
    case True
    then have m: "p div 2 ^ l = length (row l xs) - 1" "branch s = row_branch l xs p"
      using c \<open>pb\<close> by (simp_all add: border_def)
    have "min (sibling (p div 2 ^ l)) (length (row l xs) - 1) = length (row l xs) - 1"
      using m odd odd_pos [OF odd] by (simp add: sibling_def)
    moreover have "row l xs ! (length (row l xs) - 1) = h" using last by (simp add: last_conv_nth)
    moreover have "(length (row l xs) - 1) div 2 = length (row (Suc l) xs) - 1" using odd by (simp add: next_row) presburger
    ultimately show ?thesis using m True \<open>pb\<close> by (simp add: pdiv [unfolded power_Suc] row_branch_Suc s'_def)
  next
    case False
    then obtain m where m: "l \<le> m" "m = l \<longrightarrow> row l xs \<noteq> complete l xs" "tracked p xs m s"
      using c \<open>pb\<close> by (auto simp: border_def)
    have "m \<noteq> l"
    proof
      assume "m = l"
      then have "odd (length (complete l xs))" "row l xs \<noteq> complete l xs" using m by (auto simp: tracked_def)
      then show False using odd by (cases rule: row_complete [of l xs]) auto
    qed
    then show ?thesis using m False by (auto simp: s'_def intro!: exI [of _ m])
  qed
  have "\<forall>b < Suc l. length (row b xs) > 1" using c long by (auto simp: border_def less_Suc_eq)
  moreover have "inner_ok xs s'" using c by (simp add: border_def inner_ok_def s'_def)
  moreover have "row (Suc l) xs \<noteq> []" "last (row (Suc l) xs) = hash_pair h h" by (simp_all add: next_row)
  ultimately show "border pb p xs (Suc l) (hash_pair h h) matchh s'"
    using track lt neq unfolding border_def by (auto simp del: power_Suc split: if_splits)
  have "length (row (Suc l) xs) * 2 = length (row l xs) + 1" using odd by (simp add: next_row) presburger
  then have "length (row (Suc l) xs) * 2 ^ Suc l = length (row l xs) * 2 ^ l + 2 ^ l"
    by (metis mult.assoc power_Suc distrib_right mult_1)
  then show "sweep_count (Suc l) xs = sweep_count l xs + push_bit l 1"
    unfolding sweep_count_def push_bit_of_1 by (simp only: of_nat_add of_nat_power of_nat_numeral)
qed

lemma climb_loop_border:
  assumes "border pb p xs l h matchh s" "length xs \<le> 2 ^ 31"
  shows "\<exists>s' l' h' m'. climb_loop pb (sweep_count l xs) s l h matchh = Ok (s', l', h', m') \<and>
    border pb p xs l' h' m' s' \<and> odd (length (row l' xs)) \<and> sweep_count l' xs = sweep_count l xs \<and> l \<le> l'"
  using assms(1)
proof (induction "32 - l" arbitrary: l h matchh s rule: less_induct)
  case less
  have l: "l \<le> 31" using less.prems by (simp add: border_def)
  note bit = sweep_count_bit [OF assms(2) l]
  show ?case
  proof (cases "even (length (row l xs))")
    case True
    obtain s' m' where ps: "push_sibling pb s l h matchh = (s', m')" by (metis prod.exhaust)
    note step = border_climb [OF less.prems True assms(2) ps]
    have "32 - Suc l < 32 - l" using l by simp
    from less.hyps [OF this step(1)] obtain s'' l' h' m''
      where IH: "climb_loop pb (sweep_count l xs) s' (Suc l) (hash_pair (inner s' ! l) h) m' = Ok (s'', l', h', m'')"
        "border pb p xs l' h' m'' s''" "odd (length (row l' xs))" "sweep_count l' xs = sweep_count l xs" "Suc l \<le> l'"
      unfolding step(2) by blast
    have "climb_loop pb (sweep_count l xs) s l h matchh = Ok (s'', l', h', m'')"
      using IH(1) bit True l by (subst climb_loop.simps) (simp add: ps chash_pair_eq)
    then show ?thesis using IH by (auto intro: Suc_leD)
  next
    case False
    then show ?thesis using bit l less.prems by (subst climb_loop.simps) auto
  qed
qed

lemma sweep_border:
  assumes "border pb p xs l h matchh s" "odd (length (row l xs))" "length xs \<le> 2 ^ 31" "p < length xs \<or> \<not> pb"
  shows "\<exists>s'. sweep pb (sweep_count l xs) s l h matchh = Ok (s', merkle_root xs) \<and> (pb \<longrightarrow> branch s' = merkle_branch xs p)"
  using assms(1,2)
proof (induction "32 - l" arbitrary: l h matchh s rule: less_induct)
  case less
  have l: "l \<le> 31" using less.prems by (simp add: border_def)
  note one = sweep_count_one [OF assms(3) l]
  show ?case
  proof (cases "length (row l xs) = 1")
    case True
    have rows: "\<And>b. b < l \<Longrightarrow> length (row b xs) > 1" "last (row l xs) = h" using less.prems by (auto simp: border_def)
    obtain z where z: "row l xs = [z]" using True by (auto simp: length_Suc_conv)
    then have "h = merkle_root xs" using rows(2) merkle_root_row [of l xs] rows(1) merkle_root_rec(2) [of z] by simp
    moreover have "branch s = merkle_branch xs p" if pb
    proof (cases matchh)
      case True
      then show ?thesis using less.prems(1) \<open>pb\<close> merkle_branch_rows [of l xs p] rows(1) z by (simp add: border_def)
    next
      case False
      then obtain m where m: "l \<le> m" "m = l \<longrightarrow> row l xs \<noteq> complete l xs" "tracked p xs m s"
        using less.prems(1) \<open>pb\<close> by (auto simp: border_def)
      have "odd (length xs div 2 ^ m)" using m(3) by (simp add: tracked_def length_complete)
      then have "2 ^ m \<le> length xs" by (metis div_less even_zero not_le)
      moreover have "length xs \<le> 2 ^ l" using length_row_covers [of xs l] z by simp
      ultimately have "(2 :: nat) ^ m \<le> 2 ^ l" by (rule le_trans)
      then have "m = l" using m(1) by simp
      then show ?thesis using m z less.prems(2) by (cases rule: row_complete [of l xs]) (auto simp: tracked_def)
    qed
    ultimately show ?thesis using one True l by (subst sweep.simps) auto
  next
    case False
    note step = border_double [OF less.prems False assms(3)]
    let ?s = "if pb \<and> matchh then s\<lparr>branch := branch s @ [h]\<rparr> else s"
    obtain s' l' h' m' where c: "climb_loop pb (sweep_count (Suc l) xs) ?s (Suc l) (hash_pair h h) matchh = Ok (s', l', h', m')"
      "border pb p xs l' h' m' s'" "odd (length (row l' xs))" "sweep_count l' xs = sweep_count (Suc l) xs" "Suc l \<le> l'"
      using climb_loop_border [OF step(1) assms(3)] by blast
    have "32 - l' < 32 - l" using c(5) l by simp
    from less.hyps [OF this c(2,3)] obtain s'' where
      IH: "sweep pb (sweep_count l' xs) s' l' h' m' = Ok (s'', merkle_root xs)" "pb \<longrightarrow> branch s'' = merkle_branch xs p" by blast
    have "sweep pb (sweep_count l xs) s l h matchh = Ok (s'', merkle_root xs)"
      using IH(1) c(1,4) one False l step(2) by (subst sweep.simps) (simp add: Let_def chash_pair_eq)
    then show ?thesis using IH(2) by blast
  qed
qed

section \<open>The computation as a whole\<close>

lemma complete_rows_dvd: "\<forall>b < l. even (length (complete b xs)) \<Longrightarrow> 2 ^ l dvd length xs"
proof -
  assume "\<forall>b < l. even (length (complete b xs))"
  then have "take_bit l (length xs) = 0" by (intro bit_eqI) (auto simp: bit_take_bit_iff bit_length_complete)
  then show ?thesis by (simp add: take_bit_eq_mod mod_eq_0_iff_dvd)
qed

lemma complete_rows_row: "\<forall>b < l. even (length (complete b xs)) \<Longrightarrow> row l xs = complete l xs"
proof (induction l)
  case (Suc l)
  then show ?case by (simp add: row_simps complete_simps level_pairs)
qed (simp add: row_simps complete_simps)

lemma sweep_start:
  assumes "leaves_ok pb p xs s" "pb \<longrightarrow> p < length xs" "l \<le> 31"
    "odd (length (complete l xs))" "\<forall>b < l. even (length (complete b xs))"
  shows "border pb p xs l (inner s ! l) (matchlevel s = int l) s" "sweep_count l xs = of_nat (length xs)"
proof -
  have row: "row b xs = complete b xs" if "b \<le> l" for b using complete_rows_row assms(5) that by simp
  have ne: "complete l xs \<noteq> []" using assms(4) by auto
  have dvd: "2 ^ l dvd length xs" using assms(5) by (rule complete_rows_dvd)
  have long: "length (row b xs) > 1" if "b < l" for b
  proof -
    have "length (complete b xs) \<noteq> 0"
    proof
      assume "length (complete b xs) = 0"
      then have "length xs < 2 ^ b" by (simp add: length_complete div_eq_0_iff)
      moreover have "(2 :: nat) ^ b < 2 ^ l" using that by simp
      ultimately have "length xs div 2 ^ l = 0" by (intro div_less) (rule less_trans)
      then show False using ne length_complete [of l xs] by simp
    qed
    then show ?thesis using assms(5) that row [of b] by (cases "complete b xs") auto
  qed
  have track: "if matchlevel s = int l then p div 2 ^ l = length (row l xs) - 1 \<and> branch s = row_branch l xs p
      else \<exists>m \<ge> l. (m = l \<longrightarrow> row l xs \<noteq> complete l xs) \<and> tracked p xs m s" if pb
  proof -
    obtain m where m: "tracked p xs m s" using assms(1,2) \<open>pb\<close> by (auto simp: leaves_ok_def untracked_def)
    then have "l \<le> m" using assms(5) by (meson not_le tracked_def)
    then show ?thesis using m row [of l] tracked_branch [OF m] by (auto simp: tracked_def intro!: exI [of _ m])
  qed
  show "border pb p xs l (inner s ! l) (matchlevel s = int l) s"
    using assms(1,3,4) row [of l] ne long track by (auto simp: border_def leaves_ok_def inner_ok_def)
  show "sweep_count l xs = of_nat (length xs)"
    using dvd row [of l] by (simp add: sweep_count_def length_complete dvd_div_mult_self del: of_nat_mult)
qed

lemma lowest_level_row:
  assumes "xs \<noteq> []" "length xs \<le> 2 ^ 31" "l \<le> 31" "\<forall>b < l. even (length (complete b xs))"
  shows "\<exists>l' \<ge> l. lowest_level (of_nat (length xs)) l = Ok l' \<and> l' \<le> 31 \<and> odd (length (complete l' xs)) \<and>
    (\<forall>b < l'. even (length (complete b xs)))"
  using assms(3,4)
proof (induction "32 - l" arbitrary: l rule: less_induct)
  case less
  have "(of_nat (length xs) :: uint32) AND push_bit l 1 = 0 \<longleftrightarrow> even (length (complete l xs))"
    using count_bit [of "length xs" l] assms(2) by (simp add: bit_length_complete)
  note bit = this
  show ?case
  proof (cases "even (length (complete l xs))")
    case True
    have "l \<noteq> 31"
    proof
      assume "l = 31"
      then have "\<forall>b < 31. even (length (complete b xs))" using less.prems(2) by simp
      then have "2 ^ 31 dvd length xs" by (rule complete_rows_dvd)
      moreover have "length xs > 0" using assms(1) by simp
      ultimately have "length xs = 2 ^ 31" using assms(2) dvd_imp_le le_antisym by blast
      then show False using True \<open>l = 31\<close> by (simp add: length_complete)
    qed
    then have "32 - Suc l < 32 - l" "Suc l \<le> 31" using less.prems(1) by auto
    from less.hyps [OF this] less.prems True
    obtain l' where "Suc l \<le> l'" "lowest_level (of_nat (length xs)) (Suc l) = Ok l'" "l' \<le> 31"
        "odd (length (complete l' xs))" "\<forall>b < l'. even (length (complete b xs))"
      by (auto simp: less_Suc_eq)
    then show ?thesis using bit True less.prems(1) by (subst lowest_level.simps) (auto intro!: exI [of _ l'])
  next
    case False
    then show ?thesis using bit less.prems by (subst lowest_level.simps) auto
  qed
qed

lemma MerkleComputation_ok:
  assumes "xs \<noteq> []" "length xs \<le> 2 ^ 31" "pb \<longrightarrow> p < length xs" "p < 2 ^ 32"
  shows "\<exists>mut br. MerkleComputation pb xs (of_nat p) = Ok (merkle_root xs, mut, br) \<and> (pb \<longrightarrow> br = merkle_branch xs p)"
proof -
  let ?s0 = "\<lparr>mutated = False, inner = replicate 32 0, matchlevel = -1, branch = []\<rparr>"
  have "complete b [] = []" for b using length_complete [of b "[]"] by simp
  then have "leaves_ok pb p [] ?s0" by (simp add: leaves_ok_def inner_ok_def untracked_def)
  from process_leaves_ok [OF this _ assms(4), of xs] assms(2) obtain s
    where s: "process_leaves pb (of_nat p) 0 ?s0 xs = Ok s" "leaves_ok pb p xs s" by auto
  obtain l where l: "lowest_level (of_nat (length xs)) 0 = Ok l" "l \<le> 31" "odd (length (complete l xs))"
      "\<forall>b < l. even (length (complete b xs))"
    using lowest_level_row [OF assms(1,2), of 0] by auto
  note start = sweep_start [OF s(2) assms(3) l(2-4)]
  have "odd (length (row l xs))" using l(3) complete_rows_row [OF l(4)] by simp
  from sweep_border [OF start(1) this assms(2)] assms(3) obtain s' where
    "sweep pb (of_nat (length xs)) s l (inner s ! l) (matchlevel s = int l) = Ok (s', merkle_root xs)"
    "pb \<longrightarrow> branch s' = merkle_branch xs p" unfolding start(2) by blast
  then show ?thesis using s(1) l(1) assms(1) by (simp add: MerkleComputation_def)
qed

lemma root_from_branch:
  assumes "nIndex < 2 ^ 32"
  shows "ComputeMerkleRootFromBranch h br (of_nat nIndex) = fold_branch h br (int nIndex)"
  using assms
proof (induction br arbitrary: h nIndex)
  case (Cons b br)
  have "(of_nat nIndex :: uint32) AND 1 \<noteq> 0 \<longleftrightarrow> int nIndex AND 1 \<noteq> 0"
    using count_bit [OF Cons.prems, of 0] by (simp add: bit_0 and_one_eq flip: odd_iff_mod_2_eq_one)
  moreover have "drop_bit 1 (of_nat nIndex :: uint32) = of_nat (nIndex div 2)"
    using Cons.prems unfolding word_unat_eq_iff unsigned_drop_bit_eq
    by (simp add: unsigned_of_nat take_bit_nat_eq_self drop_bit_eq_div)
  moreover have "drop_bit 1 (int nIndex) = int (nIndex div 2)" by (simp add: drop_bit_eq_div zdiv_int)
  ultimately show ?case using Cons by simp
qed simp

text \<open>
  C36: the constant-space computation agrees with the tree in memory: for up to \<open>2 ^ 31\<close> leaves
  \<open>ComputeMerkleRoot\<close> returns the root that \<open>BuildMerkleTree\<close> computes, \<open>ComputeMerkleBranch\<close> returns for every
  position the branch that \<open>GetMerkleBranch\<close> reads from the tree, and \<open>ComputeMerkleRootFromBranch\<close> leads from
  the leaf along it to the root.
\<close>

theorem constant_space_root_and_branch:
  assumes "length leaves \<le> 2 ^ 31" "i < length leaves"
  shows "case BuildMerkleTree leaves of (root, mut, tree) \<Rightarrow>
    (\<exists>m. ComputeMerkleRoot leaves = Ok (root, m)) \<and>
    ComputeMerkleBranch leaves (of_nat i) = GetMerkleBranch leaves tree (int i) \<and>
    (\<exists>br. ComputeMerkleBranch leaves (of_nat i) = Ok br \<and> ComputeMerkleRootFromBranch (leaves ! i) br (of_nat i) = root)"
proof -
  obtain mut where b: "BuildMerkleTree leaves = (merkle_root leaves, mut, rows leaves)" using BuildMerkleTree_rows by blast
  have ne: "leaves \<noteq> []" and i: "i < 2 ^ 32" using assms by auto
  have "of_nat 4294967295 = (-1 :: uint32)" by simp
  with MerkleComputation_ok [OF ne assms(1), of False 4294967295]
  have "\<exists>mut' br'. MerkleComputation False leaves (-1) = Ok (merkle_root leaves, mut', br')" by (simp del: of_nat_numeral)
  then have "\<exists>m. ComputeMerkleRoot leaves = Ok (merkle_root leaves, m)" by (auto simp: ComputeMerkleRoot_def)
  moreover have br: "ComputeMerkleBranch leaves (of_nat i) = Ok (merkle_branch leaves i)"
    using MerkleComputation_ok [OF ne assms(1), of True i] assms(2) i by (auto simp: ComputeMerkleBranch_def)
  moreover have "GetMerkleBranch leaves (rows leaves) (int i) = Ok (merkle_branch leaves i)"
    using branch_rows_branch [OF assms(2), of "[]"] BuildMerkleTree_rows [of leaves]
    by (simp add: GetMerkleBranch_def Let_def) (metis snd_conv)
  moreover have "ComputeMerkleRootFromBranch (leaves ! i) (merkle_branch leaves i) (of_nat i) = merkle_root leaves"
    using root_from_branch [OF i] fold_branch_root [OF assms(2)] by simp
  ultimately show ?thesis unfolding b by simp
qed

theorem constant_space_root_and_branch_witness:
  "case BuildMerkleTree [1, 2, 3] of (root, mut, tree) \<Rightarrow>
    (\<exists>m. ComputeMerkleRoot [1, 2, 3] = Ok (root, m)) \<and>
    ComputeMerkleBranch [1, 2, 3] (of_nat 2) = GetMerkleBranch [1, 2, 3] tree (int 2) \<and>
    (\<exists>br. ComputeMerkleBranch [1, 2, 3] (of_nat 2) = Ok br \<and>
      ComputeMerkleRootFromBranch ([1, 2, 3] ! 2) br (of_nat 2) = root)"
  by (rule constant_space_root_and_branch) simp_all

end
