(* ===== verification/PartialMerkle.thy ===== *)
theory PartialMerkle
  imports MerkleRoot
begin

text \<open>
  Partial Merkle trees, \<open>src/src/merkleblock.h\<close> and \<open>merkleblock.cpp\<close>: a block's transaction ids are pruned
  to the branches over a chosen subset, sent as bits and hashes, and the receiver recomputes the root
  and the subset. The traversals are recursive over the height as in the source.
\<close>

section \<open>The partial tree\<close>

definition MAX_BLOCK_SIZE_CURRENT :: uint32 where
  "MAX_BLOCK_SIZE_CURRENT = 2000000"

record CPartialMerkleTree =
  nTransactions :: uint32
  vBits :: "bool list"
  vHash :: "uint256 list"
  fBad :: bool

definition CPartialMerkleTree_default :: CPartialMerkleTree where
  "CPartialMerkleTree_default = \<lparr>nTransactions = 0, vBits = [], vHash = [], fBad = True\<rparr>"

definition CalcTreeWidth :: "uint32 \<Rightarrow> nat \<Rightarrow> uint32" where
  "CalcTreeWidth n height = drop_bit height (n + push_bit height 1 - 1)"

text \<open>The loop \<open>while (CalcTreeWidth(nHeight) > 1) nHeight++\<close>; a shift by 32 would be undefined.\<close>

function height_loop :: "uint32 \<Rightarrow> nat \<Rightarrow> (unit, nat) outcome" where
  "height_loop n nHeight =
     (if nHeight \<ge> 32 then Abort
      else if CalcTreeWidth n nHeight > 1 then height_loop n (nHeight + 1) else Ok nHeight)"
  by pat_completeness auto
termination
  by (relation "measure (\<lambda>(n, nHeight). 32 - nHeight)") auto

declare height_loop.simps [simp del]

fun CalcHash :: "uint32 \<Rightarrow> nat \<Rightarrow> uint32 \<Rightarrow> uint256 list \<Rightarrow> (unit, uint256) outcome" where
  "CalcHash n 0 pos vTxid = (if unat pos < length vTxid then Ok (vTxid ! unat pos) else Abort)"
| "CalcHash n (Suc height) pos vTxid =
     bindO (CalcHash n height (pos * 2) vTxid) (\<lambda>left.
     bindO (if pos * 2 + 1 < CalcTreeWidth n height then CalcHash n height (pos * 2 + 1) vTxid else Ok left) (\<lambda>right.
     Ok (hash_pair left right)))"

text \<open>The loop that looks for a matched transaction below a node.\<close>

function match_loop :: "uint32 \<Rightarrow> uint32 \<Rightarrow> bool list \<Rightarrow> uint32 \<Rightarrow> bool \<Rightarrow> (unit, bool) outcome" where
  "match_loop hi n vMatch p fParentOfMatch =
     (if p < hi \<and> p < n
      then if unat p < length vMatch then match_loop hi n vMatch (p + 1) (fParentOfMatch \<or> vMatch ! unat p) else Abort
      else Ok fParentOfMatch)"
  by pat_completeness auto
termination
proof (relation "measure (\<lambda>(hi, n, vMatch, p, f). unat n - unat p)")
  fix hi n p :: uint32 and vMatch :: "bool list" and f
  assume "p < hi \<and> p < n"
  then have "unat p < unat n" by (simp add: word_less_nat_alt)
  moreover have "unat n < 2 ^ LENGTH(32)" by (rule unsigned_less)
  ultimately have "unat p < unat n" "unat p + unat (1 :: uint32) < 2 ^ LENGTH(32)" by simp_all
  then have "unat p < unat n" "unat (p + 1) = unat p + unat (1 :: uint32)" by (simp_all only: unat_add_lem)
  then show "((hi, n, vMatch, p + 1, f \<or> vMatch ! unat p), hi, n, vMatch, p, f) \<in> measure (\<lambda>(hi, n, vMatch, p, f). unat n - unat p)"
    by simp
qed simp

declare match_loop.simps [simp del]

fun TraverseAndBuild ::
    "nat \<Rightarrow> uint32 \<Rightarrow> uint256 list \<Rightarrow> bool list \<Rightarrow> CPartialMerkleTree \<Rightarrow> (unit, CPartialMerkleTree) outcome" where
  "TraverseAndBuild height pos vTxid vMatch t =
     bindO (match_loop (push_bit height (pos + 1)) (nTransactions t) vMatch (push_bit height pos) False) (\<lambda>fParentOfMatch.
     let t = t\<lparr>vBits := vBits t @ [fParentOfMatch]\<rparr> in
     if height = 0 \<or> \<not> fParentOfMatch
     then bindO (CalcHash (nTransactions t) height pos vTxid) (\<lambda>h. Ok (t\<lparr>vHash := vHash t @ [h]\<rparr>))
     else bindO (TraverseAndBuild (height - 1) (pos * 2) vTxid vMatch t) (\<lambda>t.
       if pos * 2 + 1 < CalcTreeWidth (nTransactions t) (height - 1)
       then TraverseAndBuild (height - 1) (pos * 2 + 1) vTxid vMatch t else Ok t))"

definition CPartialMerkleTree_of :: "uint256 list \<Rightarrow> bool list \<Rightarrow> (unit, CPartialMerkleTree) outcome" where
  "CPartialMerkleTree_of vTxid vMatch =
     (let t = \<lparr>nTransactions = of_nat (length vTxid), vBits = [], vHash = [], fBad = False\<rparr> in
      bindO (height_loop (nTransactions t) 0) (\<lambda>nHeight. TraverseAndBuild nHeight 0 vTxid vMatch t))"

text \<open>What the extraction changes: the flag, the two positions and the matches.\<close>

record extract_state =
  xBad :: bool
  nBitsUsed :: uint32
  nHashUsed :: uint32
  xMatch :: "uint256 list"

fun TraverseAndExtract :: "CPartialMerkleTree \<Rightarrow> nat \<Rightarrow> uint32 \<Rightarrow> extract_state \<Rightarrow> uint256 \<times> extract_state" where
  "TraverseAndExtract t height pos x =
     (if unat (nBitsUsed x) \<ge> length (vBits t) then (0, x\<lparr>xBad := True\<rparr>)
      else let fParentOfMatch = vBits t ! unat (nBitsUsed x); x = x\<lparr>nBitsUsed := nBitsUsed x + 1\<rparr> in
      if height = 0 \<or> \<not> fParentOfMatch
      then if unat (nHashUsed x) \<ge> length (vHash t) then (0, x\<lparr>xBad := True\<rparr>)
           else let h = vHash t ! unat (nHashUsed x); x = x\<lparr>nHashUsed := nHashUsed x + 1\<rparr>
                in (h, if height = 0 \<and> fParentOfMatch then x\<lparr>xMatch := xMatch x @ [h]\<rparr> else x)
      else let (left, x) = TraverseAndExtract t (height - 1) (pos * 2) x;
               (right, x) = (if pos * 2 + 1 < CalcTreeWidth (nTransactions t) (height - 1)
                             then TraverseAndExtract t (height - 1) (pos * 2 + 1) x else (left, x))
           in (hash_pair left right, x))"

declare TraverseAndBuild.simps [simp del] TraverseAndExtract.simps [simp del]

text \<open>The root, the matches, and the object with its flag.\<close>

definition ExtractMatches :: "CPartialMerkleTree \<Rightarrow> (unit, uint256 \<times> uint256 list \<times> CPartialMerkleTree) outcome" where
  "ExtractMatches t =
     (if nTransactions t = 0 then Ok (0, [], t)
      else if nTransactions t > MAX_BLOCK_SIZE_CURRENT div 60 then Ok (0, [], t)
      else if length (vHash t) > unat (nTransactions t) then Ok (0, [], t)
      else if length (vBits t) < length (vHash t) then Ok (0, [], t)
      else bindO (height_loop (nTransactions t) 0) (\<lambda>nHeight.
        let (hashMerkleRoot, x) =
              TraverseAndExtract t nHeight 0 \<lparr>xBad = fBad t, nBitsUsed = 0, nHashUsed = 0, xMatch = []\<rparr>;
            t = t\<lparr>fBad := xBad x\<rparr>
        in if fBad t then Ok (0, xMatch x, t)
           else if unat ((nBitsUsed x + 7) div 8) \<noteq> (length (vBits t) + 7) div 8 then Ok (0, xMatch x, t)
           else if unat (nHashUsed x) \<noteq> length (vHash t) then Ok (0, xMatch x, t)
           else Ok (hashMerkleRoot, xMatch x, t)))"

section \<open>Serialization\<close>

text \<open>The loops that pack the bits into bytes and unpack them.\<close>

definition pack_bit :: "bool list \<Rightarrow> byte list \<Rightarrow> nat \<Rightarrow> byte list" where
  "pack_bit bits vBytes p = vBytes[p div 8 := vBytes ! (p div 8) OR push_bit (p mod 8) (of_bool (bits ! p))]"

definition pack_bits :: "bool list \<Rightarrow> byte list" where
  "pack_bits bits = foldl (pack_bit bits) (replicate ((length bits + 7) div 8) 0) [0..<length bits]"

definition unpack_bits :: "byte list \<Rightarrow> bool list" where
  "unpack_bits vBytes = map (\<lambda>p. vBytes ! (p div 8) AND push_bit (p mod 8) 1 \<noteq> 0) [0..<length vBytes * 8]"

definition Serialize_CPartialMerkleTree :: "CPartialMerkleTree \<Rightarrow> byte list" where
  "Serialize_CPartialMerkleTree t =
     Serialize_word (nTransactions t) @ Serialize_vector Serialize_word (vHash t) @ Serialize_bytes (pack_bits (vBits t))"

definition Unserialize_CPartialMerkleTree :: "CPartialMerkleTree reader" where
  "Unserialize_CPartialMerkleTree s =
     bindO (Unserialize_word s) (\<lambda>(n, s). bindO (Unserialize_vector Unserialize_word s) (\<lambda>(hs, s).
     bindO (Unserialize_bytes s) (\<lambda>(vBytes, s).
       Ok (\<lparr>nTransactions = n, vBits = unpack_bits vBytes, vHash = hs, fBad = False\<rparr>, s))))"

section \<open>Positions\<close>

lemma length_row: "length (row h xs) = (length xs + 2 ^ h - 1) div 2 ^ h"
proof (induction h)
  case (Suc h)
  have "length (row (Suc h) xs) = ((length xs + 2 ^ h - 1) div 2 ^ h + 1) div 2" by (simp add: row_simps Suc)
  also have "(length xs + 2 ^ h - 1) div 2 ^ h + 1 = (length xs + 2 ^ Suc h - 1) div 2 ^ h"
  proof -
    have "length xs + 2 ^ Suc h - 1 = (length xs + 2 ^ h - 1) + 2 ^ h" by simp
    moreover have "(length xs + 2 ^ h - 1 + 2 ^ h) div 2 ^ h = (length xs + 2 ^ h - 1) div 2 ^ h + 1"
      by (rule div_add_self2) simp
    ultimately show ?thesis by (simp only:)
  qed
  finally show ?case by (simp only: power_Suc2 div_mult2_eq)
qed (simp add: row_simps)

lemma uint32_of_nat: "k < 2 ^ 32 \<Longrightarrow> unat (of_nat k :: uint32) = k"
  by (simp add: unsigned_of_nat take_bit_nat_eq_self)

lemma uint32_less: "j < 2 ^ 32 \<Longrightarrow> k < 2 ^ 32 \<Longrightarrow> (of_nat j :: uint32) < of_nat k \<longleftrightarrow> j < k"
  by (simp add: word_less_nat_alt uint32_of_nat)

lemma row_lt: "length xs \<le> 2 ^ 31 \<Longrightarrow> h \<le> 31 \<Longrightarrow> length (row h xs) * 2 ^ h < 2 ^ 32" "length xs \<le> 2 ^ 31 \<Longrightarrow> length (row h xs) \<le> 2 ^ 31"
proof -
  show "length xs \<le> 2 ^ 31 \<Longrightarrow> h \<le> 31 \<Longrightarrow> length (row h xs) * 2 ^ h < 2 ^ 32" using level_bound [of xs h] by simp
  assume "length xs \<le> 2 ^ 31"
  then show "length (row h xs) \<le> 2 ^ 31" by (intro length_row_bound) (simp add: order_trans [of _ "2 ^ 31"])
qed

lemma CalcTreeWidth_row:
  assumes "length xs \<le> 2 ^ 31" "h \<le> 31"
  shows "CalcTreeWidth (of_nat (length xs)) h = of_nat (length (row h xs))"
proof -
  have "(2 :: nat) ^ h \<le> 2 ^ 31" using assms(2) by (intro power_increasing) auto
  then have lt: "length xs + 2 ^ h - 1 < 2 ^ 32" using assms(1) by simp
  have "(of_nat (length xs) + push_bit h 1 - 1 :: uint32) = of_nat (length xs + 2 ^ h - 1)"
  proof -
    have "1 \<le> length xs + 2 ^ h" by (simp add: trans_le_add2)
    from of_nat_diff [OF this, where ?'a = uint32] show ?thesis by (simp add: push_bit_of_1)
  qed
  then have "unat (CalcTreeWidth (of_nat (length xs)) h) = length (row h xs)"
    unfolding CalcTreeWidth_def unsigned_drop_bit_eq using lt
    by (simp add: unsigned_of_nat take_bit_nat_eq_self drop_bit_eq_div length_row del: of_nat_add)
  moreover have "length (row h xs) \<le> 2 ^ 31" using assms(1) by (rule row_lt(2))
  ultimately show ?thesis by (simp add: word_unat_eq_iff uint32_of_nat)
qed

lemma CalcHash_row:
  assumes "length xs \<le> 2 ^ 31"
  shows "h \<le> 31 \<Longrightarrow> pos < length (row h xs) \<Longrightarrow> CalcHash (of_nat (length xs)) h (of_nat pos) xs = Ok (row h xs ! pos)"
proof (induction h arbitrary: pos)
  case 0
  then show ?case using assms by (simp add: uint32_of_nat row_simps)
next
  case (Suc h)
  let ?w = "length (row h xs)"
  have w: "?w \<le> 2 ^ 31" "2 * pos < ?w" using row_lt(2) [OF assms, of h] Suc.prems(2) by (auto simp: row_simps)
  have pos: "of_nat pos * 2 = (of_nat (2 * pos) :: uint32)" "of_nat pos * 2 + 1 = (of_nat (2 * pos + 1) :: uint32)" by simp_all
  have less: "(of_nat pos * 2 + 1 :: uint32) < of_nat ?w \<longleftrightarrow> 2 * pos + 1 < ?w"
    unfolding pos(2) using w by (intro uint32_less) auto
  have left: "CalcHash (of_nat (length xs)) h (of_nat pos * 2) xs = Ok (row h xs ! (2 * pos))"
    unfolding pos(1) using Suc.prems w by (intro Suc.IH) auto
  have right: "CalcHash (of_nat (length xs)) h (of_nat pos * 2 + 1) xs = Ok (row h xs ! (2 * pos + 1))" if "2 * pos + 1 < ?w"
    unfolding pos(2) using Suc.prems that by (intro Suc.IH) auto
  have "row (Suc h) xs ! pos = hash_pair (row h xs ! (2 * pos)) (row h xs ! min (2 * pos + 1) (?w - 1))"
    using Suc.prems(2) by (simp add: row_simps nth_level)
  moreover have "min (2 * pos + 1) (?w - 1) = 2 * pos" if "\<not> 2 * pos + 1 < ?w" using that w by simp
  moreover have "CalcTreeWidth (of_nat (length xs)) h = of_nat ?w" using assms Suc.prems(1) by (intro CalcTreeWidth_row) auto
  ultimately show ?case unfolding CalcHash.simps using left right less
    by (cases "2 * pos + 1 < ?w") simp_all
qed

lemma match_loop_any:
  assumes "n < 2 ^ 32" "hi < 2 ^ 32" "n \<le> length vMatch"
  shows "p < 2 ^ 32 \<Longrightarrow> match_loop (of_nat hi) (of_nat n) vMatch (of_nat p) f = Ok (f \<or> (\<exists>i. p \<le> i \<and> i < hi \<and> i < n \<and> vMatch ! i))"
proof (induction "n - p" arbitrary: p f rule: less_induct)
  case less
  have cond: "(of_nat p :: uint32) < of_nat hi \<and> (of_nat p :: uint32) < of_nat n \<longleftrightarrow> p < hi \<and> p < n"
    using less.prems assms by (simp add: uint32_less)
  show ?case
  proof (cases "p < hi \<and> p < n")
    case True
    have "match_loop (of_nat hi) (of_nat n) vMatch (of_nat (p + 1)) (f \<or> vMatch ! p) =
        Ok ((f \<or> vMatch ! p) \<or> (\<exists>i. p + 1 \<le> i \<and> i < hi \<and> i < n \<and> vMatch ! i))"
      using True assms(1) by (intro less.hyps) auto
    moreover have "(f \<or> vMatch ! p) \<or> (\<exists>i. p + 1 \<le> i \<and> i < hi \<and> i < n \<and> vMatch ! i) \<longleftrightarrow>
        f \<or> (\<exists>i. p \<le> i \<and> i < hi \<and> i < n \<and> vMatch ! i)"
    proof -
      have le: "p \<le> i \<longleftrightarrow> i = p \<or> p + 1 \<le> i" for i by auto
      show ?thesis unfolding le using True by auto
    qed
    moreover have "(of_nat p :: uint32) + 1 = of_nat (p + 1)" by simp
    moreover have "match_loop (of_nat hi) (of_nat n) vMatch (of_nat p) f =
        match_loop (of_nat hi) (of_nat n) vMatch (of_nat p + 1) (f \<or> vMatch ! p)"
      using True cond less.prems assms(3) uint32_of_nat [of p] by (subst match_loop.simps) simp
    ultimately show ?thesis by (simp only:)
  next
    case False
    then have "\<not> (\<exists>i. p \<le> i \<and> i < hi \<and> i < n \<and> vMatch ! i)" by auto
    then show ?thesis using False cond by (subst match_loop.simps) auto
  qed
qed

section \<open>What is built\<close>

text \<open>The transactions below a node, whether one of them is matched, and the matched ones.\<close>

definition leaves :: "nat \<Rightarrow> nat \<Rightarrow> nat \<Rightarrow> nat list" where
  "leaves n h pos = [pos * 2 ^ h..<min n ((pos + 1) * 2 ^ h)]"

definition parent :: "nat \<Rightarrow> bool list \<Rightarrow> nat \<Rightarrow> nat \<Rightarrow> bool" where
  "parent n M h pos \<longleftrightarrow> (\<exists>i \<in> set (leaves n h pos). M ! i)"

definition matched :: "uint256 list \<Rightarrow> bool list \<Rightarrow> nat \<Rightarrow> nat \<Rightarrow> uint256 list" where
  "matched xs M h pos = map ((!) xs) (filter ((!) M) (leaves (length xs) h pos))"

fun tree_bits :: "uint256 list \<Rightarrow> bool list \<Rightarrow> nat \<Rightarrow> nat \<Rightarrow> bool list" where
  "tree_bits xs M 0 pos = [parent (length xs) M 0 pos]"
| "tree_bits xs M (Suc h) pos = parent (length xs) M (Suc h) pos #
     (if parent (length xs) M (Suc h) pos
      then tree_bits xs M h (2 * pos) @ (if 2 * pos + 1 < length (row h xs) then tree_bits xs M h (2 * pos + 1) else []) else [])"

fun tree_hashes :: "uint256 list \<Rightarrow> bool list \<Rightarrow> nat \<Rightarrow> nat \<Rightarrow> uint256 list" where
  "tree_hashes xs M 0 pos = [xs ! pos]"
| "tree_hashes xs M (Suc h) pos =
     (if parent (length xs) M (Suc h) pos
      then tree_hashes xs M h (2 * pos) @ (if 2 * pos + 1 < length (row h xs) then tree_hashes xs M h (2 * pos + 1) else [])
      else [row (Suc h) xs ! pos])"

lemma leaves_Suc: "leaves n (Suc h) pos = leaves n h (2 * pos) @ leaves n h (2 * pos + 1)"
proof -
  let ?m = "(2 * pos + 1) * 2 ^ h"
  have eq: "pos * 2 ^ Suc h = 2 * pos * 2 ^ h" "(pos + 1) * 2 ^ Suc h = (2 * pos + 1 + 1) * 2 ^ h" by (simp_all add: algebra_simps)
  have le: "2 * pos * 2 ^ h \<le> ?m" "?m \<le> (2 * pos + 1 + 1) * 2 ^ h" by (simp_all add: algebra_simps)
  show ?thesis
  proof (cases "n \<le> ?m")
    case True
    then show ?thesis unfolding leaves_def eq using le by (simp add: min_absorb1)
  next
    case False
    then have "min n ?m = ?m" "?m \<le> min n ((2 * pos + 1 + 1) * 2 ^ h)" using le by auto
    moreover obtain k where "min n ((2 * pos + 1 + 1) * 2 ^ h) = ?m + k" using calculation(2) le_Suc_ex by blast
    ultimately show ?thesis unfolding leaves_def eq using upt_add_eq_append [OF le(1), of k] by simp
  qed
qed

lemma leaves_beyond: "length (row h xs) \<le> pos \<Longrightarrow> leaves (length xs) h pos = []"
proof -
  assume "length (row h xs) \<le> pos"
  then have "length (row h xs) * 2 ^ h \<le> pos * 2 ^ h" by simp
  then have "length xs \<le> pos * 2 ^ h" using length_row_covers [of xs h] by (rule order_trans [rotated])
  then show ?thesis by (simp add: leaves_def min.coboundedI1)
qed

lemma matched_Suc: "matched xs M (Suc h) pos = matched xs M h (2 * pos) @ matched xs M h (2 * pos + 1)"
  by (simp only: matched_def leaves_Suc filter_append map_append)

lemma matched_parent: "\<not> parent (length xs) M h pos \<Longrightarrow> matched xs M h pos = []"
  by (simp add: parent_def matched_def filter_empty_conv)

lemma matched_0: "pos < length xs \<Longrightarrow> matched xs M 0 pos = (if parent (length xs) M 0 pos then [xs ! pos] else [])"
  by (simp add: matched_def parent_def leaves_def upt_conv_Cons)

lemma children:
  assumes "length xs \<le> 2 ^ 31" "Suc h \<le> 31" "pos < length (row (Suc h) xs)"
  shows "of_nat pos * 2 = (of_nat (2 * pos) :: uint32)" "of_nat pos * 2 + 1 = (of_nat (2 * pos + 1) :: uint32)"
    "(of_nat pos * 2 + 1 :: uint32) < CalcTreeWidth (of_nat (length xs)) h \<longleftrightarrow> 2 * pos + 1 < length (row h xs)"
    "2 * pos < length (row h xs)" "h \<le> 31"
proof -
  show c: "of_nat pos * 2 + 1 = (of_nat (2 * pos + 1) :: uint32)" by simp
  show lt: "2 * pos < length (row h xs)" "h \<le> 31" using assms by (auto simp: row_simps)
  show "(of_nat pos * 2 + 1 :: uint32) < CalcTreeWidth (of_nat (length xs)) h \<longleftrightarrow> 2 * pos + 1 < length (row h xs)"
    unfolding CalcTreeWidth_row [OF assms(1) lt(2)] c using lt row_lt(2) [OF assms(1), of h] by (intro uint32_less) auto
qed simp_all

lemma match_loop_parent:
  assumes "length xs \<le> 2 ^ 31" "h \<le> 31" "pos < length (row h xs)" "length M = length xs"
  shows "match_loop (push_bit h (of_nat pos + 1)) (of_nat (length xs)) M (push_bit h (of_nat pos)) False =
    Ok (parent (length xs) M h pos)"
proof -
  have "(pos + 1) * 2 ^ h \<le> length (row h xs) * 2 ^ h" using assms(3) by (intro mult_right_mono) auto
  then have lt: "(pos + 1) * 2 ^ h < 2 ^ 32" using row_lt(1) [OF assms(1,2)] by (rule le_less_trans)
  then have lt': "pos * 2 ^ h < 2 ^ 32" by (simp add: algebra_simps)
  have "push_bit h (of_nat pos + 1) = (of_nat ((pos + 1) * 2 ^ h) :: uint32)" "push_bit h (of_nat pos) = (of_nat (pos * 2 ^ h) :: uint32)"
    by (simp_all add: push_bit_eq_mult algebra_simps)
  moreover have "(\<exists>i. pos * 2 ^ h \<le> i \<and> i < (pos + 1) * 2 ^ h \<and> i < length xs \<and> M ! i) \<longleftrightarrow> parent (length xs) M h pos"
    by (auto simp: parent_def leaves_def)
  ultimately show ?thesis using match_loop_any [of "length xs" "(pos + 1) * 2 ^ h" M "pos * 2 ^ h" False] assms lt lt'
    by (simp del: of_nat_add of_nat_mult)
qed

lemma TraverseAndBuild_tree:
  assumes n: "length xs \<le> 2 ^ 31" and M: "length M = length xs"
  shows "h \<le> 31 \<Longrightarrow> pos < length (row h xs) \<Longrightarrow> nTransactions t = of_nat (length xs) \<Longrightarrow>
    TraverseAndBuild h (of_nat pos) xs M t =
      Ok (t\<lparr>vBits := vBits t @ tree_bits xs M h pos, vHash := vHash t @ tree_hashes xs M h pos\<rparr>)"
proof (induction h arbitrary: pos t)
  case 0
  then show ?case using match_loop_parent [OF n, of 0 pos M] CalcHash_row [OF n, of 0 pos] M
    by (subst TraverseAndBuild.simps) (simp add: row_simps)
next
  case (Suc h)
  note ml = match_loop_parent [OF n Suc.prems(1,2) M]
  note ch = children [OF n Suc.prems(1,2)]
  show ?case
  proof (cases "parent (length xs) M (Suc h) pos")
    case False
    then show ?thesis using ml CalcHash_row [OF n Suc.prems(1,2)] Suc.prems(3)
      by (subst TraverseAndBuild.simps) (simp del: CalcHash.simps)
  next
    case True
    let ?t = "t\<lparr>vBits := vBits t @ [True]\<rparr>"
    let ?l = "?t\<lparr>vBits := vBits ?t @ tree_bits xs M h (2 * pos), vHash := vHash ?t @ tree_hashes xs M h (2 * pos)\<rparr>"
    have left: "TraverseAndBuild h (of_nat pos * 2) xs M ?t = Ok ?l"
      unfolding ch(1) using Suc.IH [OF ch(5,4), of ?t] Suc.prems(3) by simp
    have right: "TraverseAndBuild h (of_nat pos * 2 + 1) xs M ?l =
        Ok (?l\<lparr>vBits := vBits ?l @ tree_bits xs M h (2 * pos + 1), vHash := vHash ?l @ tree_hashes xs M h (2 * pos + 1)\<rparr>)"
      if "2 * pos + 1 < length (row h xs)"
      unfolding ch(2) using Suc.IH [OF ch(5) that, of ?l] Suc.prems(3) by simp
    have "TraverseAndBuild (Suc h) (of_nat pos) xs M t = bindO (TraverseAndBuild h (of_nat pos * 2) xs M ?t) (\<lambda>t.
        if of_nat pos * 2 + 1 < CalcTreeWidth (nTransactions t) h then TraverseAndBuild h (of_nat pos * 2 + 1) xs M t else Ok t)"
      using ml True Suc.prems(3) by (subst TraverseAndBuild.simps) (simp cong: if_cong)
    then show ?thesis using left right ch(3) Suc.prems(3) True
      by (cases "2 * pos + 1 < length (row h xs)") (simp_all del: of_nat_add of_nat_mult of_nat_Suc)
  qed
qed

section \<open>What is extracted\<close>

lemma nth_middle: "k < length ys \<Longrightarrow> (xs @ ys @ zs) ! (length xs + k) = ys ! k"
  by (simp add: nth_append)

lemma TraverseAndExtract_tree:
  assumes n: "length xs \<le> 2 ^ 31" and t: "nTransactions t = of_nat (length xs)"
    "length (vBits t) < 2 ^ 32" "length (vHash t) < 2 ^ 32"
  shows "h \<le> 31 \<Longrightarrow> pos < length (row h xs) \<Longrightarrow>
    vBits t = b0 @ tree_bits xs M h pos @ b1 \<Longrightarrow> vHash t = h0 @ tree_hashes xs M h pos @ h1 \<Longrightarrow>
    nBitsUsed x = of_nat (length b0) \<Longrightarrow> nHashUsed x = of_nat (length h0) \<Longrightarrow>
    TraverseAndExtract t h (of_nat pos) x = (row h xs ! pos,
      x\<lparr>nBitsUsed := of_nat (length b0 + length (tree_bits xs M h pos)),
        nHashUsed := of_nat (length h0 + length (tree_hashes xs M h pos)), xMatch := xMatch x @ matched xs M h pos\<rparr>)"
proof (induction h arbitrary: pos x b0 b1 h0 h1)
  case 0
  have u: "unat (nBitsUsed x) = length b0" "unat (nHashUsed x) = length h0"
    using 0 t by (simp_all add: uint32_of_nat)
  then show ?case using 0 by (subst TraverseAndExtract.simps) (auto simp: row_simps matched_0 add.commute Let_def)
next
  case (Suc h)
  note ch = children [OF n Suc.prems(1,2)]
  have u: "unat (nBitsUsed x) = length b0"
    using Suc.prems t by (simp_all add: uint32_of_nat)
  show ?case
  proof (cases "parent (length xs) M (Suc h) pos")
    case False
    then have "unat (nHashUsed x) = length h0" using Suc.prems t by (simp add: uint32_of_nat)
    then show ?thesis using False Suc.prems u
      by (subst TraverseAndExtract.simps) (auto simp: matched_parent add.commute Let_def)
  next
    case True
    let ?x = "x\<lparr>nBitsUsed := nBitsUsed x + 1\<rparr>"
    define rb where "rb = (if 2 * pos + 1 < length (row h xs) then tree_bits xs M h (2 * pos + 1) else [])"
    define rh where "rh = (if 2 * pos + 1 < length (row h xs) then tree_hashes xs M h (2 * pos + 1) else [])"
    let ?lb = "tree_bits xs M h (2 * pos)" and ?lh = "tree_hashes xs M h (2 * pos)"
    have bits: "vBits t = (b0 @ [True]) @ ?lb @ rb @ b1" "vBits t = (b0 @ True # ?lb) @ rb @ b1"
      and hashes: "vHash t = h0 @ ?lh @ rh @ h1" "vHash t = (h0 @ ?lh) @ rh @ h1"
      using Suc.prems True by (simp_all add: rb_def rh_def)
    define l where "l = ?x\<lparr>nBitsUsed := of_nat (length (b0 @ [True]) + length ?lb), nHashUsed := of_nat (length h0 + length ?lh),
      xMatch := xMatch x @ matched xs M h (2 * pos)\<rparr>"
    have left: "TraverseAndExtract t h (of_nat pos * 2) ?x = (row h xs ! (2 * pos), l)"
      unfolding ch(1) using Suc.IH [OF ch(5,4) bits(1) hashes(1), of ?x] Suc.prems(5,6) by (simp add: l_def)
    have right: "TraverseAndExtract t h (of_nat pos * 2 + 1) l = (row h xs ! (2 * pos + 1),
        l\<lparr>nBitsUsed := of_nat (length (b0 @ True # ?lb) + length rb), nHashUsed := of_nat (length (h0 @ ?lh) + length rh),
          xMatch := xMatch l @ matched xs M h (2 * pos + 1)\<rparr>)" if r: "2 * pos + 1 < length (row h xs)"
    proof -
      have e: "rb = tree_bits xs M h (2 * pos + 1)" "rh = tree_hashes xs M h (2 * pos + 1)" using r by (simp_all add: rb_def rh_def)
      show ?thesis unfolding ch(2) using Suc.IH [OF ch(5) r bits(2) [unfolded e] hashes(2) [unfolded e], of l] unfolding e by (simp add: l_def)
    qed
    have step: "TraverseAndExtract t (Suc h) (of_nat pos) x =
        (let (left, x) = TraverseAndExtract t h (of_nat pos * 2) ?x;
             (right, x) = (if of_nat pos * 2 + 1 < CalcTreeWidth (of_nat (length xs)) h
                           then TraverseAndExtract t h (of_nat pos * 2 + 1) x else (left, x))
         in (hash_pair left right, x))"
      using u bits(1) t(1) by (subst TraverseAndExtract.simps) (simp cong: if_cong)
    have "row (Suc h) xs ! pos = hash_pair (row h xs ! (2 * pos)) (row h xs ! min (2 * pos + 1) (length (row h xs) - 1))"
      using Suc.prems(2) by (simp add: row_simps nth_level)
    moreover have "min (2 * pos + 1) (length (row h xs) - 1) = 2 * pos" "matched xs M h (2 * pos + 1) = []"
      if "\<not> 2 * pos + 1 < length (row h xs)"
      using that ch(4) leaves_beyond [of h xs "2 * pos + 1"] by (simp_all add: matched_def)
    ultimately show ?thesis unfolding step left using ch(3) right True matched_Suc [of xs M h pos]
      by (cases "2 * pos + 1 < length (row h xs)")
        (simp_all add: l_def rb_def rh_def ac_simps del: of_nat_mult)
  qed
qed

section \<open>Sizes\<close>

lemma height_loop_row:
  assumes n: "xs \<noteq> []" "length xs \<le> 2 ^ 31"
  shows "h \<le> 31 \<Longrightarrow> \<forall>b < h. length (row b xs) > 1 \<Longrightarrow>
    \<exists>H. height_loop (of_nat (length xs)) h = Ok H \<and> H \<le> 31 \<and> length (row H xs) = 1 \<and> (\<forall>b < H. length (row b xs) > 1)"
proof (induction "32 - h" arbitrary: h rule: less_induct)
  case less
  have "CalcTreeWidth (of_nat (length xs)) h > of_nat 1 \<longleftrightarrow> length (row h xs) > 1"
    unfolding CalcTreeWidth_row [OF n(2) less.prems(1)] using row_lt(2) [OF n(2), of h] by (intro uint32_less) auto
  then have w: "CalcTreeWidth (of_nat (length xs)) h > 1 \<longleftrightarrow> length (row h xs) > 1" by simp
  show ?case
  proof (cases "length (row h xs) > 1")
    case True
    then have "h < 31" using level_lt [OF n(2) less.prems(1)] by simp
    then have "\<exists>H. height_loop (of_nat (length xs)) (h + 1) = Ok H \<and> H \<le> 31 \<and> length (row H xs) = 1 \<and> (\<forall>b < H. length (row b xs) > 1)"
      using less.prems(2) True by (intro less.hyps) (auto simp: less_Suc_eq)
    then show ?thesis using w True \<open>h < 31\<close> by (subst height_loop.simps) simp
  next
    case False
    then have "length (row h xs) = 1" using row_nonempty [OF n(1), of h] by (cases "row h xs") auto
    then show ?thesis using w less.prems by (subst height_loop.simps) simp
  qed
qed

lemma row_pos: "pos < length (row h xs) \<Longrightarrow> pos * 2 ^ h < length xs"
proof (rule ccontr)
  assume pos: "pos < length (row h xs)" and "\<not> pos * 2 ^ h < length xs"
  then have "length xs + 2 ^ h - 1 \<le> pos * 2 ^ h + (2 ^ h - 1)" by simp
  then have "length (row h xs) \<le> (pos * 2 ^ h + (2 ^ h - 1)) div 2 ^ h" unfolding length_row by (rule div_le_mono)
  also have "\<dots> = pos" by (subst div_mult_self3) simp_all
  finally show False using pos by simp
qed

lemma length_tree_hashes: "pos < length (row h xs) \<Longrightarrow> length (tree_hashes xs M h pos) \<le> length (leaves (length xs) h pos)"
proof (induction h arbitrary: pos)
  case (Suc h)
  have "2 * pos < length (row h xs)" using Suc.prems by (auto simp: row_simps)
  then have l: "length (tree_hashes xs M h (2 * pos)) \<le> length (leaves (length xs) h (2 * pos))" by (rule Suc.IH)
  have "pos * 2 ^ Suc h \<in> set (leaves (length xs) (Suc h) pos)"
    using row_pos [OF Suc.prems] by (simp add: leaves_def del: power_Suc)
  then have "0 < length (leaves (length xs) (Suc h) pos)" by (rule length_pos_if_in_set)
  note pos = this
  show ?case
  proof (cases "parent (length xs) M (Suc h) pos")
    case True
    then show ?thesis using l Suc.IH [of "2 * pos + 1"] by (simp add: leaves_Suc add_mono trans_le_add1)
  next
    case False
    then show ?thesis using pos by (simp add: Suc_le_eq)
  qed
qed (simp add: leaves_def row_simps)

lemma length_tree_bits: "length (tree_hashes xs M h pos) \<le> length (tree_bits xs M h pos)" "length (tree_bits xs M h pos) < 2 ^ Suc h"
proof -
  show "length (tree_hashes xs M h pos) \<le> length (tree_bits xs M h pos)"
  proof (induction h arbitrary: pos)
    case (Suc h)
    then show ?case by (auto intro!: le_SucI add_mono)
  qed simp
  show "length (tree_bits xs M h pos) < 2 ^ Suc h"
  proof (induction h arbitrary: pos)
    case (Suc h)
    have "length (tree_bits xs M h (2 * pos)) < 2 ^ Suc h" "length (tree_bits xs M h (2 * pos + 1)) < 2 ^ Suc h"
      by (rule Suc)+
    moreover have "1 \<le> (2 :: nat) ^ h" by simp
    ultimately show ?case by auto
  qed simp
qed

section \<open>Packed bits\<close>

lemma pack_bits_invariant:
  assumes "k \<le> length bits"
  defines "m \<equiv> (length bits + 7) div 8"
  shows "length (foldl (pack_bit bits) (replicate m 0) [0..<k]) = m \<and>
    (\<forall>q < 8 * m. bit (foldl (pack_bit bits) (replicate m 0) [0..<k] ! (q div 8)) (q mod 8) \<longleftrightarrow> q < k \<and> bits ! q)"
  using assms(1)
proof (induction k)
  case (Suc k)
  let ?b = "foldl (pack_bit bits) (replicate m 0) [0..<k]"
  have IH: "length ?b = m" "\<forall>q < 8 * m. bit (?b ! (q div 8)) (q mod 8) \<longleftrightarrow> q < k \<and> bits ! q" using Suc by auto
  have k: "k div 8 < m" "k < 8 * m" using Suc.prems unfolding m_def by linarith+
  have "bit (pack_bit bits ?b k ! (q div 8)) (q mod 8) \<longleftrightarrow> q < Suc k \<and> bits ! q" if q: "q < 8 * m" for q
  proof (cases "q div 8 = k div 8")
    case True
    then have e: "q = k \<longleftrightarrow> q mod 8 = k mod 8" by (metis div_mult_mod_eq)
    have "bit (push_bit (k mod 8) (of_bool (bits ! k)) :: byte) (q mod 8) \<longleftrightarrow> q = k \<and> bits ! k"
      unfolding e by (auto simp: bit_push_bit_iff bit_of_bool_iff)
    then show ?thesis using IH q k(1) True by (auto simp: pack_bit_def bit_or_iff less_Suc_eq)
  next
    case False
    then have "q \<noteq> k" by auto
    then show ?thesis using IH q False by (auto simp: pack_bit_def less_Suc_eq)
  qed
  moreover have "length (pack_bit bits ?b k) = m" using IH(1) by (simp add: pack_bit_def)
  moreover have "foldl (pack_bit bits) (replicate m 0) [0..<Suc k] = pack_bit bits ?b k" by simp
  ultimately show ?case by (simp only:) blast
qed simp

lemma unpack_pack: "unpack_bits (pack_bits bits) = bits @ replicate ((length bits + 7) div 8 * 8 - length bits) False"
  "length (pack_bits bits) = (length bits + 7) div 8"
proof -
  let ?m = "(length bits + 7) div 8"
  show len: "length (pack_bits bits) = ?m" using pack_bits_invariant [of "length bits" bits] by (simp add: pack_bits_def)
  have le: "length bits \<le> ?m * 8" by linarith
  have "(pack_bits bits ! (q div 8) AND push_bit (q mod 8) 1 \<noteq> 0) \<longleftrightarrow> q < length bits \<and> bits ! q" if "q < ?m * 8" for q
    using pack_bits_invariant [of "length bits" bits] that
    by (simp add: pack_bits_def push_bit_of_1 and_exp_eq_0_iff_not_bit mult.commute)
  then show "unpack_bits (pack_bits bits) = bits @ replicate (?m * 8 - length bits) False"
    unfolding unpack_bits_def len using le by (intro nth_equalityI) (auto simp: nth_append)
qed

section \<open>Round trip\<close>

lemma filter_zip_nth: "length xs = length M \<Longrightarrow> map fst (filter snd (zip xs M)) = map ((!) xs) (filter ((!) M) [0..<length xs])"
proof -
  assume len: "length xs = length M"
  then have "zip xs M = map (\<lambda>i. (xs ! i, M ! i)) [0..<length xs]" by (intro nth_equalityI) auto
  then show ?thesis by (simp add: filter_map o_def)
qed

lemma CPartialMerkleTree_of_tree:
  assumes "txids \<noteq> []" "length txids \<le> 2 ^ 31" "length vMatch = length txids"
  obtains H where "height_loop (of_nat (length txids)) 0 = Ok H" "H \<le> 31" "length (row H txids) = 1"
    "\<forall>b < H. length (row b txids) > 1"
    "CPartialMerkleTree_of txids vMatch = Ok \<lparr>nTransactions = of_nat (length txids),
       vBits = tree_bits txids vMatch H 0, vHash = tree_hashes txids vMatch H 0, fBad = False\<rparr>"
proof -
  obtain H where H: "height_loop (of_nat (length txids)) 0 = Ok H" "H \<le> 31" "length (row H txids) = 1"
      "\<forall>b < H. length (row b txids) > 1"
    using height_loop_row [OF assms(1,2), of 0] by auto
  have "TraverseAndBuild H (of_nat 0) txids vMatch \<lparr>nTransactions = of_nat (length txids), vBits = [], vHash = [], fBad = False\<rparr> =
      Ok \<lparr>nTransactions = of_nat (length txids),
       vBits = tree_bits txids vMatch H 0, vHash = tree_hashes txids vMatch H 0, fBad = False\<rparr>"
    using H(2,3) by (subst TraverseAndBuild_tree [OF assms(2,3)]) auto
  then have "CPartialMerkleTree_of txids vMatch = Ok \<lparr>nTransactions = of_nat (length txids),
       vBits = tree_bits txids vMatch H 0, vHash = tree_hashes txids vMatch H 0, fBad = False\<rparr>"
    using H(1) by (simp add: CPartialMerkleTree_of_def Let_def)
  with that H show thesis by blast
qed

lemma matched_all: "length (row H xs) = 1 \<Longrightarrow> length M = length xs \<Longrightarrow> matched xs M H 0 = map fst (filter snd (zip xs M))"
  using length_row_covers [of xs H] by (simp add: filter_zip_nth matched_def leaves_def min_absorb1)

lemma row_top: "length (row H xs) = 1 \<Longrightarrow> \<forall>b < H. length (row b xs) > 1 \<Longrightarrow> row H xs ! 0 = merkle_root xs"
proof -
  assume "length (row H xs) = 1" "\<forall>b < H. length (row b xs) > 1"
  moreover from this obtain z where "row H xs = [z]" by (auto simp: length_Suc_conv)
  ultimately show ?thesis using merkle_root_row [of H xs] merkle_root_rec(2) [of z] by simp
qed

lemma tree_bits_small:
  assumes "length xs \<le> 33333" "\<forall>b < H. length (row b xs) > 1"
  shows "length (tree_bits xs M H pos) < 2 ^ 17"
proof -
  have "H \<le> 16"
  proof (rule ccontr)
    assume "\<not> H \<le> 16"
    then have "length (row 16 xs) > 1" using assms(2) by simp
    moreover have "length (row 16 xs) \<le> 2 ^ 0" using assms(1) by (intro length_row_bound) simp
    ultimately show False by simp
  qed
  then have "(2 :: nat) ^ Suc H \<le> 2 ^ Suc 16" by (intro power_increasing) auto
  then show ?thesis using length_tree_bits(2) [of xs M H pos] by simp
qed

text \<open>Extraction from the tree that was built, with any number of padding bits up to the next byte.\<close>

lemma ExtractMatches_tree:
  assumes n: "txids \<noteq> []" "length txids \<le> 33333" "length vMatch = length txids"
    and H: "height_loop (of_nat (length txids)) 0 = Ok H" "H \<le> 31" "length (row H txids) = 1" "\<forall>b < H. length (row b txids) > 1"
    and pad: "(length bits + pad + 7) div 8 = (length bits + 7) div 8" "pad < 8"
    and t: "t = \<lparr>nTransactions = of_nat (length txids), vBits = bits @ replicate pad False,
      vHash = tree_hashes txids vMatch H 0, fBad = False\<rparr>" "bits = tree_bits txids vMatch H 0"
  shows "ExtractMatches t = Ok (merkle_root txids, map fst (filter snd (zip txids vMatch)), t)"
proof -
  have lb: "length bits < 2 ^ 17" using tree_bits_small [OF n(2) H(4)] t(2) by simp
  have lh: "length (vHash t) \<le> length txids" "length (vHash t) \<le> length bits"
    using length_tree_hashes [of 0 H txids vMatch] length_tree_bits(1) [of txids vMatch H 0] H(3) t by (auto simp: leaves_def)
  let ?x = "\<lparr>xBad = False, nBitsUsed = 0, nHashUsed = 0, xMatch = []\<rparr>"
  have e: "TraverseAndExtract t H (of_nat 0) ?x = (row H txids ! 0,
      ?x\<lparr>nBitsUsed := of_nat (length ([] :: bool list) + length (tree_bits txids vMatch H 0)),
        nHashUsed := of_nat (length ([] :: uint256 list) + length (tree_hashes txids vMatch H 0)), xMatch := xMatch ?x @ matched txids vMatch H 0\<rparr>)"
  proof (rule TraverseAndExtract_tree)
    show "vBits t = [] @ tree_bits txids vMatch H 0 @ replicate pad False" "vHash t = [] @ tree_hashes txids vMatch H 0 @ []"
      using t by simp_all
  qed (use n(2) H(2,3) t(1) pad(2) lb lh in simp_all)
  have "unat ((of_nat (length bits) + 7 :: uint32) div 8) = (length bits + 7) div 8"
  proof -
    have u: "unat (of_nat (length bits + 7) :: uint32) = length bits + 7" using lb by (intro uint32_of_nat) simp
    have e: "of_nat (length bits) + 7 = (of_nat (length bits + 7) :: uint32)" by simp
    show ?thesis unfolding e unat_div u by simp
  qed
  moreover have "unat (of_nat (length (vHash t)) :: uint32) = length (vHash t)" using lh n(2) by (intro uint32_of_nat) simp
  moreover have "nTransactions t \<noteq> 0" "\<not> nTransactions t > MAX_BLOCK_SIZE_CURRENT div 60" "unat (nTransactions t) = length txids"
    using n t by (simp_all add: MAX_BLOCK_SIZE_CURRENT_def word_less_nat_alt word_unat_eq_iff uint32_of_nat)
  ultimately show ?thesis using e H(1) t lh pad row_top [OF H(3,4)] matched_all [OF H(3) n(3)]
    by (simp add: ExtractMatches_def)
qed

interpretation hashes: codec "Serialize_vector (Serialize_word :: uint256 \<Rightarrow> byte list)" "Unserialize_vector Unserialize_word"
  "\<lambda>v. length v \<le> MAX_SIZE \<and> list_all (\<lambda>_. True) v"
  by (rule word256.vector_codec)

lemma Unserialize_CPartialMerkleTree_ser:
  assumes "length (vHash t) \<le> MAX_SIZE" "length (vBits t) \<le> MAX_SIZE" "\<not> fBad t"
  shows "Unserialize_CPartialMerkleTree (Serialize_CPartialMerkleTree t @ rest) =
    Ok (t\<lparr>vBits := vBits t @ replicate ((length (vBits t) + 7) div 8 * 8 - length (vBits t)) False\<rparr>, rest)"
proof -
  have "(length (vBits t) + 7) div 8 \<le> MAX_SIZE" using assms(2) by (simp add: MAX_SIZE_def)
  then have "length (pack_bits (vBits t)) \<le> MAX_SIZE" by (simp add: unpack_pack)
  then show ?thesis using assms(1,3)
    by (simp add: Unserialize_CPartialMerkleTree_def Serialize_CPartialMerkleTree_def word32.bind_unser
        hashes.bind_unser bytes.bind_unser unpack_pack list_all_iff)
qed

text \<open>
  C37: a partial Merkle tree built from a block's transaction ids and a selection, serialized, read back by
  a peer and extracted there, yields the block's Merkle root and exactly the selected ids in block order; no
  step reads outside its arrays. The bound is the number of transactions \<open>ExtractMatches\<close> accepts.
\<close>

theorem partial_merkle_roundtrip:
  assumes "txids \<noteq> []" "length txids \<le> unat (MAX_BLOCK_SIZE_CURRENT div 60)" "length vMatch = length txids"
  shows "\<exists>t t'. CPartialMerkleTree_of txids vMatch = Ok t \<and>
    Unserialize_CPartialMerkleTree (Serialize_CPartialMerkleTree t @ rest) = Ok (t', rest) \<and>
    ExtractMatches t' = Ok (merkle_root txids, map fst (filter snd (zip txids vMatch)), t')"
proof -
  have n: "length txids \<le> 33333" using assms(2) by (simp add: MAX_BLOCK_SIZE_CURRENT_def)
  then have "length txids \<le> 2 ^ 31" by simp
  from CPartialMerkleTree_of_tree [OF assms(1) this assms(3)] obtain H
    where H: "height_loop (of_nat (length txids)) 0 = Ok H" "H \<le> 31" "length (row H txids) = 1" "\<forall>b < H. length (row b txids) > 1"
      and t: "CPartialMerkleTree_of txids vMatch = Ok \<lparr>nTransactions = of_nat (length txids),
       vBits = tree_bits txids vMatch H 0, vHash = tree_hashes txids vMatch H 0, fBad = False\<rparr>" .
  define bits where "bits = tree_bits txids vMatch H 0"
  define t where "t = \<lparr>nTransactions = of_nat (length txids), vBits = bits, vHash = tree_hashes txids vMatch H 0, fBad = False\<rparr>"
  define pad where "pad = (length bits + 7) div 8 * 8 - length bits"
  have lb: "length bits < 2 ^ 17" unfolding bits_def by (rule tree_bits_small [OF n H(4)])
  then have "length (tree_hashes txids vMatch H 0) < 2 ^ 17"
    using length_tree_bits(1) [of txids vMatch H 0] by (simp add: bits_def)
  then have "Unserialize_CPartialMerkleTree (Serialize_CPartialMerkleTree t @ rest) = Ok (t\<lparr>vBits := bits @ replicate pad False\<rparr>, rest)"
    using Unserialize_CPartialMerkleTree_ser [of t rest] lb by (simp add: t_def pad_def MAX_SIZE_def)
  moreover have "ExtractMatches (t\<lparr>vBits := bits @ replicate pad False\<rparr>) =
      Ok (merkle_root txids, map fst (filter snd (zip txids vMatch)), t\<lparr>vBits := bits @ replicate pad False\<rparr>)"
  proof (rule ExtractMatches_tree [OF assms(1) n assms(3) H, of bits pad])
    show "(length bits + pad + 7) div 8 = (length bits + 7) div 8" "pad < 8" unfolding pad_def by presburger+
  qed (simp_all add: t_def bits_def)
  moreover have "CPartialMerkleTree_of txids vMatch = Ok t" using t by (simp add: t_def bits_def)
  ultimately show ?thesis by blast
qed

theorem partial_merkle_roundtrip_witness:
  "\<exists>t t'. CPartialMerkleTree_of [1, 2, 3] [False, False, True] = Ok t \<and>
    Unserialize_CPartialMerkleTree (Serialize_CPartialMerkleTree t @ [7]) = Ok (t', [7]) \<and>
    ExtractMatches t' = Ok (merkle_root [1, 2, 3], map fst (filter snd (zip [1, 2, 3] [False, False, True])), t')"
  by (rule partial_merkle_roundtrip) (simp_all add: MAX_BLOCK_SIZE_CURRENT_def)

section \<open>Trees from an untrusted peer\<close>

text \<open>The pairs of nodes the receiver hashes.\<close>

fun extract_pairs :: "CPartialMerkleTree \<Rightarrow> nat \<Rightarrow> uint32 \<Rightarrow> extract_state \<Rightarrow> (uint256 \<times> uint256) set" where
  "extract_pairs t 0 pos x = {}"
| "extract_pairs t (Suc height) pos x =
     (if unat (nBitsUsed x) \<ge> length (vBits t) \<or> \<not> vBits t ! unat (nBitsUsed x) then {}
      else let x = x\<lparr>nBitsUsed := nBitsUsed x + 1\<rparr>;
               (left, y) = TraverseAndExtract t height (pos * 2) x in
        if pos * 2 + 1 < CalcTreeWidth (nTransactions t) height
        then {(left, fst (TraverseAndExtract t height (pos * 2 + 1) y))} \<union>
             extract_pairs t height (pos * 2) x \<union> extract_pairs t height (pos * 2 + 1) y
        else {(left, left)} \<union> extract_pairs t height (pos * 2) x)"

definition received_pairs :: "CPartialMerkleTree \<Rightarrow> (uint256 \<times> uint256) set" where
  "received_pairs t = (case height_loop (nTransactions t) 0 of
     Ok H \<Rightarrow> extract_pairs t H 0 \<lparr>xBad = fBad t, nBitsUsed = 0, nHashUsed = 0, xMatch = []\<rparr> | _ \<Rightarrow> {})"

lemma extract_bad: "xBad x \<Longrightarrow> xBad (snd (TraverseAndExtract t h pos x))"
proof (induction h arbitrary: pos x)
  case 0
  then show ?case by (subst TraverseAndExtract.simps) (simp add: Let_def)
next
  case (Suc h)
  obtain l y where l: "TraverseAndExtract t h (pos * 2) (x\<lparr>nBitsUsed := nBitsUsed x + 1\<rparr>) = (l, y)" by (metis prod.exhaust)
  have "xBad y" using Suc.IH [of "x\<lparr>nBitsUsed := nBitsUsed x + 1\<rparr>" "pos * 2"] Suc.prems l by simp
  then have "xBad (snd (TraverseAndExtract t h (pos * 2 + 1) y))" by (rule Suc.IH)
  then show ?case using Suc.prems l \<open>xBad y\<close>
    by (subst TraverseAndExtract.simps) (auto simp: Let_def split: prod.splits cong: if_cong)
qed

lemma hashed_pairs_row:
  "\<forall>b \<le> h. length (row b xs) > 1 \<Longrightarrow> k < (length (row h xs) + 1) div 2 \<Longrightarrow>
    (row h xs ! (2 * k), row h xs ! min (2 * k + 1) (length (row h xs) - 1)) \<in> hashed_pairs xs"
proof (induction h arbitrary: xs)
  case 0
  then have "length xs > 1" "k < (length xs + 1) div 2" by (auto simp: row_simps)
  then show ?case unfolding row_simps hashed_pairs_rec [OF \<open>length xs > 1\<close>] by blast
next
  case (Suc h)
  have "\<forall>b \<le> h. length (row b (level xs)) > 1" using Suc.prems(1) by (auto simp flip: row_Suc_level)
  moreover have "k < (length (row h (level xs)) + 1) div 2" using Suc.prems(2) by (simp only: row_Suc_level)
  ultimately have "(row h (level xs) ! (2 * k), row h (level xs) ! min (2 * k + 1) (length (row h (level xs)) - 1)) \<in> hashed_pairs (level xs)"
    by (rule Suc.IH)
  moreover have "length xs > 1" using Suc.prems(1) by (auto simp: row_simps dest: spec [of _ 0])
  ultimately show ?case unfolding row_Suc_level hashed_pairs_rec [OF \<open>length xs > 1\<close>] by blast
qed

lemma extract_node:
  assumes "TraverseAndExtract t (Suc h) pos x = (g, y)" "\<not> xBad y"
  obtains "xMatch y = xMatch x"
  | l z r where "unat (nBitsUsed x) < length (vBits t)" "vBits t ! unat (nBitsUsed x)"
      "TraverseAndExtract t h (pos * 2) (x\<lparr>nBitsUsed := nBitsUsed x + 1\<rparr>) = (l, z)" "\<not> xBad z" "g = hash_pair l r"
      "if pos * 2 + 1 < CalcTreeWidth (nTransactions t) h then TraverseAndExtract t h (pos * 2 + 1) z = (r, y) else r = l \<and> y = z"
proof (cases "unat (nBitsUsed x) < length (vBits t) \<and> vBits t ! unat (nBitsUsed x)")
  case True
  obtain l z where l: "TraverseAndExtract t h (pos * 2) (x\<lparr>nBitsUsed := nBitsUsed x + 1\<rparr>) = (l, z)" by (metis prod.exhaust)
  obtain r y' where r: "(if pos * 2 + 1 < CalcTreeWidth (nTransactions t) h then TraverseAndExtract t h (pos * 2 + 1) z else (l, z)) = (r, y')"
    by (metis prod.exhaust)
  have "TraverseAndExtract t (Suc h) pos x = (hash_pair l r, y')"
    using True l r by (subst TraverseAndExtract.simps) (simp add: Let_def cong: if_cong)
  then have g: "g = hash_pair l r" "y' = y" using assms(1) by auto
  moreover have "\<not> xBad z" using r g(2) assms(2) extract_bad [of z t h "pos * 2 + 1"] by (auto split: if_splits)
  ultimately show ?thesis using that(2) [OF _ _ l] True r by (auto split: if_splits)
next
  case False
  then have "xMatch y = xMatch x"
    using assms by (subst (asm) TraverseAndExtract.simps) (auto simp: Let_def split: if_splits)
  then show ?thesis by (rule that(1))
qed

lemma extract_pairs_node:
  assumes "unat (nBitsUsed x) < length (vBits t)" "vBits t ! unat (nBitsUsed x)"
    and l: "TraverseAndExtract t h (pos * 2) (x\<lparr>nBitsUsed := nBitsUsed x + 1\<rparr>) = (l, z)"
    and r: "if pos * 2 + 1 < CalcTreeWidth (nTransactions t) h then TraverseAndExtract t h (pos * 2 + 1) z = (r, y) else r = l \<and> y = z"
  shows "(l, r) \<in> extract_pairs t (Suc h) pos x"
    "extract_pairs t h (pos * 2) (x\<lparr>nBitsUsed := nBitsUsed x + 1\<rparr>) \<subseteq> extract_pairs t (Suc h) pos x"
    "pos * 2 + 1 < CalcTreeWidth (nTransactions t) h \<Longrightarrow> extract_pairs t h (pos * 2 + 1) z \<subseteq> extract_pairs t (Suc h) pos x"
  using assms by (auto simp: Let_def split: if_splits)

lemma extract_sound:
  assumes n: "length xs \<le> 2 ^ 31" and t: "nTransactions t = of_nat (length xs)"
  shows "\<lbrakk>h \<le> 31; pos < length (row h xs); \<forall>b < h. length (row b xs) > 1;
    inj_on (\<lambda>(a, b). hash_pair a b) (hashed_pairs xs \<union> extract_pairs t h (of_nat pos) x);
    TraverseAndExtract t h (of_nat pos) x = (row h xs ! pos, y); \<not> xBad y\<rbrakk> \<Longrightarrow>
    \<exists>ms. xMatch y = xMatch x @ ms \<and> subseq ms (map ((!) xs) (leaves (length xs) h pos))"
proof (induction h arbitrary: pos x y)
  case 0
  then have "map ((!) xs) (leaves (length xs) 0 pos) = [xs ! pos]" by (simp add: leaves_def row_simps upt_conv_Cons)
  moreover have "xMatch y = xMatch x \<or> xMatch y = xMatch x @ [xs ! pos]"
    using 0(5,6) by (subst (asm) TraverseAndExtract.simps) (auto simp: Let_def row_simps split: if_splits)
  ultimately show ?case by auto
next
  case (Suc h)
  note ch = children [OF n Suc.prems(1,2)]
  from Suc.prems(5,6) show ?case
  proof (cases rule: extract_node)
    case 1
    then show ?thesis by (intro exI [of _ "[]"]) simp
  next
    case (2 l z r)
    let ?x = "x\<lparr>nBitsUsed := nBitsUsed x + 1\<rparr>"
    note pairs = extract_pairs_node [OF 2(1-3,6)]
    let ?r = "row h xs ! min (2 * pos + 1) (length (row h xs) - 1)"
    have "pos < (length (row h xs) + 1) div 2" using Suc.prems(2) by (simp add: row_simps)
    then have "(row h xs ! (2 * pos), ?r) \<in> hashed_pairs xs" using Suc.prems(3) by (intro hashed_pairs_row) (auto simp: less_Suc_eq_le)
    moreover have "hash_pair l r = hash_pair (row h xs ! (2 * pos)) ?r"
      using 2(5) Suc.prems(2) by (simp add: row_simps nth_level)
    ultimately have "(l, r) = (row h xs ! (2 * pos), ?r)" using Suc.prems(4) pairs(1) by (intro inj_onD [OF Suc.prems(4)]) auto
    then have lr: "l = row h xs ! (2 * pos)" "r = ?r" by simp_all
    have "\<exists>ms. xMatch z = xMatch ?x @ ms \<and> subseq ms (map ((!) xs) (leaves (length xs) h (2 * pos)))"
    proof (rule Suc.IH [OF ch(5,4)])
      show "inj_on (\<lambda>(a, b). hash_pair a b) (hashed_pairs xs \<union> extract_pairs t h (of_nat (2 * pos)) ?x)"
        using pairs(2) unfolding ch(1) by (intro inj_on_subset [OF Suc.prems(4)]) auto
      show "TraverseAndExtract t h (of_nat (2 * pos)) ?x = (row h xs ! (2 * pos), z)" using 2(3) lr unfolding ch(1) by simp
    qed (use Suc.prems(3) 2(4) in auto)
    then obtain ms where ms: "xMatch z = xMatch x @ ms" "subseq ms (map ((!) xs) (leaves (length xs) h (2 * pos)))" by auto
    have "\<exists>ms. xMatch y = xMatch z @ ms \<and> subseq ms (map ((!) xs) (leaves (length xs) h (2 * pos + 1)))"
    proof (cases "2 * pos + 1 < length (row h xs)")
      case True
      then have c: "of_nat pos * 2 + 1 < CalcTreeWidth (nTransactions t) h" using ch(3) t by simp
      show ?thesis
      proof (rule Suc.IH [OF ch(5) True])
        show "inj_on (\<lambda>(a, b). hash_pair a b) (hashed_pairs xs \<union> extract_pairs t h (of_nat (2 * pos + 1)) z)"
          using pairs(3) c unfolding ch(2) by (intro inj_on_subset [OF Suc.prems(4)]) auto
        show "TraverseAndExtract t h (of_nat (2 * pos + 1)) z = (row h xs ! (2 * pos + 1), y)"
          using 2(6) c lr True unfolding ch(2) by (simp add: min_absorb1)
      qed (use Suc.prems(3,6) in auto)
    next
      case False
      then show ?thesis using 2(6) ch(3) t by (intro exI [of _ "[]"]) simp
    qed
    then obtain ms' where "xMatch y = xMatch z @ ms'" "subseq ms' (map ((!) xs) (leaves (length xs) h (2 * pos + 1)))" by auto
    then show ?thesis using ms list_emb_append_mono [of "(=)"] by (auto simp: leaves_Suc)
  qed
qed

text \<open>
  C38: a receiver cannot be made to accept foreign transactions: if the extraction from a partial tree, honest
  or not, returns the Merkle root of a block with as many transactions as the tree claims, then the extracted
  ids are transactions of the block in block order, unless two different pairs among the block's
  nodes and the nodes the receiver hashed collide. A root of 0 is excluded since it stands for failure.
\<close>

theorem partial_merkle_sound:
  assumes "ExtractMatches t = Ok (merkle_root txids, ids, t')" "merkle_root txids \<noteq> 0"
    "unat (nTransactions t) = length txids"
    "inj_on (\<lambda>(a, b). hash_pair a b) (hashed_pairs txids \<union> received_pairs t)"
  shows "subseq ids txids"
proof -
  let ?x = "\<lparr>xBad = fBad t, nBitsUsed = 0, nHashUsed = 0, xMatch = []\<rparr>"
  have nt: "nTransactions t = of_nat (length txids)" by (simp flip: assms(3))
  have guards: "nTransactions t \<noteq> 0" "\<not> nTransactions t > MAX_BLOCK_SIZE_CURRENT div 60"
    using assms(1,2) by (auto simp: ExtractMatches_def split: if_splits)
  then have "unat (nTransactions t) \<noteq> 0" "unat (nTransactions t) \<le> 33333"
    by (simp_all add: MAX_BLOCK_SIZE_CURRENT_def word_less_nat_alt word_unat_eq_iff)
  then have n: "txids \<noteq> []" "length txids \<le> 2 ^ 31" using assms(3) by auto
  from height_loop_row [OF this, of 0] obtain H where
    H: "height_loop (of_nat (length txids)) 0 = Ok H" "H \<le> 31" "length (row H txids) = 1" "\<forall>b < H. length (row b txids) > 1" by auto
  obtain g y where g: "TraverseAndExtract t H (of_nat 0) ?x = (g, y)" by (metis prod.exhaust)
  have e: "g = merkle_root txids" "\<not> xBad y" "ids = xMatch y"
    using assms(1,2) g H(1) nt by (auto simp: ExtractMatches_def Let_def split: if_splits)
  have "inj_on (\<lambda>(a, b). hash_pair a b) (hashed_pairs txids \<union> extract_pairs t H (of_nat 0) ?x)"
    using assms(4) H(1) nt by (simp add: received_pairs_def)
  moreover have "TraverseAndExtract t H (of_nat 0) ?x = (row H txids ! 0, y)" using g e row_top [OF H(3,4)] by simp
  ultimately have "\<exists>ms. xMatch y = xMatch ?x @ ms \<and> subseq ms (map ((!) txids) (leaves (length txids) H 0))"
    using H(2-4) e(2) by (intro extract_sound [OF n(2) nt]) auto
  moreover have "leaves (length txids) H 0 = [0..<length txids]"
    using length_row_covers [of txids H] H(3) by (simp add: leaves_def min_absorb1)
  ultimately show ?thesis using e(3) by (simp add: map_nth)
qed

theorem partial_merkle_sound_witness:
  "ExtractMatches \<lparr>nTransactions = 1, vBits = [True], vHash = [5], fBad = False\<rparr> =
     Ok (merkle_root [5], [5], \<lparr>nTransactions = 1, vBits = [True], vHash = [5], fBad = False\<rparr>) \<and> subseq [5] [5 :: uint256]"
proof -
  let ?t = "\<lparr>nTransactions = 1, vBits = [True], vHash = [5], fBad = False\<rparr>"
  have h: "height_loop 1 0 = Ok 0" by (subst height_loop.simps) (simp add: CalcTreeWidth_def)
  have "ExtractMatches ?t = Ok (merkle_root [5], [5], ?t)"
    by (simp add: ExtractMatches_def MAX_BLOCK_SIZE_CURRENT_def h TraverseAndExtract.simps [of _ 0] merkle_root_rec)
  moreover have "inj_on (\<lambda>(a, b). hash_pair a b) (hashed_pairs [5] \<union> received_pairs ?t)"
    by (simp add: received_pairs_def h hashed_pairs.simps [of "[_]"])
  ultimately show ?thesis using partial_merkle_sound [of ?t "[5]" "[5]" ?t] by (simp add: merkle_root_rec)
qed

end
