(* ===== verification/Compressor.thy ===== *)
theory Compressor
  imports SigHash
begin

text \<open>
  The compact encodings of \<open>src/src/compressor.h\<close> and \<open>compressor.cpp\<close>: amounts without their trailing zeros
  and scripts of the standard forms by their hash or key. The test whether a point lies on the curve
  and the recovery of its second coordinate belong to the curve library and are the arguments
  \<open>fully_valid\<close> and \<open>decompress\<close>.
\<close>

section \<open>Amounts\<close>

function strip_zeros :: "uint64 \<Rightarrow> nat \<Rightarrow> uint64 \<times> nat" where
  "strip_zeros n e = (if n mod 10 = 0 \<and> e < 9 then strip_zeros (n div 10) (e + 1) else (n, e))"
  by pat_completeness auto
termination
  by (relation "measure (\<lambda>(n, e). 9 - e)") auto

declare strip_zeros.simps [simp del]

definition CompressAmount :: "uint64 \<Rightarrow> (unit, uint64) outcome" where
  "CompressAmount n =
     (if n = 0 then Ok 0
      else let (n, e) = strip_zeros n 0 in
           if e < 9
           then let d = n mod 10 in
                if \<not> (1 \<le> d \<and> d \<le> 9) then Abort
                else let n = n div 10 in Ok (1 + (n * 9 + d - 1) * 10 + of_nat e)
           else Ok (1 + (n - 1) * 10 + 9))"

fun times_ten :: "uint64 \<Rightarrow> nat \<Rightarrow> uint64" where
  "times_ten n 0 = n"
| "times_ten n (Suc e) = times_ten (n * 10) e"

definition DecompressAmount :: "uint64 \<Rightarrow> uint64" where
  "DecompressAmount x =
     (if x = 0 then 0
      else let x = x - 1; e = unat (x mod 10); x = x div 10;
               n = (if e < 9 then let d = x mod 9 + 1; x = x div 9 in x * 10 + d else x + 1)
           in times_ten n e)"

section \<open>Scripts\<close>

definition IsToKeyID :: "byte list \<Rightarrow> byte list option" where
  "IsToKeyID script =
     (if length script = 25 \<and> unat (script ! 0) = OP_DUP \<and> unat (script ! 1) = OP_HASH160 \<and> script ! 2 = 20 \<and>
         unat (script ! 23) = OP_EQUALVERIFY \<and> unat (script ! 24) = OP_CHECKSIG
      then Some (take 20 (drop 3 script)) else None)"

definition IsToScriptID :: "byte list \<Rightarrow> byte list option" where
  "IsToScriptID script =
     (if length script = 23 \<and> unat (script ! 0) = OP_HASH160 \<and> script ! 1 = 20 \<and> unat (script ! 22) = OP_EQUAL
      then Some (take 20 (drop 2 script)) else None)"

definition IsToPubKey :: "(CPubKey \<Rightarrow> bool) \<Rightarrow> byte list \<Rightarrow> CPubKey option" where
  "IsToPubKey fully_valid script =
     (if length script = 35 \<and> script ! 0 = 33 \<and> unat (script ! 34) = OP_CHECKSIG \<and> (script ! 1 = 0x02 \<or> script ! 1 = 0x03)
      then Some (CPubKey_Set (take 33 (drop 1 script)))
      else if length script = 67 \<and> script ! 0 = 65 \<and> unat (script ! 66) = OP_CHECKSIG \<and> script ! 1 = 0x04
      then let pubkey = CPubKey_Set (take 65 (drop 1 script)) in if fully_valid pubkey then Some pubkey else None
      else None)"

definition Compress :: "(CPubKey \<Rightarrow> bool) \<Rightarrow> byte list \<Rightarrow> byte list option" where
  "Compress fully_valid script =
     (case IsToKeyID script of Some keyID \<Rightarrow> Some (0x00 # keyID)
      | None \<Rightarrow> (case IsToScriptID script of Some scriptID \<Rightarrow> Some (0x01 # scriptID)
      | None \<Rightarrow> (case IsToPubKey fully_valid script of
          Some pubkey \<Rightarrow>
            if pubkey ! 0 = 0x02 \<or> pubkey ! 0 = 0x03 then Some (pubkey ! 0 # take 32 (drop 1 pubkey))
            else if pubkey ! 0 = 0x04 then Some ((0x04 OR (pubkey ! 64 AND 0x01)) # take 32 (drop 1 pubkey))
            else None
        | None \<Rightarrow> None)))"

definition GetSpecialSize :: "uint32 \<Rightarrow> nat" where
  "GetSpecialSize nSize =
     (if nSize = 0 \<or> nSize = 1 then 20 else if nSize = 2 \<or> nSize = 3 \<or> nSize = 4 \<or> nSize = 5 then 32 else 0)"

text \<open>The result is the script afterwards, which a failure leaves unchanged; \<open>Unserialize\<close> ignores the returned flag.\<close>

definition Decompress ::
    "(CPubKey \<Rightarrow> CPubKey option) \<Rightarrow> uint32 \<Rightarrow> byte list \<Rightarrow> byte list \<Rightarrow> (unit, bool \<times> byte list) outcome" where
  "Decompress decompress nSize inp script =
     (if nSize = 0x00
      then Ok (True, [of_nat OP_DUP, of_nat OP_HASH160, 20] @ take 20 inp @ [of_nat OP_EQUALVERIFY, of_nat OP_CHECKSIG])
      else if nSize = 0x01 then Ok (True, [of_nat OP_HASH160, 20] @ take 20 inp @ [of_nat OP_EQUAL])
      else if nSize = 0x02 \<or> nSize = 0x03 then Ok (True, [33, ucast nSize] @ take 32 inp @ [of_nat OP_CHECKSIG])
      else if nSize = 0x04 \<or> nSize = 0x05
      then (case decompress (CPubKey_Set (ucast (nSize - 2) # take 32 inp)) of
              None \<Rightarrow> Ok (False, script)
            | Some pubkey \<Rightarrow> if CPubKey_size pubkey \<noteq> 65 then Abort
                             else Ok (True, [65] @ take 65 pubkey @ [of_nat OP_CHECKSIG]))
      else Ok (False, script))"

definition nSpecialScripts :: uint32 where "nSpecialScripts = 6"

definition CScriptCompressor_GetSerializeSize :: "(CPubKey \<Rightarrow> bool) \<Rightarrow> byte list \<Rightarrow> nat" where
  "CScriptCompressor_GetSerializeSize fully_valid script =
     (case Compress fully_valid script of Some compr \<Rightarrow> length compr
      | None \<Rightarrow> let nSize = of_nat (length script) + nSpecialScripts in length script + GetSizeOfVarInt nSize)"

definition Serialize_CScriptCompressor :: "(CPubKey \<Rightarrow> bool) \<Rightarrow> byte list \<Rightarrow> byte list" where
  "Serialize_CScriptCompressor fully_valid script =
     (case Compress fully_valid script of Some compr \<Rightarrow> compr
      | None \<Rightarrow> let nSize = of_nat (length script) + nSpecialScripts in WriteVarInt nSize @ script)"

definition Unserialize_CScriptCompressor :: "(CPubKey \<Rightarrow> CPubKey option) \<Rightarrow> byte list \<Rightarrow> byte list reader" where
  "Unserialize_CScriptCompressor decompress script s =
     bindO (ReadVarInt s) (\<lambda>(nSize :: uint32, s).
     if nSize < nSpecialScripts
     then bindO (READDATA (GetSpecialSize nSize) s) (\<lambda>(vch, s).
          bindO (Decompress decompress nSize vch script) (\<lambda>(f, script). Ok (script, s)))
     else READDATA (unat (nSize - nSpecialScripts)) s)"

section \<open>Outputs\<close>

definition Serialize_CTxOutCompressor :: "(CPubKey \<Rightarrow> bool) \<Rightarrow> CTxOut \<Rightarrow> (unit, byte list) outcome" where
  "Serialize_CTxOutCompressor fully_valid txout =
     bindO (CompressAmount (nValue txout)) (\<lambda>nVal.
       Ok (WriteVarInt nVal @ Serialize_CScriptCompressor fully_valid (scriptPubKey txout)))"

definition Unserialize_CTxOutCompressor :: "(CPubKey \<Rightarrow> CPubKey option) \<Rightarrow> CTxOut \<Rightarrow> CTxOut reader" where
  "Unserialize_CTxOutCompressor decompress txout s =
     bindO (ReadVarInt s) (\<lambda>(nVal :: uint64, s).
     bindO (Unserialize_CScriptCompressor decompress (scriptPubKey txout) s) (\<lambda>(script, s).
       Ok (txout\<lparr>nValue := DecompressAmount nVal, scriptPubKey := script\<rparr>, s)))"

section \<open>Amounts come back\<close>

lemma word64_div: "N < 2 ^ 64 \<Longrightarrow> K < 2 ^ 64 \<Longrightarrow> (of_nat N :: uint64) div of_nat K = of_nat (N div K)"
  by (simp add: word_unat_eq_iff unat_div unsigned_of_nat take_bit_nat_eq_self le_less_trans [OF div_le_dividend])

lemma word64_mod: "N < 2 ^ 64 \<Longrightarrow> K < 2 ^ 64 \<Longrightarrow> (of_nat N :: uint64) mod of_nat K = of_nat (N mod K)"
  by (simp add: word_unat_eq_iff unat_mod unsigned_of_nat take_bit_nat_eq_self le_less_trans [OF mod_less_eq_dividend])

lemma unat64: "N < 2 ^ 64 \<Longrightarrow> unat (of_nat N :: uint64) = N"
  by (simp add: unsigned_of_nat take_bit_nat_eq_self)

lemma strip_zeros_spec:
  assumes "0 < N" "N < 2 ^ 64"
  shows "e \<le> 9 \<Longrightarrow> \<exists>M e'. strip_zeros (of_nat N) e = (of_nat M, e') \<and> e \<le> e' \<and> e' \<le> 9 \<and> N = M * 10 ^ (e' - e) \<and> 0 < M \<and>
    (e' < 9 \<longrightarrow> M mod 10 \<noteq> 0)"
  using assms
proof (induction "9 - e" arbitrary: N e)
  case 0
  then show ?case by (subst strip_zeros.simps) (auto intro!: exI [of _ N])
next
  case (Suc k)
  have m: "(of_nat N :: uint64) mod 10 = 0 \<longleftrightarrow> N mod 10 = 0" and d: "(of_nat N :: uint64) div 10 = of_nat (N div 10)"
    using word64_mod [of N 10] word64_div [of N 10] Suc.prems unat64 [of "N mod 10"] by (auto simp: word_unat_eq_iff)
  show ?case
  proof (cases "N mod 10 = 0")
    case True
    then have N: "N = N div 10 * 10" "0 < N div 10" "N div 10 < 2 ^ 64" using Suc.prems by auto
    have c: "k = 9 - (e + 1)" "e + 1 \<le> 9" using Suc.hyps(2) by auto
    from Suc.hyps(1) [OF c N(2,3)] obtain M e' where IH: "strip_zeros (of_nat (N div 10)) (e + 1) = (of_nat M, e')" "e + 1 \<le> e'" "e' \<le> 9"
      "N div 10 = M * 10 ^ (e' - (e + 1))" "0 < M" "e' < 9 \<longrightarrow> M mod 10 \<noteq> 0"
      by blast
    have "N = M * 10 ^ (e' - e)"
    proof -
      have "N = M * (10 ^ (e' - (e + 1)) * 10)" using N(1) IH(4) by simp
      also have "10 ^ (e' - (e + 1)) * 10 = (10 :: nat) ^ (e' - e)" using IH(2) by (metis Suc_diff_Suc Suc_eq_plus1 Suc_le_eq power_Suc2)
      finally show ?thesis .
    qed
    then show ?thesis using True IH m d Suc.hyps(2) by (subst strip_zeros.simps) auto
  next
    case False
    then show ?thesis using m Suc.prems by (subst strip_zeros.simps) (auto intro!: exI [of _ N])
  qed
qed

text \<open>The number \<open>CompressAmount\<close> computes from \<open>M * 10 ^ e\<close>.\<close>

definition amount_code :: "nat \<Rightarrow> nat \<Rightarrow> nat" where
  "amount_code M e = (if e < 9 then 1 + (M div 10 * 9 + M mod 10 - 1) * 10 + e else 1 + (M - 1) * 10 + 9)"

lemma CompressAmount_code:
  assumes "0 < N" "N < 2 ^ 64"
  obtains M e where "CompressAmount (of_nat N) = Ok (of_nat (amount_code M e))" "N = M * 10 ^ e" "0 < M" "e \<le> 9" "e < 9 \<longrightarrow> M mod 10 \<noteq> 0"
proof -
  have "(0 :: nat) \<le> 9" by simp
  from strip_zeros_spec [OF assms this] obtain M e where s: "strip_zeros (of_nat N) 0 = (of_nat M, e)" "e \<le> 9" "N = M * 10 ^ e" "0 < M" "e < 9 \<longrightarrow> M mod 10 \<noteq> 0"
    unfolding diff_zero by blast
  have M: "M < 2 ^ 64" using s(3) assms(2) by (metis le_less_trans mult_le_mono2 mult.right_neutral one_le_numeral one_le_power)
  have m: "(of_nat M :: uint64) mod 10 = of_nat (M mod 10)" and d: "(of_nat M :: uint64) div 10 = of_nat (M div 10)"
    using word64_mod [of M 10] word64_div [of M 10] M by simp_all
  have nz: "(of_nat N :: uint64) \<noteq> 0" using assms by (simp add: word_unat_eq_iff unat64)
  have "CompressAmount (of_nat N) = Ok (of_nat (amount_code M e))"
  proof (cases "e < 9")
    case True
    then have dig: "1 \<le> M mod 10" "M mod 10 \<le> 9" using s(5) by auto
    then have "1 \<le> (of_nat (M mod 10) :: uint64)" "(of_nat (M mod 10) :: uint64) \<le> 9"
      by (simp_all add: word_le_nat_alt unat64)
    then have "CompressAmount (of_nat N) = Ok (1 + (of_nat (M div 10) * 9 + of_nat (M mod 10) - 1) * 10 + of_nat e)"
      using nz s(1) True m d by (simp add: CompressAmount_def Let_def)
    moreover have eq: "(of_nat (M div 10) * 9 + of_nat (M mod 10) - 1 :: uint64) = of_nat (M div 10 * 9 + M mod 10 - 1)"
      using dig by (simp add: of_nat_diff)
    ultimately show ?thesis unfolding eq using True by (simp add: amount_code_def)
  next
    case False
    then show ?thesis using nz s(1,4) by (simp add: CompressAmount_def amount_code_def of_nat_diff)
  qed
  then show ?thesis using that s(2-5) by blast
qed

lemma times_ten_power: "times_ten n e = n * 10 ^ e"
  by (induction n e rule: times_ten.induct) (simp_all add: mult.assoc)

lemma DecompressAmount_code:
  assumes "0 < M" "e \<le> 9" "e < 9 \<longrightarrow> M mod 10 \<noteq> 0" "amount_code M e < 2 ^ 64"
  shows "DecompressAmount (of_nat (amount_code M e)) = of_nat (M * 10 ^ e)"
proof -
  define X where "X = amount_code M e - 1"
  have X: "X < 2 ^ 64" "amount_code M e = X + 1" using assms(4) by (auto simp: X_def amount_code_def)
  have nz: "(of_nat (amount_code M e) :: uint64) \<noteq> 0" 
    using unat64 [OF assms(4)] X(2) by (metis add_is_0 one_neq_zero unsigned_0)
  have x: "(of_nat (amount_code M e) :: uint64) - 1 = of_nat X" unfolding X(2) by simp
  have e: "X mod 10 = e" using assms(2) unfolding X_def amount_code_def by auto
  have m: "unat ((of_nat X :: uint64) mod 10) = e" "(of_nat X :: uint64) div 10 = of_nat (X div 10)"
    using word64_mod [of X 10] word64_div [of X 10] X(1) e assms(2) by (simp_all add: unat64)
  show ?thesis
  proof (cases "e < 9")
    case True
    then have "X div 10 = M div 10 * 9 + (M mod 10 - 1)" using assms(3) unfolding X_def amount_code_def by auto
    moreover have "M mod 10 - 1 < 9" by simp
    ultimately have dig: "X div 10 mod 9 = M mod 10 - 1" "X div 10 div 9 = M div 10" by simp_all
    have "(of_nat (X div 10) :: uint64) mod 9 = of_nat (M mod 10 - 1)" "(of_nat (X div 10) :: uint64) div 9 = of_nat (M div 10)"
      using word64_mod [of "X div 10" 9] word64_div [of "X div 10" 9] X(1) dig by simp_all
    moreover have "(of_nat (M div 10) * 10 + (of_nat (M mod 10 - 1) + 1) :: uint64) = of_nat M"
    proof -
      have "M div 10 * 10 + (M mod 10 - 1 + 1) = M" using assms(3) True by simp
      then show ?thesis by (metis of_nat_add of_nat_mult of_nat_1 of_nat_numeral)
    qed
    ultimately show ?thesis using nz x m True by (simp add: DecompressAmount_def Let_def times_ten_power)
  next
    case False
    then have "X div 10 + 1 = M" using assms(1,2) unfolding X_def amount_code_def by auto
    then have "of_nat (X div 10) + 1 = (of_nat M :: uint64)" by (metis of_nat_add of_nat_1)
    then show ?thesis using nz x m False by (simp add: DecompressAmount_def Let_def times_ten_power)
  qed
qed

lemma amount_code_bound: "0 < M \<Longrightarrow> e \<le> 9 \<Longrightarrow> amount_code M e \<le> 10 * (M * 10 ^ e) + 10"
proof -
  assume "0 < M" "e \<le> 9"
  moreover have "M div 10 * 9 + M mod 10 - 1 \<le> M - 1" using div_mult_mod_eq [of M 10] by linarith
  then have "amount_code M e \<le> 10 * M + 10" using \<open>0 < M\<close> \<open>e \<le> 9\<close> unfolding amount_code_def by auto
  moreover have "M \<le> M * 10 ^ e" by simp
  ultimately show ?thesis by linarith
qed

lemma amount_roundtrip:
  assumes "unat n \<le> 2 ^ 60"
  obtains c where "CompressAmount n = Ok c" "DecompressAmount c = n"
proof (cases "n = 0")
  case True
  then show ?thesis using that by (simp add: CompressAmount_def DecompressAmount_def)
next
  case False
  define N where "N = unat n"
  have N: "0 < N" "N < 2 ^ 64" "n = of_nat N" "N \<le> 2 ^ 60" using assms False by (simp_all add: N_def unat_gt_0)
  obtain M e where c: "CompressAmount (of_nat N) = Ok (of_nat (amount_code M e))" "N = M * 10 ^ e" "0 < M" "e \<le> 9" "e < 9 \<longrightarrow> M mod 10 \<noteq> 0"
    using CompressAmount_code [OF N(1,2)] by blast
  have "amount_code M e < 2 ^ 64" using amount_code_bound [OF c(3,4)] N(4) c(2) by simp
  then show ?thesis using that DecompressAmount_code [OF c(3-5)] c(1,2) N(3) by simp
qed

section \<open>Scripts come back\<close>

text \<open>What the curve library is asked for: a valid key in its long form is recovered from its short form.\<close>

definition curve_recovers :: "(CPubKey \<Rightarrow> bool) \<Rightarrow> (CPubKey \<Rightarrow> CPubKey option) \<Rightarrow> bool" where
  "curve_recovers fully_valid decompress \<longleftrightarrow>
     (\<forall>pk. length pk = 65 \<and> pk ! 0 = 0x04 \<and> fully_valid pk \<longrightarrow>
       decompress ((0x02 OR (pk ! 64 AND 0x01)) # take 32 (drop 1 pk)) = Some pk)"

lemma split_script: "take a s @ take m (drop a s) @ drop (a + m) s = s"
  by (metis append_take_drop_id drop_drop add.commute)

lemma drop_last: "length s = Suc n \<Longrightarrow> drop n s = [s ! n]" "length s = Suc (Suc n) \<Longrightarrow> drop n s = [s ! n, s ! Suc n]"
  by (auto intro!: nth_equalityI simp: less_2_cases_iff)

lemma IsToKeyID_script:
  assumes "IsToKeyID s = Some k"
  shows "length k = 20" "s = [of_nat OP_DUP, of_nat OP_HASH160, 20] @ k @ [of_nat OP_EQUALVERIFY, of_nat OP_CHECKSIG]"
proof -
  have len: "length s = 25" and k: "k = take 20 (drop 3 s)" and s: "unat (s ! 0) = OP_DUP" "unat (s ! 1) = OP_HASH160" "s ! 2 = 20"
    "unat (s ! 23) = OP_EQUALVERIFY" "unat (s ! 24) = OP_CHECKSIG"
    using assms by (auto simp: IsToKeyID_def split: if_splits)
  have "take 3 s = [s ! 0, s ! 1, s ! 2]" using len by (simp add: take_Suc_conv_app_nth numeral_eq_Suc)
  moreover have "drop 23 s = [s ! 23, s ! 24]" using len drop_last(2) [of s 23] by simp
  ultimately have "s = [s ! 0, s ! 1, s ! 2] @ k @ [s ! 23, s ! 24]"
    using split_script [of 3 s 20] unfolding k by (simp only: numeral_plus_numeral add_num_simps)
  moreover have "s ! 0 = of_nat OP_DUP" "s ! 1 = of_nat OP_HASH160" "s ! 23 = of_nat OP_EQUALVERIFY" "s ! 24 = of_nat OP_CHECKSIG"
    using s by (simp_all add: word_unat_eq_iff)
  ultimately show "s = [of_nat OP_DUP, of_nat OP_HASH160, 20] @ k @ [of_nat OP_EQUALVERIFY, of_nat OP_CHECKSIG]" using s(3) by metis
  show "length k = 20" using len k by simp
qed

lemma IsToScriptID_script:
  assumes "IsToScriptID s = Some k"
  shows "length k = 20" "s = [of_nat OP_HASH160, 20] @ k @ [of_nat OP_EQUAL]"
proof -
  have len: "length s = 23" and k: "k = take 20 (drop 2 s)" and s: "unat (s ! 0) = OP_HASH160" "s ! 1 = 20" "unat (s ! 22) = OP_EQUAL"
    using assms by (auto simp: IsToScriptID_def split: if_splits)
  have "take 2 s = [s ! 0, s ! 1]" using len by (simp add: take_Suc_conv_app_nth numeral_eq_Suc)
  moreover have "drop 22 s = [s ! 22]" using len drop_last(1) [of s 22] by simp
  ultimately have "s = [s ! 0, s ! 1] @ k @ [s ! 22]"
    using split_script [of 2 s 20] unfolding k by (simp only: numeral_plus_numeral add_num_simps)
  moreover have "s ! 0 = of_nat OP_HASH160" "s ! 22 = of_nat OP_EQUAL" using s by (simp_all add: word_unat_eq_iff)
  ultimately show "s = [of_nat OP_HASH160, 20] @ k @ [of_nat OP_EQUAL]" using s(2) by metis
  show "length k = 20" using len k by simp
qed

lemma IsToPubKey_script:
  assumes "IsToPubKey fully_valid s = Some pk"
  obtains "length pk = 33" "pk ! 0 = 0x02 \<or> pk ! 0 = 0x03" "s = [33] @ pk @ [of_nat OP_CHECKSIG]"
  | "length pk = 65" "pk ! 0 = 0x04" "fully_valid pk" "s = [65] @ pk @ [of_nat OP_CHECKSIG]"
proof -
  have body: "s = [s ! 0] @ take m (drop 1 s) @ [s ! k]" "length (take m (drop 1 s)) = m" "take m (drop 1 s) ! 0 = s ! 1"
    if "length s = m + 2" "0 < m" "k = m + 1" for m k
  proof -
    have "take 1 s = [s ! 0]" using that by (simp add: take_Suc_conv_app_nth)
    moreover have "drop (1 + m) s = [s ! k]" using that drop_last(1) [of s "m + 1"] by simp
    ultimately show "s = [s ! 0] @ take m (drop 1 s) @ [s ! k]" using split_script [of 1 s m] by (simp only:)
  qed (use that in simp_all)
  consider (short) "length s = 35" "s ! 0 = 33" "unat (s ! 34) = OP_CHECKSIG" "s ! 1 = 0x02 \<or> s ! 1 = 0x03"
      "pk = CPubKey_Set (take 33 (drop 1 s))"
    | (long) "length s = 67" "s ! 0 = 65" "unat (s ! 66) = OP_CHECKSIG" "s ! 1 = 0x04" "fully_valid pk"
      "pk = CPubKey_Set (take 65 (drop 1 s))"
    using assms by (auto simp: IsToPubKey_def Let_def split: if_splits)
  then show thesis
  proof cases
    case short
    have b: "s = [s ! 0] @ take 33 (drop 1 s) @ [s ! 34]" "length (take 33 (drop 1 s)) = 33" "take 33 (drop 1 s) ! 0 = s ! 1"
      by (rule body; use short in simp)+
    then have pk: "pk = take 33 (drop 1 s)" using short by (auto simp: CPubKey_Set_def Let_def GetLen_def)
    moreover have "s ! 34 = of_nat OP_CHECKSIG" using short(3) by (simp add: word_unat_eq_iff)
    ultimately have "s = [33] @ pk @ [of_nat OP_CHECKSIG]" using b(1) short(2) by metis
    then show thesis using that(1) short pk b(2,3) by presburger
  next
    case long
    have b: "s = [s ! 0] @ take 65 (drop 1 s) @ [s ! 66]" "length (take 65 (drop 1 s)) = 65" "take 65 (drop 1 s) ! 0 = s ! 1"
      by (rule body; use long in simp)+
    then have pk: "pk = take 65 (drop 1 s)" using long by (auto simp: CPubKey_Set_def Let_def GetLen_def)
    moreover have "s ! 66 = of_nat OP_CHECKSIG" using long(3) by (simp add: word_unat_eq_iff)
    ultimately have "s = [65] @ pk @ [of_nat OP_CHECKSIG]" using b(1) long(2) by metis
    then show thesis using that(2) long pk b(2,3) by presburger
  qed
qed

lemma Compress_special:
  assumes "curve_recovers fully_valid decompress" "Compress fully_valid s = Some c"
  shows "\<exists>b k. c = b # k \<and> (b = 0 \<or> b = 1 \<or> b = 2 \<or> b = 3 \<or> b = 4 \<or> b = 5) \<and> length k = GetSpecialSize (ucast b) \<and>
    Decompress decompress (ucast b) k s0 = Ok (True, s)"
proof (cases "IsToKeyID s")
  case (Some k)
  then show ?thesis using assms(2) IsToKeyID_script [OF Some]
    by (intro exI [of _ 0] exI [of _ k]) (simp add: Compress_def GetSpecialSize_def Decompress_def)
next
  case no_key: None
  show ?thesis
  proof (cases "IsToScriptID s")
    case (Some k)
    then show ?thesis using assms(2) no_key IsToScriptID_script [OF Some]
      by (intro exI [of _ 1] exI [of _ k]) (simp add: Compress_def GetSpecialSize_def Decompress_def)
  next
    case no_script: None
    then obtain pk where pk: "IsToPubKey fully_valid s = Some pk"
      using assms(2) no_key by (auto simp: Compress_def split: option.splits)
    from pk show ?thesis
    proof (cases rule: IsToPubKey_script)
      case 1
      obtain b k where bk: "pk = b # k" "length k = 32" using 1(1) by (cases pk) auto
      then have b: "b = 2 \<or> b = 3" using 1(2) by simp
      moreover have "c = b # k" using assms(2) no_key no_script pk b bk by (auto simp: Compress_def)
      ultimately show ?thesis using 1(3) bk
        by (intro exI [of _ b] exI [of _ k]) (auto simp: GetSpecialSize_def Decompress_def)
    next
      case 2
      define y where "y = pk ! 64 AND 1"
      define k where "k = take 32 (drop 1 pk)"
      have y: "y = 0 \<or> y = 1" by (simp add: y_def and_one_eq mod2_eq_if)
      have c: "c = (4 OR y) # k" using assms(2) no_key no_script pk 2 by (simp add: Compress_def y_def k_def)
      have rec: "decompress ((2 OR y) # k) = Some pk"
        using assms(1) 2 by (auto simp: curve_recovers_def y_def k_def)
      have len: "length k = 32" using 2(1) by (simp add: k_def)
      have "CPubKey_Set (2 # k) = 2 # k" "CPubKey_Set (3 # k) = 3 # k" using len by (simp_all add: CPubKey_Set_def GetLen_def)
      moreover have "CPubKey_size pk = 65" "take 65 pk = pk" using 2 by (simp_all add: CPubKey_size_def GetLen_def)
      ultimately show ?thesis using y c rec len 2(4)
        by (intro exI [of _ "4 OR y"] exI [of _ k]) (auto simp: GetSpecialSize_def Decompress_def)
    qed
  qed
qed

lemma script_roundtrip:
  assumes "curve_recovers fully_valid decompress" "length script + 6 < 2 ^ 32"
  shows "Unserialize_CScriptCompressor decompress s0 (Serialize_CScriptCompressor fully_valid script @ rest) = Ok (script, rest)"
proof (cases "Compress fully_valid script")
  case None
  have e: "of_nat (length script) + nSpecialScripts = (of_nat (length script + 6) :: uint32)" by (simp add: nSpecialScripts_def)
  have "unat (of_nat (length script) + nSpecialScripts :: uint32) = length script + 6"
    unfolding e unsigned_of_nat using assms(2) by (simp add: take_bit_nat_eq_self)
  then have "\<not> of_nat (length script) + nSpecialScripts < nSpecialScripts" by (simp add: word_less_nat_alt nSpecialScripts_def)
  moreover have "unat (of_nat (length script) :: uint32) = length script"
    using assms(2) by (simp add: unsigned_of_nat take_bit_nat_eq_self)
  ultimately show ?thesis
    by (simp add: Unserialize_CScriptCompressor_def Serialize_CScriptCompressor_def None varint32.bind_unser Let_def)
next
  case (Some c)
  obtain b k where bk: "c = b # k" "b = 0 \<or> b = 1 \<or> b = 2 \<or> b = 3 \<or> b = 4 \<or> b = 5" "length k = GetSpecialSize (ucast b)"
    "Decompress decompress (ucast b) k s0 = Ok (True, script)"
    using Compress_special [OF assms(1) Some] by blast
  have "ReadVarInt (b # k @ rest) = Ok ((ucast b :: uint32), k @ rest)" using bk(2) by (auto simp: ReadVarInt_def)
  moreover have "(ucast b :: uint32) < nSpecialScripts" using bk(2) by (auto simp: nSpecialScripts_def)
  ultimately show ?thesis using bk
    by (simp add: Unserialize_CScriptCompressor_def Serialize_CScriptCompressor_def Some)
qed

lemma txout_roundtrip:
  assumes "curve_recovers fully_valid decompress" "length (scriptPubKey out) + 6 < 2 ^ 32" "unat (nValue out) \<le> 2 ^ 60"
  obtains b where "Serialize_CTxOutCompressor fully_valid out = Ok b"
    "\<And>o0 rest. Unserialize_CTxOutCompressor decompress o0 (b @ rest) =
      Ok (o0\<lparr>nValue := nValue out, scriptPubKey := scriptPubKey out\<rparr>, rest)"
proof -
  obtain c where "CompressAmount (nValue out) = Ok c" "DecompressAmount c = nValue out"
    using amount_roundtrip [OF assms(3)] by blast
  then show ?thesis using that script_roundtrip [OF assms(1,2)]
    by (simp add: Serialize_CTxOutCompressor_def Unserialize_CTxOutCompressor_def varint64.bind_unser)
qed

end
