(* ===== verification/Coins.thy ===== *)
theory Coins
  imports Compressor
begin

text \<open>
  The unspent outputs of a transaction, \<open>CCoins\<close> of \<open>src/src/coins.h\<close> and \<open>coins.cpp\<close>, with their serialization,
  and the undo data of \<open>src/src/undo.h\<close> with the way \<open>DisconnectBlock\<close> of \<open>main.cpp\<close> applies it. The fields \<open>vout\<close>,
  \<open>nHeight\<close> and \<open>nTransactionVersion\<close> are called \<open>cvout\<close>, \<open>cHeight\<close> and \<open>cVersion\<close> here; vectors are taken to have
  fewer than \<open>2 ^ 32\<close> elements.
\<close>

section \<open>Coins\<close>

record CCoins =
  fCoinBase :: bool
  fCoinStake :: bool
  cvout :: "CTxOut list"
  cHeight :: int32
  cVersion :: int32

definition CCoins_default :: CCoins where
  "CCoins_default = \<lparr>fCoinBase = False, fCoinStake = False, cvout = [], cHeight = 0, cVersion = 0\<rparr>"

function cleanup_loop :: "CTxOut list \<Rightarrow> CTxOut list" where
  "cleanup_loop v = (if length v > 0 \<and> CTxOut_IsNull (last v) then cleanup_loop (butlast v) else v)"
  by pat_completeness auto
termination
  by (relation "measure length") auto

declare cleanup_loop.simps [simp del]

definition Cleanup :: "CCoins \<Rightarrow> CCoins" where
  "Cleanup c = c\<lparr>cvout := cleanup_loop (cvout c)\<rparr>"

definition ClearUnspendable :: "CCoins \<Rightarrow> CCoins" where
  "ClearUnspendable c =
     Cleanup (c\<lparr>cvout := map (\<lambda>txout. if IsUnspendable (scriptPubKey txout) then CTxOut_SetNull else txout) (cvout c)\<rparr>)"

definition FromTx :: "CTransaction \<Rightarrow> int32 \<Rightarrow> (unit, CCoins) outcome" where
  "FromTx tx nHeightIn =
     bindO (IsCoinBase tx) (\<lambda>cb.
       Ok (ClearUnspendable \<lparr>fCoinBase = cb, fCoinStake = IsCoinStake tx, cvout = vout tx, cHeight = nHeightIn,
             cVersion = nTransactionVersion tx\<rparr>))"

definition CCoins_Clear :: "CCoins \<Rightarrow> CCoins" where
  "CCoins_Clear c = c\<lparr>fCoinBase := False, fCoinStake := False, cvout := [], cHeight := 0, cVersion := 0\<rparr>"

definition IsAvailable :: "CCoins \<Rightarrow> nat \<Rightarrow> bool" where
  "IsAvailable c nPos \<longleftrightarrow>
     nPos < length (cvout c) \<and> \<not> CTxOut_IsNull (cvout c ! nPos) \<and> \<not> IsZerocoinMint (scriptPubKey (cvout c ! nPos))"

definition IsPruned :: "CCoins \<Rightarrow> bool" where
  "IsPruned c \<longleftrightarrow> list_all CTxOut_IsNull (cvout c)"

definition CCoins_equal :: "CCoins \<Rightarrow> CCoins \<Rightarrow> bool" where
  "CCoins_equal a b \<longleftrightarrow>
     (if IsPruned a \<and> IsPruned b then True
      else fCoinBase a = fCoinBase b \<and> fCoinStake a = fCoinStake b \<and> cHeight a = cHeight b \<and>
           cVersion a = cVersion b \<and> cvout a = cvout b)"

section \<open>Serialization\<close>

text \<open>\<open>VARINT\<close> of a signed number: a negative one ends the loop at once, and its low seven bits are written.\<close>

definition WriteVarInt_int :: "int32 \<Rightarrow> byte list" where
  "WriteVarInt_int n = (if sint n \<le> 0x7F then [ucast (n AND 0x7F)] else WriteVarInt n)"

definition GetSizeOfVarInt_int :: "int32 \<Rightarrow> nat" where
  "GetSizeOfVarInt_int n = (if sint n \<le> 0x7F then 1 else GetSizeOfVarInt n)"

text \<open>Byte \<open>b\<close> of the bit mask is zero.\<close>

definition mask_zero :: "CTxOut list \<Rightarrow> nat \<Rightarrow> bool" where
  "mask_zero v b \<longleftrightarrow> list_all (\<lambda>i. 2 + b * 8 + i < length v \<longrightarrow> CTxOut_IsNull (v ! (2 + b * 8 + i))) [0..<8]"

function mask_loop :: "CTxOut list \<Rightarrow> nat \<Rightarrow> nat \<Rightarrow> nat \<Rightarrow> nat \<times> nat" where
  "mask_loop v b nLastUsedByte nNonzeroBytes =
     (if 2 + b * 8 < length v
      then if \<not> mask_zero v b then mask_loop v (b + 1) (b + 1) (nNonzeroBytes + 1)
           else mask_loop v (b + 1) nLastUsedByte nNonzeroBytes
      else (nLastUsedByte, nNonzeroBytes))"
  by pat_completeness auto
termination
  by (relation "measure (\<lambda>(v, b, l, k). length v - b * 8)") auto

declare mask_loop.simps [simp del]

definition CalcMaskSize :: "CCoins \<Rightarrow> nat \<Rightarrow> nat \<Rightarrow> nat \<times> nat" where
  "CalcMaskSize c nBytes nNonzeroBytes =
     (let (nLastUsedByte, nNonzeroBytes) = mask_loop (cvout c) 0 0 nNonzeroBytes in (nBytes + nLastUsedByte, nNonzeroBytes))"

definition fFirst :: "CCoins \<Rightarrow> bool" where
  "fFirst c \<longleftrightarrow> length (cvout c) > 0 \<and> \<not> CTxOut_IsNull (cvout c ! 0)"

definition fSecond :: "CCoins \<Rightarrow> bool" where
  "fSecond c \<longleftrightarrow> length (cvout c) > 1 \<and> \<not> CTxOut_IsNull (cvout c ! 1)"

text \<open>The header code; the factor is 16 in \<open>Serialize\<close> and 8 in \<open>GetSerializeSize\<close>.\<close>

definition header_code :: "uint32 \<Rightarrow> CCoins \<Rightarrow> nat \<Rightarrow> uint32" where
  "header_code factor c nMaskCode =
     factor * (of_nat nMaskCode - (if fFirst c \<or> fSecond c then 0 else 1)) + (if fCoinBase c then 1 else 0) +
     (if fCoinStake c then 2 else 0) + (if fFirst c then 4 else 0) + (if fSecond c then 8 else 0)"

definition mask_byte :: "CTxOut list \<Rightarrow> nat \<Rightarrow> byte" where
  "mask_byte v b =
     foldl (\<lambda>chAvail i. if 2 + b * 8 + i < length v \<and> \<not> CTxOut_IsNull (v ! (2 + b * 8 + i))
                        then chAvail OR push_bit i 1 else chAvail) 0 [0..<8]"

fun Serialize_outs :: "(CPubKey \<Rightarrow> bool) \<Rightarrow> CTxOut list \<Rightarrow> (unit, byte list) outcome" where
  "Serialize_outs fully_valid [] = Ok []"
| "Serialize_outs fully_valid (v # vs) =
     bindO (if CTxOut_IsNull v then Ok [] else Serialize_CTxOutCompressor fully_valid v) (\<lambda>b.
     bindO (Serialize_outs fully_valid vs) (\<lambda>bs. Ok (b @ bs)))"

definition Serialize_CCoins :: "(CPubKey \<Rightarrow> bool) \<Rightarrow> CCoins \<Rightarrow> (unit, byte list) outcome" where
  "Serialize_CCoins fully_valid c =
     (let (nMaskSize, nMaskCode) = CalcMaskSize c 0 0 in
      if \<not> (fFirst c \<or> fSecond c \<or> nMaskCode \<noteq> 0) then Abort
      else let nCode = header_code 16 c nMaskCode in
        bindO (Serialize_outs fully_valid (cvout c)) (\<lambda>outs.
          Ok (WriteVarInt_int (cVersion c) @ WriteVarInt nCode @ map (mask_byte (cvout c)) [0..<nMaskSize] @ outs @
              WriteVarInt_int (cHeight c))))"

fun outs_size :: "(CPubKey \<Rightarrow> bool) \<Rightarrow> CTxOut list \<Rightarrow> (unit, nat) outcome" where
  "outs_size fully_valid [] = Ok 0"
| "outs_size fully_valid (v # vs) =
     bindO (if CTxOut_IsNull v then Ok 0 else bindO (Serialize_CTxOutCompressor fully_valid v) (\<lambda>b. Ok (length b))) (\<lambda>k.
     bindO (outs_size fully_valid vs) (\<lambda>n. Ok (k + n)))"

definition GetSerializeSize_CCoins :: "(CPubKey \<Rightarrow> bool) \<Rightarrow> CCoins \<Rightarrow> (unit, nat) outcome" where
  "GetSerializeSize_CCoins fully_valid c =
     (let (nMaskSize, nMaskCode) = CalcMaskSize c 0 0 in
      if \<not> (fFirst c \<or> fSecond c \<or> nMaskCode \<noteq> 0) then Abort
      else let nCode = header_code 8 c nMaskCode in
        bindO (outs_size fully_valid (cvout c)) (\<lambda>outs.
          Ok (GetSizeOfVarInt_int (cVersion c) + GetSizeOfVarInt nCode + nMaskSize + outs + GetSizeOfVarInt_int (cHeight c))))"

fun read_mask :: "nat \<Rightarrow> bool list \<Rightarrow> bool list reader" where
  "read_mask 0 vAvail s = Ok (vAvail, s)"
| "read_mask (Suc nMaskCode) vAvail [] = Throw ios_failure"
| "read_mask (Suc nMaskCode) vAvail (chAvail # s) =
     read_mask (if chAvail \<noteq> 0 then nMaskCode else Suc nMaskCode)
       (vAvail @ map (\<lambda>p. chAvail AND push_bit p 1 \<noteq> 0) [0..<8]) s"

fun Unserialize_outs :: "(CPubKey \<Rightarrow> CPubKey option) \<Rightarrow> bool list \<Rightarrow> CTxOut list reader" where
  "Unserialize_outs decompress [] s = Ok ([], s)"
| "Unserialize_outs decompress (a # vAvail) s =
     bindO (if a then Unserialize_CTxOutCompressor decompress CTxOut_SetNull s else Ok (CTxOut_SetNull, s)) (\<lambda>(out, s).
     bindO (Unserialize_outs decompress vAvail s) (\<lambda>(outs, s). Ok (out # outs, s)))"

definition Unserialize_CCoins :: "(CPubKey \<Rightarrow> CPubKey option) \<Rightarrow> CCoins reader" where
  "Unserialize_CCoins decompress s =
     bindO (ReadVarInt s) (\<lambda>(ver, s). bindO (ReadVarInt s) (\<lambda>(nCode :: uint32, s).
     let vAvail = [nCode AND 4 \<noteq> 0, nCode AND 8 \<noteq> 0];
         nMaskCode = nCode div 16 + (if nCode AND 12 \<noteq> 0 then 0 else 1)
     in bindO (read_mask (unat nMaskCode) vAvail s) (\<lambda>(vAvail, s).
        bindO (Unserialize_outs decompress vAvail s) (\<lambda>(outs, s).
        bindO (ReadVarInt s) (\<lambda>(h, s).
          Ok (Cleanup \<lparr>fCoinBase = (nCode AND 1 \<noteq> 0), fCoinStake = (nCode AND 2 \<noteq> 0), cvout = outs, cHeight = h,
                cVersion = ver\<rparr>, s))))))"

section \<open>Spending and undo data\<close>

record CTxInUndo =
  utxout :: CTxOut
  uCoinBase :: bool
  uCoinStake :: bool
  uHeight :: uint32
  uVersion :: int32

definition CTxInUndo_of :: "CTxOut \<Rightarrow> CTxInUndo" where
  "CTxInUndo_of txoutIn = \<lparr>utxout = txoutIn, uCoinBase = False, uCoinStake = False, uHeight = 0, uVersion = 0\<rparr>"

text \<open>\<open>Spend\<close> returns false, here \<open>None\<close>, when the output is missing or spent.\<close>

definition Spend :: "CCoins \<Rightarrow> nat \<Rightarrow> (CCoins \<times> CTxInUndo) option" where
  "Spend c n =
     (if n \<ge> length (cvout c) then None
      else if CTxOut_IsNull (cvout c ! n) then None
      else let undo = CTxInUndo_of (cvout c ! n);
               c = Cleanup (c\<lparr>cvout := (cvout c)[n := CTxOut_SetNull]\<rparr>)
           in Some (c, if length (cvout c) = 0
                       then undo\<lparr>uHeight := cHeight c, uCoinBase := fCoinBase c, uCoinStake := fCoinStake c, uVersion := cVersion c\<rparr>
                       else undo))"

definition undo_code :: "CTxInUndo \<Rightarrow> uint32" where
  "undo_code u = uHeight u * 4 + (if uCoinBase u then 2 else 0) + (if uCoinStake u then 1 else 0)"

definition Serialize_CTxInUndo :: "(CPubKey \<Rightarrow> bool) \<Rightarrow> CTxInUndo \<Rightarrow> (unit, byte list) outcome" where
  "Serialize_CTxInUndo fully_valid u =
     bindO (Serialize_CTxOutCompressor fully_valid (utxout u)) (\<lambda>b.
       Ok (WriteVarInt (undo_code u) @ (if uHeight u > 0 then WriteVarInt_int (uVersion u) else []) @ b))"

definition Unserialize_CTxInUndo :: "(CPubKey \<Rightarrow> CPubKey option) \<Rightarrow> CTxInUndo reader" where
  "Unserialize_CTxInUndo decompress s =
     bindO (ReadVarInt s) (\<lambda>(nCode :: uint32, s).
     let h = drop_bit 2 nCode in
     bindO (if h > 0 then ReadVarInt s else Ok (0, s)) (\<lambda>(ver, s).
     bindO (Unserialize_CTxOutCompressor decompress CTxOut_SetNull s) (\<lambda>(out, s).
       Ok (\<lparr>utxout = out, uCoinBase = (nCode AND 2 \<noteq> 0), uCoinStake = (nCode AND 1 \<noteq> 0), uHeight = h, uVersion = ver\<rparr>, s))))"

text \<open>
  The body of the loop of \<open>DisconnectBlock\<close> that restores an input, with the clean-up that the modifier's
  destructor does; the second component says whether no inconsistency was reported.
\<close>

definition restore_input :: "nat \<Rightarrow> CTxInUndo \<Rightarrow> CCoins \<Rightarrow> CCoins \<times> bool" where
  "restore_input n undo coins =
     (let (coins, fClean) =
            (if uHeight undo \<noteq> 0
             then ((CCoins_Clear coins)\<lparr>fCoinBase := uCoinBase undo, cHeight := uHeight undo, cVersion := uVersion undo\<rparr>,
                   IsPruned coins)
             else (coins, \<not> IsPruned coins));
          fClean = (fClean \<and> \<not> IsAvailable coins n);
          v = (if length (cvout coins) < n + 1 then cvout coins @ replicate (n + 1 - length (cvout coins)) CTxOut_SetNull
               else cvout coins)
      in (Cleanup (coins\<lparr>cvout := v[n := utxout undo]\<rparr>), fClean))"

section \<open>Clean-up\<close>

lemma cleanup_done: "v = [] \<or> \<not> CTxOut_IsNull (last v) \<Longrightarrow> cleanup_loop v = v"
  by (subst cleanup_loop.simps) auto

lemma cleanup_snoc: "CTxOut_IsNull x \<Longrightarrow> cleanup_loop (v @ [x]) = cleanup_loop v"
  by (subst cleanup_loop.simps) simp

lemma cleanup_append: "list_all CTxOut_IsNull xs \<Longrightarrow> cleanup_loop (v @ xs) = cleanup_loop v"
proof (induction xs rule: rev_induct)
  case (snoc x xs)
  then show ?case using cleanup_snoc [of x "v @ xs"] by simp
qed simp

lemma cleanup_null: "list_all CTxOut_IsNull v \<Longrightarrow> cleanup_loop v = []"
  using cleanup_append [of v "[]"] cleanup_done [of "[]"] by simp

lemma cleanup_split: "\<exists>xs. v = cleanup_loop v @ xs \<and> list_all CTxOut_IsNull xs"
proof (induction v rule: cleanup_loop.induct)
  case (1 v)
  show ?case
  proof (cases "length v > 0 \<and> CTxOut_IsNull (last v)")
    case True
    then obtain xs where "butlast v = cleanup_loop (butlast v) @ xs" "list_all CTxOut_IsNull xs" using 1 by auto
    moreover have "v = butlast v @ [last v]" using True by simp
    moreover have "cleanup_loop v = cleanup_loop (butlast v)" using True by (subst cleanup_loop.simps) simp
    ultimately have "v = cleanup_loop v @ xs @ [last v]" by (metis append_assoc)
    moreover have "list_all CTxOut_IsNull (xs @ [last v])" using True \<open>list_all CTxOut_IsNull xs\<close> by simp
    ultimately show ?thesis by blast
  next
    case False
    then show ?thesis by (subst cleanup_loop.simps) auto
  qed
qed

lemma cleanup_last: "cleanup_loop v \<noteq> [] \<Longrightarrow> \<not> CTxOut_IsNull (last (cleanup_loop v))"
proof (induction v rule: cleanup_loop.induct)
  case (1 v)
  then show ?case by (cases "length v > 0 \<and> CTxOut_IsNull (last v)") (simp_all add: cleanup_loop.simps [of v] split: if_splits)
qed

lemma cleanup_pruned: "list_all CTxOut_IsNull (cleanup_loop v) \<longleftrightarrow> cleanup_loop v = []"
proof (cases "cleanup_loop v = []")
  case False
  then have "last (cleanup_loop v) \<in> set (cleanup_loop v)" by (rule last_in_set)
  then show ?thesis using cleanup_last [OF False] False by (auto simp: list_all_iff)
qed simp

lemma IsNull_SetNull [simp]: "CTxOut_IsNull CTxOut_SetNull"
  by (simp add: CTxOut_IsNull_def CTxOut_SetNull_def)

section \<open>The bit mask\<close>

definition avail :: "CTxOut list \<Rightarrow> nat \<Rightarrow> bool" where
  "avail v i \<longleftrightarrow> i < length v \<and> \<not> CTxOut_IsNull (v ! i)"

lemma bit_mask_byte: "i < 8 \<Longrightarrow> bit (mask_byte v b) i \<longleftrightarrow> avail v (2 + b * 8 + i)"
proof -
  let ?f = "\<lambda>chAvail i. if 2 + b * 8 + i < length v \<and> \<not> CTxOut_IsNull (v ! (2 + b * 8 + i)) then chAvail OR push_bit i 1 else chAvail"
  have "bit (foldl ?f (0 :: byte) [0..<k]) i \<longleftrightarrow> i < k \<and> avail v (2 + b * 8 + i)" if "k \<le> 8" "i < 8" for k i
    using that(1)
  proof (induction k)
    case (Suc k)
    have "bit (push_bit k (1 :: byte)) i \<longleftrightarrow> i = k" using that(2) Suc.prems by (simp add: push_bit_of_1 bit_exp_iff)
    then show ?case using Suc by (auto simp: bit_or_iff avail_def less_Suc_eq)
  qed simp
  from this [of 8 i] show "i < 8 \<Longrightarrow> ?thesis" unfolding mask_byte_def by simp
qed

lemma mask_byte_zero: "mask_byte v b = 0 \<longleftrightarrow> mask_zero v b"
proof -
  have "mask_byte v b = 0 \<longleftrightarrow> (\<forall>i < 8. \<not> bit (mask_byte v b) i)"
    by (auto intro!: bit_word_eqI)
  then show ?thesis by (auto simp: bit_mask_byte mask_zero_def avail_def list_all_iff)
qed

lemma mask_loop_spec:
  "mask_loop v b l k = (l', k') \<Longrightarrow> l \<le> b \<Longrightarrow>
    (\<forall>j \<ge> b. mask_byte v j \<noteq> 0 \<longrightarrow> j < l') \<and> (l' = l \<or> b < l' \<and> mask_byte v (l' - 1) \<noteq> 0) \<and>
    k' = k + length (filter (\<lambda>j. mask_byte v j \<noteq> 0) [b..<l'])"
proof (induction v b l k rule: mask_loop.induct)
  case (1 v b l k)
  show ?case
  proof (cases "2 + b * 8 < length v")
    case False
    then have "mask_byte v j = 0" if "b \<le> j" for j using that by (auto simp: mask_byte_zero mask_zero_def list_all_iff)
    then show ?thesis using "1.prems" False by (subst (asm) mask_loop.simps) auto
  next
    case True
    have from_b: "b \<le> j \<Longrightarrow> j = b \<or> b + 1 \<le> j" for j by auto
    show ?thesis
    proof (cases "mask_zero v b")
      case z: True
      then have e: "mask_loop v (b + 1) l k = (l', k')" using "1.prems"(1) True by (subst (asm) mask_loop.simps) simp
      have IH: "(\<forall>j \<ge> b + 1. mask_byte v j \<noteq> 0 \<longrightarrow> j < l')" "l' = l \<or> b + 1 < l' \<and> mask_byte v (l' - 1) \<noteq> 0"
          "k' = k + length (filter (\<lambda>j. mask_byte v j \<noteq> 0) [b + 1..<l'])"
        using "1.IH"(2) [OF True _ e] z "1.prems"(2) by auto
      have "mask_byte v b = 0" using z by (simp add: mask_byte_zero)
      then have "\<forall>j \<ge> b. mask_byte v j \<noteq> 0 \<longrightarrow> j < l'" using IH(1) from_b by blast
      moreover have "filter (\<lambda>j. mask_byte v j \<noteq> 0) [b..<l'] = filter (\<lambda>j. mask_byte v j \<noteq> 0) [b + 1..<l']"
        using \<open>mask_byte v b = 0\<close> by (cases "b < l'") (simp_all add: upt_conv_Cons)
      ultimately show ?thesis using IH by auto
    next
      case nz: False
      then have e: "mask_loop v (b + 1) (b + 1) (k + 1) = (l', k')" using "1.prems"(1) True by (subst (asm) mask_loop.simps) simp
      have IH: "(\<forall>j \<ge> b + 1. mask_byte v j \<noteq> 0 \<longrightarrow> j < l')" "l' = b + 1 \<or> b + 1 < l' \<and> mask_byte v (l' - 1) \<noteq> 0"
          "k' = k + 1 + length (filter (\<lambda>j. mask_byte v j \<noteq> 0) [b + 1..<l'])"
        using "1.IH"(1) [OF True nz e] by auto
      have "mask_byte v b \<noteq> 0" "b < l'" using nz IH(2) by (auto simp: mask_byte_zero)
      then have "\<forall>j \<ge> b. mask_byte v j \<noteq> 0 \<longrightarrow> j < l'" using IH(1) from_b by blast
      then show ?thesis using IH \<open>mask_byte v b \<noteq> 0\<close> \<open>b < l'\<close> by (auto simp: upt_conv_Cons)
    qed
  qed
qed

text \<open>The availability bits of the whole vector, as they come out of the mask.\<close>

lemma read_mask_bytes:
  "bs = [] \<or> last bs \<noteq> 0 \<Longrightarrow> read_mask (length (filter (\<lambda>b. b \<noteq> 0) bs)) av (bs @ s) =
    Ok (av @ concat (map (\<lambda>b. map (\<lambda>p. b AND push_bit p 1 \<noteq> 0) [0..<8]) bs), s)"
proof (induction bs arbitrary: av)
  case (Cons b bs)
  show ?case
  proof (cases "bs = []")
    case True
    then show ?thesis using Cons.prems by simp
  next
    case False
    then have "last bs \<noteq> 0" using Cons.prems by simp
    moreover from this False have "last bs \<in> set (filter (\<lambda>b. b \<noteq> 0) bs)" by simp
    then obtain k where k: "length (filter (\<lambda>b. b \<noteq> 0) bs) = Suc k" by (metis length_pos_if_in_set Suc_pred)
    ultimately show ?thesis using Cons.IH by (cases "b = 0") (simp_all del: upt_Suc)
  qed
qed simp

lemma byte_bits: "p < 8 \<Longrightarrow> mask_byte v b AND push_bit p 1 \<noteq> 0 \<longleftrightarrow> avail v (2 + b * 8 + p)"
  by (simp add: push_bit_of_1 and_exp_eq_0_iff_not_bit bit_mask_byte)

lemma concat_blocks: "concat (map (\<lambda>b. map (\<lambda>p. f (b * 8 + p)) [0..<8]) [0..<L]) = map f [0..<L * 8]"
proof (induction L)
  case (Suc L)
  have "map f [0..<Suc L * 8] = map f [0..<L * 8] @ map f [L * 8..<L * 8 + 8]"
    unfolding mult_Suc add.commute [of 8] using upt_add_eq_append [of 0 "L * 8" 8] by (simp only: map_append)
  also have "map f [L * 8..<L * 8 + 8] = map (\<lambda>p. f (L * 8 + p)) [0..<8]"
    by (intro nth_equalityI) auto
  finally show ?case using Suc by simp
qed simp

lemma mask_bits:
  "[avail v 0, avail v 1] @ concat (map (\<lambda>b. map (\<lambda>p. b AND push_bit p 1 \<noteq> 0) [0..<8]) (map (mask_byte v) [0..<L])) =
    map (avail v) [0..<2 + L * 8]"
proof -
  have e: "map (\<lambda>p. mask_byte v b AND push_bit p 1 \<noteq> 0) [0..<8] = map (\<lambda>p. avail v (2 + (b * 8 + p))) [0..<8]" for b
  proof (intro map_cong [OF refl])
    fix p :: nat
    assume "p \<in> set [0..<8]"
    then have "p < 8" by (simp only: set_upt atLeastLessThan_iff)
    then show "(mask_byte v b AND push_bit p 1 \<noteq> 0) = avail v (2 + (b * 8 + p))" by (simp only: byte_bits add.assoc)
  qed
  have "concat (map (\<lambda>b. map (\<lambda>p. b AND push_bit p 1 \<noteq> 0) [0..<8]) (map (mask_byte v) [0..<L])) = map (\<lambda>q. avail v (2 + q)) [0..<L * 8]"
    unfolding map_map o_def e by (rule concat_blocks)
  moreover have "map (avail v) [0..<2 + L * 8] = [avail v 0, avail v 1] @ map (\<lambda>q. avail v (2 + q)) [0..<L * 8]"
  proof -
    have "[0..<2 + L * 8] = [0, 1] @ map (\<lambda>q. q + 2) [0..<L * 8]"
      using upt_add_eq_append [of 0 2 "L * 8"] map_add_upt [of 2 "L * 8"] by (simp add: numeral_2_eq_2 add.commute)
    then show ?thesis by (simp add: add.commute del: upt_Suc)
  qed
  ultimately show ?thesis by (simp only:)
qed

lemma avail_pad:
  assumes "length v \<le> N"
  shows "map (avail v) [0..<N] = map (\<lambda>out. \<not> CTxOut_IsNull out) (v @ replicate (N - length v) CTxOut_SetNull)"
  using assms by (intro nth_equalityI) (auto simp: avail_def nth_append)

section \<open>Outputs\<close>

text \<open>Outputs that survive: spent ones carry nothing, the others have an amount within range.\<close>

definition wf_out :: "CTxOut \<Rightarrow> bool" where
  "wf_out out \<longleftrightarrow> (if CTxOut_IsNull out then out = CTxOut_SetNull
     else unat (nValue out) \<le> 2 ^ 60 \<and> length (scriptPubKey out) + 6 < 2 ^ 32 \<and> nRounds out = -10)"

lemma wf_out_eq: "wf_out out \<Longrightarrow> \<not> CTxOut_IsNull out \<Longrightarrow> CTxOut_SetNull\<lparr>nValue := nValue out, scriptPubKey := scriptPubKey out\<rparr> = out"
  by (cases out) (simp add: wf_out_def CTxOut_SetNull_def)

lemma outs_roundtrip:
  assumes "curve_recovers fully_valid decompress" "list_all wf_out v"
  obtains b where "Serialize_outs fully_valid v = Ok b"
    "\<And>s. Unserialize_outs decompress (map (\<lambda>out. \<not> CTxOut_IsNull out) v) (b @ s) = Ok (v, s)"
  using assms(2)
proof (induction v arbitrary: thesis)
  case (Cons x v)
  obtain b where b: "Serialize_outs fully_valid v = Ok b"
    "\<And>s. Unserialize_outs decompress (map (\<lambda>out. \<not> CTxOut_IsNull out) v) (b @ s) = Ok (v, s)"
    using Cons.IH Cons.prems(2) by auto
  show ?case
  proof (cases "CTxOut_IsNull x")
    case True
    then show ?thesis using Cons.prems b by (simp add: wf_out_def)
  next
    case False
    then have x: "length (scriptPubKey x) + 6 < 2 ^ 32" "unat (nValue x) \<le> 2 ^ 60" using Cons.prems(2) by (simp_all add: wf_out_def)
    obtain c where "Serialize_CTxOutCompressor fully_valid x = Ok c"
      "\<And>o0 rest. Unserialize_CTxOutCompressor decompress o0 (c @ rest) =
        Ok (o0\<lparr>nValue := nValue x, scriptPubKey := scriptPubKey x\<rparr>, rest)"
      using txout_roundtrip [OF assms(1) x] by blast
    then show ?thesis using Cons.prems b False wf_out_eq [of x] by (intro Cons.prems(1) [of "c @ b"]) simp_all
  qed
qed simp

lemma Serialize_outs_null: "Serialize_outs fully_valid (v @ replicate k CTxOut_SetNull) = Serialize_outs fully_valid v"
proof (induction v)
  case Nil
  show ?case by (induction k) simp_all
qed simp

section \<open>The header code\<close>

lemma code_bits:
  fixes k :: uint32
  assumes "c < 2 ^ e" "take_bit e k = k"
  shows "of_nat (2 ^ e * m + c) AND k = of_nat c AND k"
proof -
  have "take_bit e (of_nat (2 ^ e * m + c) :: uint32) = of_nat c" "take_bit e (of_nat c :: uint32) = of_nat c"
    using assms(1) unfolding take_bit_of_nat by (simp_all add: take_bit_eq_mod)
  moreover have "x AND k = take_bit e x AND k" for x :: uint32
    using assms(2) by (metis and.assoc and.commute take_bit_eq_mask)
  ultimately show ?thesis by metis
qed

lemma code_div:
  assumes "16 * m + 15 < 2 ^ 32" "c < 16"
  shows "(16 * of_nat m + of_nat c :: uint32) div 16 = of_nat m"
proof -
  have e: "16 * of_nat m + of_nat c = (of_nat (16 * m + c) :: uint32)" by simp
  have "unat (of_nat (16 * m + c) :: uint32) = 16 * m + c"
    unfolding unsigned_of_nat using assms by (simp add: take_bit_nat_eq_self)
  then have "unat ((of_nat (16 * m + c) :: uint32) div 16) = m" unfolding unat_div using assms by simp
  moreover have "unat (of_nat m :: uint32) = m" using assms by (simp add: unsigned_of_nat take_bit_nat_eq_self)
  ultimately show ?thesis unfolding e by (simp add: word_unat_eq_iff)
qed

lemma header_code_fields:
  fixes c :: CCoins
  assumes "K \<noteq> 0 \<or> fFirst c \<or> fSecond c" "16 * K + 15 < 2 ^ 32"
  defines "n \<equiv> header_code 16 c K"
  shows "(n AND 1 \<noteq> 0) = fCoinBase c" "(n AND 2 \<noteq> 0) = fCoinStake c" "(n AND 4 \<noteq> 0) = fFirst c" "(n AND 8 \<noteq> 0) = fSecond c"
    "unat (n div 16 + (if n AND 12 \<noteq> 0 then 0 else 1)) = K"
proof -
  define m where "m = K - (if fFirst c \<or> fSecond c then 0 else 1)"
  define r where "r = (if fCoinBase c then 1 else 0) + (if fCoinStake c then 2 else 0) + (if fFirst c then 4 else 0) + (if fSecond c then 8 else (0 :: nat))"
  have "(of_nat K - (if fFirst c \<or> fSecond c then 0 else 1) :: uint32) = of_nat m"
    using assms(1) by (auto simp: m_def of_nat_diff)
  then have n: "n = 16 * of_nat m + of_nat r" by (simp add: n_def header_code_def r_def)
  then have n': "n = of_nat (16 * m + r)" by simp
  have bits: "n AND k = of_nat r AND k" if "take_bit 4 k = k" for k
    using code_bits [OF _ that, of r m] unfolding n' by (simp add: r_def)
  show "(n AND 1 \<noteq> 0) = fCoinBase c" "(n AND 2 \<noteq> 0) = fCoinStake c" "(n AND 4 \<noteq> 0) = fFirst c" "(n AND 8 \<noteq> 0) = fSecond c"
    by (simp_all add: bits r_def)
  have "(n AND 12 \<noteq> 0) = (fFirst c \<or> fSecond c)" by (simp add: bits r_def)
  moreover have "n div 16 = of_nat m" unfolding n using assms(2) by (intro code_div) (auto simp: m_def r_def)
  moreover have "m + (if fFirst c \<or> fSecond c then 0 else 1) = K" using assms(1) by (auto simp: m_def)
  then have "of_nat m + (if fFirst c \<or> fSecond c then 0 else 1) = (of_nat K :: uint32)" by (auto simp: ac_simps)
  moreover have "unat (of_nat K :: uint32) = K" using assms(2) by (simp add: unsigned_of_nat take_bit_nat_eq_self)
  ultimately show "unat (n div 16 + (if n AND 12 \<noteq> 0 then 0 else 1)) = K" by (simp only:)
qed

lemma WriteVarInt_int_nonneg: "unat n < 2 ^ 31 \<Longrightarrow> WriteVarInt_int n = WriteVarInt n"
proof -
  assume n: "unat n < 2 ^ 31"
  have u: "uint n = int (unat n)" by simp
  have "signed_take_bit 31 (int N) = int N" if "N < 2 ^ 31" for N :: nat
    using that by (intro signed_take_bit_int_eq_self) simp_all
  from this [OF n] have "sint n = int (unat n)" unfolding sint_uint u by simp
  then have "sint n \<le> 0x7F \<longleftrightarrow> unat n \<le> 0x7F" by linarith
  then show ?thesis by (simp add: WriteVarInt_int_def WriteVarInt_def varint_tmp.simps [of 0])
qed

section \<open>Round trips\<close>

text \<open>Coins as they are stored: cleaned up, with an unspent output, and with numbers in range.\<close>

definition wf_coins :: "CCoins \<Rightarrow> bool" where
  "wf_coins c \<longleftrightarrow> cvout c \<noteq> [] \<and> \<not> CTxOut_IsNull (last (cvout c)) \<and> list_all wf_out (cvout c) \<and>
     length (cvout c) < 2 ^ 27 \<and> unat (cHeight c) < 2 ^ 31 \<and> unat (cVersion c) < 2 ^ 31"

lemma mask_covers:
  assumes "mask_loop v 0 0 0 = (L, K)" "v \<noteq> []" "\<not> CTxOut_IsNull (last v)"
  shows "length v \<le> 2 + L * 8"
proof (rule ccontr)
  assume long: "\<not> length v \<le> 2 + L * 8"
  define q where "q = length v - 3"
  have q: "2 + (q div 8) * 8 + q mod 8 = length v - 1" using long by (simp add: q_def)
  have "avail v (length v - 1)" using assms(2,3) by (simp add: avail_def last_conv_nth)
  then have "bit (mask_byte v (q div 8)) (q mod 8)" using bit_mask_byte [of "q mod 8" v "q div 8"] q by simp
  then have "mask_byte v (q div 8) \<noteq> 0" by auto
  then have "q div 8 < L" using mask_loop_spec [OF assms(1)] by simp
  then show False using long q_def by simp
qed

lemma mask_count:
  assumes "mask_loop v 0 0 0 = (L, K)"
  shows "K = length (filter (\<lambda>b. b \<noteq> 0) (map (mask_byte v) [0..<L]))" "L = 0 \<or> last (map (mask_byte v) [0..<L]) \<noteq> 0" "K \<le> L"
proof -
  have m: "L = 0 \<or> mask_byte v (L - 1) \<noteq> 0" "K = length (filter (\<lambda>j. mask_byte v j \<noteq> 0) [0..<L])"
    using mask_loop_spec [OF assms] by auto
  show "K = length (filter (\<lambda>b. b \<noteq> 0) (map (mask_byte v) [0..<L]))" using m(2) by (simp add: filter_map o_def)
  show "L = 0 \<or> last (map (mask_byte v) [0..<L]) \<noteq> 0" using m(1) by (cases L) auto
  show "K \<le> L" using m(2) length_filter_le [of _ "[0..<L]"] by (metis length_upt diff_zero)
qed

lemma mask_some:
  assumes "mask_loop v 0 0 0 = (L, K)" "v \<noteq> []" "\<not> CTxOut_IsNull (last v)" "\<not> avail v 0" "\<not> avail v 1"
  shows "K \<noteq> 0"
proof -
  have last: "avail v (length v - 1)" using assms(2,3) by (simp add: avail_def last_conv_nth)
  then have "length v - 1 \<noteq> 0" "length v - 1 \<noteq> 1" using assms(4,5) by metis+
  then have "L \<noteq> 0" using mask_covers [OF assms(1-3)] by auto
  then have "last (map (mask_byte v) [0..<L]) \<in> set (map (mask_byte v) [0..<L])" by (intro last_in_set) simp
  then have "last (map (mask_byte v) [0..<L]) \<in> set (filter (\<lambda>b. b \<noteq> 0) (map (mask_byte v) [0..<L]))"
    using mask_count(2) [OF assms(1)] \<open>L \<noteq> 0\<close> unfolding set_filter by blast
  then show ?thesis using mask_count(1) [OF assms(1)] by (metis length_pos_if_in_set less_numeral_extra(3))
qed

lemma mask_small: "mask_loop v b l k = (L, K) \<Longrightarrow> l \<le> b \<Longrightarrow> L \<le> max b (length v)"
proof (induction v b l k rule: mask_loop.induct)
  case (1 v b l k)
  show ?case
  proof (cases "2 + b * 8 < length v")
    case True
    then have "L \<le> max (b + 1) (length v)"
      using "1.IH"(1) [OF True] "1.IH"(2) [OF True] "1.prems" by (subst (asm) (3) mask_loop.simps) (auto split: if_splits)
    then show ?thesis using True by simp
  next
    case False
    then show ?thesis using "1.prems" by (subst (asm) mask_loop.simps) simp
  qed
qed

text \<open>
  C39: coins written to the database come back: the coins of a transaction with at least one unspent output,
  cleaned up and with non-negative numbers in range, are serialized without failing the assertion, and reading
  the bytes returns the same coins and the following bytes, provided the curve library recovers valid keys
  from their compressed form.
\<close>

theorem coins_roundtrip:
  assumes curve: "curve_recovers fully_valid decompress" and c: "wf_coins c"
  shows "\<exists>b. Serialize_CCoins fully_valid c = Ok b \<and> Unserialize_CCoins decompress (b @ rest) = Ok (c, rest)"
proof -
  let ?v = "cvout c"
  obtain L K where LK: "mask_loop ?v 0 0 0 = (L, K)" by (metis prod.exhaust)
  note cnt = mask_count [OF LK]
  have len: "length ?v \<le> 2 + L * 8" using c by (intro mask_covers [OF LK]) (auto simp: wf_coins_def)
  have K: "16 * K + 15 < 2 ^ 32" using mask_small [OF LK] cnt(3) c by (simp add: wf_coins_def)
  have some: "K \<noteq> 0 \<or> fFirst c \<or> fSecond c" 
    using mask_some [OF LK] c by (auto simp: wf_coins_def fFirst_def fSecond_def avail_def)
  note code = header_code_fields [OF some K]
  define v' where "v' = ?v @ replicate (2 + L * 8 - length ?v) CTxOut_SetNull"
  have "wf_out CTxOut_SetNull" by (simp add: wf_out_def)
  then have "list_all wf_out v'" using c by (auto simp: v'_def wf_coins_def list_all_iff)
  from outs_roundtrip [OF curve this] obtain b where b: "Serialize_outs fully_valid v' = Ok b"
    "\<And>s. Unserialize_outs decompress (map (\<lambda>out. \<not> CTxOut_IsNull out) v') (b @ s) = Ok (v', s)" by blast
  have clean: "cleanup_loop v' = ?v"
    using c cleanup_append [of "replicate (2 + L * 8 - length ?v) CTxOut_SetNull" ?v] cleanup_done [of ?v]
    by (simp add: v'_def wf_coins_def list_all_iff)
  define bs where "bs = map (mask_byte ?v) [0..<L]"
  let ?n = "header_code 16 c K"
  have ser: "Serialize_CCoins fully_valid c = Ok (WriteVarInt (cVersion c) @ WriteVarInt ?n @ bs @ b @ WriteVarInt (cHeight c))"
    using b(1) some c LK
    by (auto simp: Serialize_CCoins_def CalcMaskSize_def v'_def Serialize_outs_null bs_def WriteVarInt_int_nonneg wf_coins_def)
  have "bs = [] \<or> last bs \<noteq> 0" using cnt(2) by (auto simp: bs_def)
  then have "read_mask K [fFirst c, fSecond c] (bs @ s) =
      Ok ([fFirst c, fSecond c] @ concat (map (\<lambda>b. map (\<lambda>p. b AND push_bit p 1 \<noteq> 0) [0..<8]) bs), s)" for s
    using read_mask_bytes [of bs] cnt(1) by (simp only: bs_def)
  moreover have "[fFirst c, fSecond c] @ concat (map (\<lambda>b. map (\<lambda>p. b AND push_bit p 1 \<noteq> 0) [0..<8]) bs) =
      map (\<lambda>out. \<not> CTxOut_IsNull out) v'"
    using mask_bits [of ?v L] avail_pad [OF len] by (simp only: bs_def v'_def fFirst_def fSecond_def avail_def)
  ultimately have mask: "read_mask K [fFirst c, fSecond c] (bs @ s) = Ok (map (\<lambda>out. \<not> CTxOut_IsNull out) v', s)" for s by metis
  have "Unserialize_CCoins decompress ((WriteVarInt (cVersion c) @ WriteVarInt ?n @ bs @ b @ WriteVarInt (cHeight c)) @ rest) = Ok (c, rest)"
    unfolding Unserialize_CCoins_def append_assoc
    by (simp add: varint32.bind_unser code Let_def mask b(2) Cleanup_def clean del: read_mask.simps)
  with ser show ?thesis by blast
qed

theorem coins_roundtrip_witness:
  "\<exists>b. Serialize_CCoins (\<lambda>pk. pk = 4 # replicate 64 0)
      \<lparr>fCoinBase = False, fCoinStake = True, cvout = [CTxOut_SetNull, CTxOut_of 5 (65 # (4 # replicate 64 0) @ [of_nat OP_CHECKSIG])],
        cHeight = 10, cVersion = 1\<rparr> = Ok b \<and>
    Unserialize_CCoins (\<lambda>_. Some (4 # replicate 64 0)) (b @ [7]) =
      Ok (\<lparr>fCoinBase = False, fCoinStake = True, cvout = [CTxOut_SetNull, CTxOut_of 5 (65 # (4 # replicate 64 0) @ [of_nat OP_CHECKSIG])],
        cHeight = 10, cVersion = 1\<rparr>, [7])"
  by (rule coins_roundtrip)
    (simp_all add: curve_recovers_def wf_coins_def wf_out_def CTxOut_of_def CTxOut_SetNull_def CTxOut_IsNull_def)

section \<open>Undo\<close>

lemma restore_vector:
  assumes "list_all wf_out v" "n < length v" "\<not> CTxOut_IsNull (v ! n)" "\<not> CTxOut_IsNull (last v)"
  defines "u \<equiv> cleanup_loop (v[n := CTxOut_SetNull])"
  shows "(if length u < n + 1 then u @ replicate (n + 1 - length u) CTxOut_SetNull else u)[n := v ! n] = v"
proof -
  obtain xs where xs: "v[n := CTxOut_SetNull] = u @ xs" "list_all CTxOut_IsNull xs"
    using cleanup_split [of "v[n := CTxOut_SetNull]"] by (auto simp: u_def)
  have wf: "list_all wf_out (v[n := CTxOut_SetNull])"
    using assms(1) by (auto simp: list_all_iff wf_out_def dest!: set_update_subset_insert [THEN subsetD])
  have null: "xs = replicate (length xs) CTxOut_SetNull"
    using xs wf by (intro replicate_eqI) (auto simp: list_all_iff wf_out_def)
  have len: "length v = length u + length xs" using arg_cong [OF xs(1), of length] by simp
  have end_n: "n = length v - 1" if "xs \<noteq> []"
  proof (rule ccontr)
    assume "n \<noteq> length v - 1"
    then have "last (v[n := CTxOut_SetNull]) = last v" using assms(2) by (subst last_list_update) auto
    moreover have "CTxOut_IsNull (last xs)" using xs(2) that by (simp add: list_all_iff)
    ultimately show False using xs(1) that assms(4) by simp
  qed
  have "(if length u < n + 1 then u @ replicate (n + 1 - length u) CTxOut_SetNull else u) = v[n := CTxOut_SetNull]"
  proof (cases "xs = []")
    case True
    then show ?thesis using xs(1) len assms(2) by simp
  next
    case False
    then have "n + 1 - length u = length xs" "length u < n + 1" using end_n len assms(2) by auto
    then show ?thesis using xs(1) null by simp
  qed
  then show ?thesis by simp
qed

lemma undo_roundtrip:
  assumes curve: "curve_recovers fully_valid decompress" and out: "wf_out (utxout u)" "\<not> CTxOut_IsNull (utxout u)"
    and h: "unat (uHeight u) < 2 ^ 30" "unat (uVersion u) < 2 ^ 31" "uHeight u = 0 \<longrightarrow> uVersion u = 0"
  shows "\<exists>b. Serialize_CTxInUndo fully_valid u = Ok b \<and> Unserialize_CTxInUndo decompress (b @ rest) = Ok (u, rest)"
proof -
  have o: "length (scriptPubKey (utxout u)) + 6 < 2 ^ 32" "unat (nValue (utxout u)) \<le> 2 ^ 60" using out by (simp_all add: wf_out_def)
  obtain c where c: "Serialize_CTxOutCompressor fully_valid (utxout u) = Ok c"
    "\<And>o0 rest. Unserialize_CTxOutCompressor decompress o0 (c @ rest) =
      Ok (o0\<lparr>nValue := nValue (utxout u), scriptPubKey := scriptPubKey (utxout u)\<rparr>, rest)"
    using txout_roundtrip [OF curve o] by blast
  define r where "r = (if uCoinBase u then 2 else 0) + (if uCoinStake u then 1 else (0 :: nat))"
  define H where "H = unat (uHeight u)"
  have code: "undo_code u = of_nat (4 * H + r)" by (simp add: undo_code_def r_def H_def)
  have "r < 4" by (simp add: r_def)
  have "drop_bit 2 (undo_code u) = of_nat H"
    unfolding code word_unat_eq_iff unsigned_drop_bit_eq unsigned_of_nat
    using h(1) \<open>r < 4\<close> by (simp add: take_bit_nat_eq_self drop_bit_eq_div H_def)
  then have d: "drop_bit 2 (undo_code u) = uHeight u" by (simp add: H_def)
  have "(undo_code u AND 2 \<noteq> 0) = uCoinBase u" "(undo_code u AND 1 \<noteq> 0) = uCoinStake u"
    using code_bits [of r 2 2 H] code_bits [of r 2 1 H] \<open>r < 4\<close> by (simp_all add: code r_def)
  then show ?thesis using c d h wf_out_eq [OF out]
    by (cases "uHeight u = 0")
      (auto simp: Serialize_CTxInUndo_def Unserialize_CTxInUndo_def varint32.bind_unser Let_def WriteVarInt_int_nonneg word_gt_0)
qed

text \<open>
  C40: disconnecting a block undoes what spending did: the undo data of a spent output survives its serialization,
  and applying it to the spent coins restores them and reports no inconsistency. The one field that is not
  restored is \<open>fCoinStake\<close>, which is lost when the output was the transaction's last unspent one, although the undo
  data carries it. The height is not that of the genesis block and leaves room for the two flag bits.
\<close>

theorem spend_undo:
  assumes curve: "curve_recovers fully_valid decompress" and c: "wf_coins c" "cHeight c \<noteq> 0" "unat (cHeight c) < 2 ^ 30"
    and spend: "Spend c n = Some (c', undo)"
  shows "\<exists>b. Serialize_CTxInUndo fully_valid undo = Ok b \<and> Unserialize_CTxInUndo decompress (b @ rest) = Ok (undo, rest) \<and>
    restore_input n undo c' = (if IsPruned c' then c\<lparr>fCoinStake := False\<rparr> else c, True)"
proof -
  let ?v = "cvout c" and ?u = "cleanup_loop ((cvout c)[n := CTxOut_SetNull])"
  have n: "n < length ?v" "\<not> CTxOut_IsNull (?v ! n)" using spend by (auto simp: Spend_def split: if_splits)
  have c': "c' = c\<lparr>cvout := ?u\<rparr>" using spend by (auto simp: Spend_def Cleanup_def Let_def split: if_splits)
  have undo: "undo = (if ?u = [] then (CTxInUndo_of (?v ! n))\<lparr>uHeight := cHeight c, uCoinBase := fCoinBase c, uCoinStake := fCoinStake c,
      uVersion := cVersion c\<rparr> else CTxInUndo_of (?v ! n))"
    using spend by (auto simp: Spend_def Cleanup_def Let_def split: if_splits)
  have "\<exists>b. Serialize_CTxInUndo fully_valid undo = Ok b \<and> Unserialize_CTxInUndo decompress (b @ rest) = Ok (undo, rest)"
    using c n by (intro undo_roundtrip [OF curve]) (auto simp: undo CTxInUndo_of_def wf_coins_def list_all_iff)
  moreover have pruned: "IsPruned c' \<longleftrightarrow> ?u = []"
    by (simp add: IsPruned_def c' cleanup_pruned)
  moreover have "\<not> IsAvailable c' n"
  proof -
    obtain xs where "?v[n := CTxOut_SetNull] = ?u @ xs" using cleanup_split by blast
    then have "n < length ?u \<Longrightarrow> ?u ! n = CTxOut_SetNull" using n(1) by (metis nth_append nth_list_update_eq)
    then show ?thesis by (auto simp: IsAvailable_def c')
  qed
  moreover have "(if length ?u < n + 1 then ?u @ replicate (n + 1 - length ?u) CTxOut_SetNull else ?u)[n := ?v ! n] = ?v"
    using c n by (intro restore_vector) (auto simp: wf_coins_def)
  moreover have "cleanup_loop ?v = ?v" using c by (intro cleanup_done) (simp add: wf_coins_def)
  ultimately show ?thesis using c(2)
    by (cases "?u = []")
      (auto simp: restore_input_def undo CTxInUndo_of_def CCoins_Clear_def c' Cleanup_def IsAvailable_def simp del: replicate_Suc)
qed

theorem spend_undo_witness:
  "let c = \<lparr>fCoinBase = False, fCoinStake = True, cvout = [CTxOut_SetNull, CTxOut_of 5 [of_nat OP_1]], cHeight = 10, cVersion = 1\<rparr>;
       c' = c\<lparr>cvout := []\<rparr>;
       undo = \<lparr>utxout = CTxOut_of 5 [of_nat OP_1], uCoinBase = False, uCoinStake = True, uHeight = 10, uVersion = 1\<rparr>
   in \<exists>b. Serialize_CTxInUndo (\<lambda>_. False) undo = Ok b \<and> Unserialize_CTxInUndo (\<lambda>_. None) (b @ [7]) = Ok (undo, [7]) \<and>
     restore_input 1 undo c' = (if IsPruned c' then c\<lparr>fCoinStake := False\<rparr> else c, True)"
  unfolding Let_def
  by (rule spend_undo)
    (simp_all add: curve_recovers_def wf_coins_def wf_out_def CTxOut_of_def CTxOut_SetNull_def CTxOut_IsNull_def Spend_def
      Cleanup_def cleanup_loop.simps CTxInUndo_of_def)

end
