(* ===== verification/CoinsCache.thy ===== *)
theory CoinsCache
  imports Coins
begin

text \<open>
  The layered views of the unspent outputs, \<open>CCoinsViewCache\<close> of \<open>src/src/coins.h\<close> and \<open>coins.cpp\<close>, and \<open>UpdateCoins\<close> of
  \<open>main.cpp\<close>. A cache stands on a base view, which may be a cache again. Reading through a cache
  fills it, and reading from the base may change the base, so operations pass the pair of the base
  state and the cache; the base is known by its \<open>GetCoins\<close>. The abstraction of a view is the set of unspent
  outputs, \<open>utxo\<close>; missing coins and fully spent coins are the same there.
\<close>

section \<open>The cache\<close>

definition DIRTY :: byte where "DIRTY = push_bit 0 1"

definition FRESH :: byte where "FRESH = push_bit 1 1"

record CCoinsCacheEntry =
  ecoins :: CCoins
  eflags :: byte

record CCoinsViewCache =
  hasModifier :: bool
  hashBlock :: uint256
  cacheCoins :: "uint256 \<Rightarrow> CCoinsCacheEntry option"

definition CCoinsViewCache_new :: CCoinsViewCache where
  "CCoinsViewCache_new = \<lparr>hasModifier = False, hashBlock = 0, cacheCoins = Map.empty\<rparr>"

type_synonym 'b coins_getter = "'b \<Rightarrow> uint256 \<Rightarrow> CCoins option \<times> 'b"

definition FetchCoins ::
    "'b coins_getter \<Rightarrow> 'b \<times> CCoinsViewCache \<Rightarrow> uint256 \<Rightarrow> CCoinsCacheEntry option \<times> 'b \<times> CCoinsViewCache" where
  "FetchCoins get s txid =
     (case s of (base, c) \<Rightarrow>
       case cacheCoins c txid of Some e \<Rightarrow> (Some e, base, c)
       | None \<Rightarrow> (case get base txid of
             (None, base) \<Rightarrow> (None, base, c)
           | (Some tmp, base) \<Rightarrow>
               let e = \<lparr>ecoins = tmp, eflags = (if IsPruned tmp then FRESH else 0)\<rparr>
               in (Some e, base, c\<lparr>cacheCoins := (cacheCoins c)(txid \<mapsto> e)\<rparr>)))"

definition GetCoins :: "'b coins_getter \<Rightarrow> ('b \<times> CCoinsViewCache) coins_getter" where
  "GetCoins get s txid = (let (it, s) = FetchCoins get s txid in (map_option ecoins it, s))"

definition HaveCoins :: "'b coins_getter \<Rightarrow> 'b \<times> CCoinsViewCache \<Rightarrow> uint256 \<Rightarrow> bool \<times> 'b \<times> CCoinsViewCache" where
  "HaveCoins get s txid =
     (let (it, s) = FetchCoins get s txid in (case it of None \<Rightarrow> False | Some e \<Rightarrow> cvout (ecoins e) \<noteq> [], s))"

definition AccessCoins :: "'b coins_getter \<Rightarrow> 'b \<times> CCoinsViewCache \<Rightarrow> uint256 \<Rightarrow> CCoins option \<times> 'b \<times> CCoinsViewCache" where
  "AccessCoins get s txid =
     (let (it, s) = FetchCoins get s txid in (case it of None \<Rightarrow> None | Some e \<Rightarrow> Some (ecoins e), s))"

text \<open>The best block is cached too; \<open>best\<close> is \<open>GetBestBlock\<close> of the base.\<close>

definition GetBestBlock :: "('b \<Rightarrow> uint256 \<times> 'b) \<Rightarrow> 'b \<times> CCoinsViewCache \<Rightarrow> uint256 \<times> 'b \<times> CCoinsViewCache" where
  "GetBestBlock best s =
     (case s of (base, c) \<Rightarrow>
       let (base, c) = (if hashBlock c = 0 then let (h, base) = best base in (base, c\<lparr>hashBlock := h\<rparr>) else (base, c))
       in (hashBlock c, base, c))"

definition SetBestBlock :: "uint256 \<Rightarrow> 'b \<times> CCoinsViewCache \<Rightarrow> 'b \<times> CCoinsViewCache" where
  "SetBestBlock hashBlockIn s = (case s of (base, c) \<Rightarrow> (base, c\<lparr>hashBlock := hashBlockIn\<rparr>))"

text \<open>\<open>ModifyCoins\<close> with the constructor of the modifier; the entry is then changed through the modifier, and the destructor cleans up.\<close>

definition ModifyCoins ::
    "'b coins_getter \<Rightarrow> 'b \<times> CCoinsViewCache \<Rightarrow> uint256 \<Rightarrow> (unit, 'b \<times> CCoinsViewCache) outcome" where
  "ModifyCoins get s txid =
     (case s of (base, c) \<Rightarrow>
       if hasModifier c then Abort
       else let (e, base) =
              (case cacheCoins c txid of Some e \<Rightarrow> (e, base)
               | None \<Rightarrow> (case get base txid of
                    (None, base) \<Rightarrow> (\<lparr>ecoins = CCoins_Clear CCoins_default, eflags = FRESH\<rparr>, base)
                  | (Some tmp, base) \<Rightarrow> (\<lparr>ecoins = tmp, eflags = (if IsPruned tmp then FRESH else 0)\<rparr>, base)));
            e = e\<lparr>eflags := eflags e OR DIRTY\<rparr>
         in Ok (base, c\<lparr>cacheCoins := (cacheCoins c)(txid \<mapsto> e), hasModifier := True\<rparr>))"

definition CCoinsModifier_destroy :: "uint256 \<Rightarrow> CCoinsViewCache \<Rightarrow> (unit, CCoinsViewCache) outcome" where
  "CCoinsModifier_destroy txid c =
     (if \<not> hasModifier c then Abort
      else case cacheCoins c txid of None \<Rightarrow> Abort
        | Some e \<Rightarrow>
            let e = e\<lparr>ecoins := Cleanup (ecoins e)\<rparr>; c = c\<lparr>hasModifier := False\<rparr>
            in Ok (c\<lparr>cacheCoins := (cacheCoins c)(txid :=
                 if eflags e AND FRESH \<noteq> 0 \<and> IsPruned (ecoins e) then None else Some e)\<rparr>))"

text \<open>A full expression \<open>ModifyCoins(txid)->f(...)\<close>: \<open>f\<close> changes the coins and returns a value.\<close>

definition with_modifier ::
    "'b coins_getter \<Rightarrow> uint256 \<Rightarrow> (CCoins \<Rightarrow> CCoins \<times> 'r) \<Rightarrow> 'b \<times> CCoinsViewCache \<Rightarrow>
     (unit, 'r \<times> 'b \<times> CCoinsViewCache) outcome" where
  "with_modifier get txid f s =
     bindO (ModifyCoins get s txid) (\<lambda>(base, c).
       case cacheCoins c txid of None \<Rightarrow> Abort
       | Some e \<Rightarrow>
           let (coins, r) = f (ecoins e) in
           bindO (CCoinsModifier_destroy txid (c\<lparr>cacheCoins := (cacheCoins c)(txid \<mapsto> e\<lparr>ecoins := coins\<rparr>)\<rparr>)) (\<lambda>c.
             Ok (r, base, c)))"

section \<open>Writing back\<close>

text \<open>The body of the loop of \<open>BatchWrite\<close> for one entry of the child.\<close>

definition batch_entry :: "uint256 \<Rightarrow> CCoinsCacheEntry \<Rightarrow> CCoinsViewCache \<Rightarrow> (unit, CCoinsViewCache) outcome" where
  "batch_entry txid e c =
     (if eflags e AND DIRTY \<noteq> 0
      then case cacheCoins c txid of
          None \<Rightarrow>
            if \<not> IsPruned (ecoins e)
            then if eflags e AND FRESH = 0 then Abort
                 else Ok (c\<lparr>cacheCoins := (cacheCoins c)(txid \<mapsto> \<lparr>ecoins = ecoins e, eflags = DIRTY OR FRESH\<rparr>)\<rparr>)
            else Ok c
        | Some itUs \<Rightarrow>
            if eflags itUs AND FRESH \<noteq> 0 \<and> IsPruned (ecoins e)
            then Ok (c\<lparr>cacheCoins := (cacheCoins c)(txid := None)\<rparr>)
            else Ok (c\<lparr>cacheCoins := (cacheCoins c)(txid \<mapsto> itUs\<lparr>ecoins := ecoins e, eflags := eflags itUs OR DIRTY\<rparr>)\<rparr>)
      else Ok c)"

text \<open>The order in which the hash map is traversed is not specified; it is the argument \<open>order\<close>.\<close>

fun batch_loop ::
    "uint256 list \<Rightarrow> (uint256 \<Rightarrow> CCoinsCacheEntry option) \<Rightarrow> CCoinsViewCache \<Rightarrow> (unit, CCoinsViewCache) outcome" where
  "batch_loop [] mapCoins c = Ok c"
| "batch_loop (txid # order) mapCoins c =
     bindO (case mapCoins txid of None \<Rightarrow> Ok c | Some e \<Rightarrow> batch_entry txid e c) (\<lambda>c. batch_loop order mapCoins c)"

definition BatchWrite ::
    "uint256 list \<Rightarrow> (uint256 \<Rightarrow> CCoinsCacheEntry option) \<Rightarrow> uint256 \<Rightarrow> CCoinsViewCache \<Rightarrow> (unit, CCoinsViewCache) outcome" where
  "BatchWrite order mapCoins hashBlockIn c =
     (if hasModifier c then Abort
      else bindO (batch_loop order mapCoins c) (\<lambda>c. Ok (c\<lparr>hashBlock := hashBlockIn\<rparr>)))"

text \<open>\<open>Flush\<close> of a cache whose base is a cache.\<close>

definition Flush ::
    "uint256 list \<Rightarrow> ('b \<times> CCoinsViewCache) \<times> CCoinsViewCache \<Rightarrow> (unit, ('b \<times> CCoinsViewCache) \<times> CCoinsViewCache) outcome" where
  "Flush order s =
     (case s of ((base, parent), c) \<Rightarrow>
       bindO (BatchWrite order (cacheCoins c) (hashBlock c) parent) (\<lambda>parent.
         Ok ((base, parent), c\<lparr>cacheCoins := Map.empty\<rparr>)))"

section \<open>Transactions\<close>

fun inputs_available :: "'b coins_getter \<Rightarrow> CTxIn list \<Rightarrow> 'b \<times> CCoinsViewCache \<Rightarrow> bool \<times> 'b \<times> CCoinsViewCache" where
  "inputs_available get [] s = (True, s)"
| "inputs_available get (v # vs) s =
     (let (coins, s) = AccessCoins get s (outhash (prevout v)) in
      case coins of None \<Rightarrow> (False, s)
      | Some coins \<Rightarrow> if \<not> IsAvailable coins (unat (outn (prevout v))) then (False, s) else inputs_available get vs s)"

definition HaveInputs ::
    "'b coins_getter \<Rightarrow> CTransaction \<Rightarrow> 'b \<times> CCoinsViewCache \<Rightarrow> (unit, bool \<times> 'b \<times> CCoinsViewCache) outcome" where
  "HaveInputs get tx s =
     bindO (IsCoinBase tx) (\<lambda>cb. bindO (if cb then Ok True else CTransaction_IsZerocoinSpend tx) (\<lambda>skip.
       Ok (if \<not> skip then inputs_available get (vin tx) s else (True, s))))"

definition GetOutputFor :: "'b coins_getter \<Rightarrow> CTxIn \<Rightarrow> 'b \<times> CCoinsViewCache \<Rightarrow> (unit, CTxOut \<times> 'b \<times> CCoinsViewCache) outcome" where
  "GetOutputFor get input s =
     (let (coins, s) = AccessCoins get s (outhash (prevout input)) in
      case coins of None \<Rightarrow> Abort
      | Some coins \<Rightarrow>
          if \<not> IsAvailable coins (unat (outn (prevout input))) then Abort
          else Ok (cvout coins ! unat (outn (prevout input)), s))"

fun value_in :: "'b coins_getter \<Rightarrow> int \<Rightarrow> CTxIn list \<Rightarrow> 'b \<times> CCoinsViewCache \<Rightarrow> (unit, int \<times> 'b \<times> CCoinsViewCache) outcome" where
  "value_in get nResult [] s = Ok (nResult, s)"
| "value_in get nResult (v # vs) s =
     bindO (GetOutputFor get v s) (\<lambda>(out, s).
       bindO (add_int64 nResult (sint (nValue out))) (\<lambda>nResult. value_in get nResult vs s))"

definition GetValueIn :: "'b coins_getter \<Rightarrow> CTransaction \<Rightarrow> 'b \<times> CCoinsViewCache \<Rightarrow> (unit, int \<times> 'b \<times> CCoinsViewCache) outcome" where
  "GetValueIn get tx s =
     bindO (IsCoinBase tx) (\<lambda>cb. if cb then Ok (0, s) else
       bindO (CTransaction_IsZerocoinSpend tx) (\<lambda>z.
         if z then bindO (GetZerocoinSpent tx) (\<lambda>v. Ok (v, s)) else value_in get 0 (vin tx) s))"

fun spend_inputs ::
    "'b coins_getter \<Rightarrow> CTxIn list \<Rightarrow> 'b \<times> CCoinsViewCache \<Rightarrow> (unit, CTxInUndo list \<times> 'b \<times> CCoinsViewCache) outcome" where
  "spend_inputs get [] s = Ok ([], s)"
| "spend_inputs get (txin # vs) s =
     bindO (with_modifier get (outhash (prevout txin))
         (\<lambda>coins. case Spend coins (unat (outn (prevout txin))) of
            None \<Rightarrow> (coins, None) | Some (coins, undo) \<Rightarrow> (coins, Some undo)) s) (\<lambda>(ret, s).
       case ret of None \<Rightarrow> Abort
       | Some undo \<Rightarrow> bindO (spend_inputs get vs s) (\<lambda>(undos, s). Ok (undo # undos, s)))"

definition UpdateCoins ::
    "'b coins_getter \<Rightarrow> CTransaction \<Rightarrow> int32 \<Rightarrow> 'b \<times> CCoinsViewCache \<Rightarrow>
     (unit, CTxInUndo list \<times> 'b \<times> CCoinsViewCache) outcome" where
  "UpdateCoins get tx nHeight s =
     bindO (IsCoinBase tx) (\<lambda>cb. bindO (if cb then Ok True else CTransaction_IsZerocoinSpend tx) (\<lambda>skip.
     bindO (if \<not> skip then spend_inputs get (vin tx) s else Ok ([], s)) (\<lambda>(undos, s).
     bindO (FromTx tx nHeight) (\<lambda>coins.
     bindO (with_modifier get (txhash tx) (\<lambda>_. (coins, ())) s) (\<lambda>(_, s). Ok (undos, s))))))"

text \<open>
  The part of \<open>DisconnectBlock\<close> that undoes one transaction on the view; the inputs are restored from the last to the first.
  Restoring takes \<open>out.n + 1\<close> as a number: it wraps only at output \<open>2 ^ 32 - 1\<close>, and no block holds so many outputs.
  The value is the flag \<open>fClean\<close>.
\<close>

fun restore_inputs ::
    "'b coins_getter \<Rightarrow> CTxIn list \<Rightarrow> CTxInUndo list \<Rightarrow> bool \<Rightarrow> 'b \<times> CCoinsViewCache \<Rightarrow>
     (unit, bool \<times> 'b \<times> CCoinsViewCache) outcome" where
  "restore_inputs get (txin # vs) (undo # undos) fClean s =
     bindO (restore_inputs get vs undos fClean s) (\<lambda>(fClean, s).
       bindO (with_modifier get (outhash (prevout txin)) (restore_input (unat (outn (prevout txin))) undo) s) (\<lambda>(ok, s).
         Ok (fClean \<and> ok, s)))"
| "restore_inputs get _ _ fClean s = Ok (fClean, s)"

definition remove_outputs :: "CCoins \<Rightarrow> CCoins \<Rightarrow> CCoins \<times> bool" where
  "remove_outputs outsBlock outs =
     (let outs = ClearUnspendable outs;
          outs = (if sint (cVersion outsBlock) < 0 then outs\<lparr>cVersion := cVersion outsBlock\<rparr> else outs)
      in (CCoins_Clear outs, CCoins_equal outs outsBlock))"

definition disconnect_tx ::
    "'b coins_getter \<Rightarrow> CTransaction \<Rightarrow> int32 \<Rightarrow> CTxInUndo list \<Rightarrow> bool \<Rightarrow> 'b \<times> CCoinsViewCache \<Rightarrow>
     (unit, bool \<times> 'b \<times> CCoinsViewCache) outcome" where
  "disconnect_tx get tx nHeight vprevout fClean s =
     bindO (FromTx tx nHeight) (\<lambda>outsBlock.
     bindO (with_modifier get (txhash tx) (remove_outputs outsBlock) s) (\<lambda>(ok, s).
     bindO (IsCoinBase tx) (\<lambda>cb. bindO (if cb then Ok True else CTransaction_IsZerocoinSpend tx) (\<lambda>skip.
       if skip then Ok (fClean \<and> ok, s)
       else if length vprevout \<noteq> length (vin tx) then Fail ()
       else restore_inputs get (vin tx) vprevout (fClean \<and> ok) s))))"

text \<open>The transactions of a block one after the other, and back in the reverse order.\<close>

fun update_txs ::
    "'b coins_getter \<Rightarrow> CTransaction list \<Rightarrow> int32 \<Rightarrow> 'b \<times> CCoinsViewCache \<Rightarrow>
     (unit, CTxInUndo list list \<times> 'b \<times> CCoinsViewCache) outcome" where
  "update_txs get [] nHeight s = Ok ([], s)"
| "update_txs get (tx # txs) nHeight s =
     bindO (UpdateCoins get tx nHeight s) (\<lambda>(undo, s).
       bindO (update_txs get txs nHeight s) (\<lambda>(undos, s). Ok (undo # undos, s)))"

fun disconnect_txs ::
    "'b coins_getter \<Rightarrow> CTransaction list \<Rightarrow> int32 \<Rightarrow> CTxInUndo list list \<Rightarrow> bool \<Rightarrow> 'b \<times> CCoinsViewCache \<Rightarrow>
     (unit, bool \<times> 'b \<times> CCoinsViewCache) outcome" where
  "disconnect_txs get (tx # txs) nHeight (undo # undos) fClean s =
     bindO (disconnect_txs get txs nHeight undos fClean s) (\<lambda>(fClean, s). disconnect_tx get tx nHeight undo fClean s)"
| "disconnect_txs get _ nHeight _ fClean s = Ok (fClean, s)"

section \<open>Unspent outputs\<close>

definition outs_of :: "CCoins \<Rightarrow> nat \<Rightarrow> CTxOut option" where
  "outs_of c n = (if n < length (cvout c) \<and> \<not> CTxOut_IsNull (cvout c ! n) then Some (cvout c ! n) else None)"

definition utxo :: "(uint256 \<Rightarrow> CCoins option) \<Rightarrow> uint256 \<Rightarrow> nat \<Rightarrow> CTxOut option" where
  "utxo view t = (case view t of None \<Rightarrow> Map.empty | Some c \<Rightarrow> outs_of c)"

lemma outs_of_append: "list_all CTxOut_IsNull xs \<Longrightarrow> cvout c = v @ xs \<Longrightarrow> outs_of (c\<lparr>cvout := v\<rparr>) = outs_of c"
  by (auto simp: fun_eq_iff outs_of_def nth_append list_all_length)

lemma outs_of_Cleanup [simp]: "outs_of (Cleanup c) = outs_of c"
proof -
  obtain xs where "cvout c = cleanup_loop (cvout c) @ xs" "list_all CTxOut_IsNull xs" using cleanup_split by blast
  then show ?thesis using outs_of_append [of xs "c" "cleanup_loop (cvout c)"] by (simp add: Cleanup_def)
qed

lemma IsPruned_outs: "IsPruned c \<longleftrightarrow> outs_of c = Map.empty"
  by (auto simp: IsPruned_def outs_of_def fun_eq_iff list_all_length)

lemma outs_of_Clear [simp]: "outs_of (CCoins_Clear c) = Map.empty"
  by (simp add: outs_of_def CCoins_Clear_def fun_eq_iff)

lemma flag_simps [simp]: "(f OR DIRTY) AND DIRTY \<noteq> 0" "(f OR DIRTY) AND FRESH = f AND FRESH" "FRESH \<noteq> 0" "DIRTY \<noteq> 0"
  "FRESH AND DIRTY = 0" "DIRTY AND FRESH = 0" "(DIRTY OR FRESH) AND DIRTY \<noteq> 0" "(DIRTY OR FRESH) AND FRESH \<noteq> 0"
  by (simp_all add: DIRTY_def FRESH_def bit.conj_disj_distrib2 bit_simps)

lemma outs_of_null: "outs_of (c\<lparr>cvout := (cvout c)[n := CTxOut_SetNull]\<rparr>) = (outs_of c)(n := None)"
  by (auto simp: outs_of_def fun_eq_iff nth_list_update)

lemma outs_of_ClearUnspendable:
  "outs_of (ClearUnspendable c) = (\<lambda>n. case outs_of c n of None \<Rightarrow> None | Some out \<Rightarrow> if IsUnspendable (scriptPubKey out) then None else Some out)"
  unfolding ClearUnspendable_def outs_of_Cleanup by (auto simp: outs_of_def fun_eq_iff)

lemma Spend_ok:
  assumes "outs_of c n = Some out"
  shows "\<exists>c' undo. Spend c n = Some (c', undo) \<and> utxout undo = out \<and> outs_of c' = (outs_of c)(n := None) \<and>
    (uHeight undo \<noteq> 0 \<longrightarrow> outs_of c' = Map.empty)"
proof -
  have "n < length (cvout c)" "\<not> CTxOut_IsNull (cvout c ! n)" "cvout c ! n = out" using assms by (auto simp: outs_of_def split: if_splits)
  moreover define c' where "c' = Cleanup (c\<lparr>cvout := (cvout c)[n := CTxOut_SetNull]\<rparr>)"
  ultimately have "\<exists>undo. Spend c n = Some (c', undo) \<and> utxout undo = out \<and> (uHeight undo \<noteq> 0 \<longrightarrow> cvout c' = [])"
    by (auto simp: Spend_def Let_def CTxInUndo_of_def)
  moreover have "outs_of c' = (outs_of c)(n := None)" by (simp add: c'_def outs_of_null)
  moreover have "cvout c' = [] \<Longrightarrow> outs_of c' = Map.empty" by (simp add: outs_of_def fun_eq_iff)
  ultimately show ?thesis by metis
qed

lemma IsAvailable_outs: "IsAvailable c n \<longleftrightarrow> (\<exists>out. outs_of c n = Some out \<and> \<not> IsZerocoinMint (scriptPubKey out))"
  by (auto simp: IsAvailable_def outs_of_def)

text \<open>The outputs a transaction adds.\<close>

definition new_outs :: "CTransaction \<Rightarrow> nat \<Rightarrow> CTxOut option" where
  "new_outs tx n =
     (if n < length (vout tx) \<and> \<not> CTxOut_IsNull (vout tx ! n) \<and> \<not> IsUnspendable (scriptPubKey (vout tx ! n))
      then Some (vout tx ! n) else None)"

lemma FromTx_ok: "IsCoinBase tx = Ok cb \<Longrightarrow> \<exists>c. FromTx tx h = Ok c \<and> outs_of c = new_outs tx"
  by (simp add: FromTx_def outs_of_ClearUnspendable) (auto simp: new_outs_def outs_of_def fun_eq_iff)

definition input_of :: "(uint256 \<Rightarrow> nat \<Rightarrow> CTxOut option) \<Rightarrow> CTxIn \<Rightarrow> CTxOut option" where
  "input_of u v = u (outhash (prevout v)) (unat (outn (prevout v)))"

definition remove_inputs :: "CTxIn list \<Rightarrow> (uint256 \<Rightarrow> nat \<Rightarrow> CTxOut option) \<Rightarrow> uint256 \<Rightarrow> nat \<Rightarrow> CTxOut option" where
  "remove_inputs vs u t n = (if (t, n) \<in> set (map (\<lambda>v. (outhash (prevout v), unat (outn (prevout v)))) vs) then None else u t n)"

text \<open>What the undo data of a list of inputs has to be for the spending to be reversible.\<close>

fun undo_data :: "CTxIn list \<Rightarrow> CTxInUndo list \<Rightarrow> (uint256 \<Rightarrow> nat \<Rightarrow> CTxOut option) \<Rightarrow> bool" where
  "undo_data [] [] u \<longleftrightarrow> True"
| "undo_data (v # vs) (d # ds) u \<longleftrightarrow>
     input_of u v = Some (utxout d) \<and> \<not> CTxOut_IsNull (utxout d) \<and>
     (uHeight d \<noteq> 0 \<longrightarrow> remove_inputs [v] u (outhash (prevout v)) = Map.empty) \<and> undo_data vs ds (remove_inputs [v] u)"
| "undo_data _ _ u \<longleftrightarrow> False"

lemma undo_data_length: "undo_data vs ds u \<Longrightarrow> length ds = length vs"
  by (induction vs ds u rule: undo_data.induct) auto

lemma remove_inputs_Cons: "remove_inputs vs (remove_inputs [v] u) = remove_inputs (v # vs) u"
  by (auto simp: remove_inputs_def fun_eq_iff)

lemma restore_input_outs:
  assumes "\<not> CTxOut_IsNull (utxout undo)" "uHeight undo \<noteq> 0 \<longrightarrow> outs_of c = Map.empty"
  shows "outs_of (fst (restore_input n undo c)) = (outs_of c)(n \<mapsto> utxout undo)"
proof -
  define c' where "c' = (if uHeight undo \<noteq> 0
    then (CCoins_Clear c)\<lparr>fCoinBase := uCoinBase undo, cHeight := uHeight undo, cVersion := uVersion undo\<rparr> else c)"
  define v where "v = (if length (cvout c') < n + 1 then cvout c' @ replicate (n + 1 - length (cvout c')) CTxOut_SetNull else cvout c')"
  have "fst (restore_input n undo c) = Cleanup (c'\<lparr>cvout := v[n := utxout undo]\<rparr>)"
    by (simp add: restore_input_def c'_def v_def Let_def)
  moreover have "outs_of (c'\<lparr>cvout := v[n := utxout undo]\<rparr>) = (outs_of c')(n \<mapsto> utxout undo)"
    using assms(1) by (auto simp: outs_of_def fun_eq_iff v_def nth_list_update nth_append nth_replicate)
  moreover have "outs_of c' = outs_of c" using assms(2) by (auto simp: c'_def outs_of_def CCoins_Clear_def fun_eq_iff)
  ultimately show ?thesis by simp
qed

text \<open>
  The specification of a transaction on the set of unspent outputs. A coinbase and a zerocoin spend have no inputs there;
  \<open>tx_ok\<close> also says that the tests for these do not read the first byte of an empty script.
\<close>

definition tx_inputs :: "CTransaction \<Rightarrow> CTxIn list" where
  "tx_inputs tx = (if IsCoinBase tx = Ok True \<or> CTransaction_IsZerocoinSpend tx = Ok True then [] else vin tx)"

definition tx_ok :: "CTransaction \<Rightarrow> (uint256 \<Rightarrow> nat \<Rightarrow> CTxOut option) \<Rightarrow> bool" where
  "tx_ok tx u \<longleftrightarrow> IsCoinBase tx \<in> {Ok False, Ok True} \<and> CTransaction_IsZerocoinSpend tx \<in> {Ok False, Ok True} \<and>
     distinct (map prevout (tx_inputs tx)) \<and> (\<forall>v \<in> set (tx_inputs tx). input_of u v \<noteq> None)"

lemma tx_ok_tests: "tx_ok tx u \<Longrightarrow> \<exists>cb z. IsCoinBase tx = Ok cb \<and> CTransaction_IsZerocoinSpend tx = Ok z"
  by (auto simp: tx_ok_def)

definition apply_tx :: "CTransaction \<Rightarrow> (uint256 \<Rightarrow> nat \<Rightarrow> CTxOut option) \<Rightarrow> uint256 \<Rightarrow> nat \<Rightarrow> CTxOut option" where
  "apply_tx tx u = (remove_inputs (tx_inputs tx) u)(txhash tx := new_outs tx)"

fun txs_ok :: "CTransaction list \<Rightarrow> (uint256 \<Rightarrow> nat \<Rightarrow> CTxOut option) \<Rightarrow> bool" where
  "txs_ok [] u \<longleftrightarrow> True"
| "txs_ok (tx # txs) u \<longleftrightarrow> tx_ok tx u \<and> txs_ok txs (apply_tx tx u)"

text \<open>No transaction takes the id of one that still has unspent outputs.\<close>

fun overwrites_none :: "CTransaction list \<Rightarrow> (uint256 \<Rightarrow> nat \<Rightarrow> CTxOut option) \<Rightarrow> bool" where
  "overwrites_none [] u \<longleftrightarrow> True"
| "overwrites_none (tx # txs) u \<longleftrightarrow> u (txhash tx) = Map.empty \<and> overwrites_none txs (apply_tx tx u)"

fun undos_data :: "CTransaction list \<Rightarrow> CTxInUndo list list \<Rightarrow> (uint256 \<Rightarrow> nat \<Rightarrow> CTxOut option) \<Rightarrow> bool" where
  "undos_data [] [] u \<longleftrightarrow> True"
| "undos_data (tx # txs) (ds # dss) u \<longleftrightarrow> undo_data (tx_inputs tx) ds u \<and> undos_data txs dss (apply_tx tx u)"
| "undos_data _ _ u \<longleftrightarrow> False"

section \<open>The contract of a view\<close>

text \<open>
  \<open>view\<close> is what the view stands for, \<open>held\<close> says for which transactions it will not forget that there were coins,
  and \<open>good\<close> is its invariant. Reading returns the coins and changes nothing of what the view stands for.
\<close>

locale coins_view =
  fixes get :: "'b coins_getter"
    and view :: "'b \<Rightarrow> uint256 \<Rightarrow> CCoins option"
    and held :: "'b \<Rightarrow> uint256 \<Rightarrow> bool"
    and good :: "'b \<Rightarrow> bool"
  assumes get_view: "good b \<Longrightarrow> get b t = (r, b') \<Longrightarrow> view b t = r \<and> view b' = view b \<and> good b'"
    and get_held: "good b \<Longrightarrow> get b t = (r, b') \<Longrightarrow> held b u \<Longrightarrow> held b' u"
    and get_holds: "good b \<Longrightarrow> get b t = (Some c, b') \<Longrightarrow> \<not> IsPruned c \<Longrightarrow> held b' t"

text \<open>What a cache makes of the view below it.\<close>

definition cache_view :: "('b \<Rightarrow> uint256 \<Rightarrow> CCoins option) \<Rightarrow> 'b \<times> CCoinsViewCache \<Rightarrow> uint256 \<Rightarrow> CCoins option" where
  "cache_view view s t = (case cacheCoins (snd s) t of Some e \<Rightarrow> Some (ecoins e) | None \<Rightarrow> view (fst s) t)"

definition cache_held :: "'b \<times> CCoinsViewCache \<Rightarrow> uint256 \<Rightarrow> bool" where
  "cache_held s t \<longleftrightarrow> cacheCoins (snd s) t \<noteq> None"

definition entry_ok :: "('b \<Rightarrow> uint256 \<Rightarrow> CCoins option) \<Rightarrow> ('b \<Rightarrow> uint256 \<Rightarrow> bool) \<Rightarrow> 'b \<Rightarrow> uint256 \<Rightarrow> CCoinsCacheEntry \<Rightarrow> bool" where
  "entry_ok view held b t e \<longleftrightarrow>
     (eflags e AND FRESH \<noteq> 0 \<longrightarrow> utxo (view b) t = Map.empty) \<and>
     (eflags e AND DIRTY = 0 \<longrightarrow> outs_of (ecoins e) = utxo (view b) t) \<and>
     (eflags e AND FRESH = 0 \<longrightarrow> held b t)"

definition cache_inv ::
    "('b \<Rightarrow> uint256 \<Rightarrow> CCoins option) \<Rightarrow> ('b \<Rightarrow> uint256 \<Rightarrow> bool) \<Rightarrow> ('b \<Rightarrow> bool) \<Rightarrow> 'b \<times> CCoinsViewCache \<Rightarrow> bool" where
  "cache_inv view held good s \<longleftrightarrow> good (fst s) \<and> \<not> hasModifier (snd s) \<and> finite (dom (cacheCoins (snd s))) \<and>
     (\<forall>t e. cacheCoins (snd s) t = Some e \<longrightarrow> entry_ok view held (fst s) t e)"

lemma utxo_cache: "utxo (cache_view view (b, c)) t = (case cacheCoins c t of Some e \<Rightarrow> outs_of (ecoins e) | None \<Rightarrow> utxo (view b) t)"
  by (simp add: utxo_def cache_view_def split: option.splits)

context coins_view
begin

lemma entry_mono: "good b \<Longrightarrow> get b t = (r, b') \<Longrightarrow> entry_ok view held b u e \<Longrightarrow> entry_ok view held b' u e"
  using get_view get_held by (simp add: entry_ok_def)

lemma fetched_ok:
  assumes "good b" "get b t = (Some tmp, b')"
  shows "entry_ok view held b' t \<lparr>ecoins = tmp, eflags = (if IsPruned tmp then FRESH else 0)\<rparr>"
  using get_view [OF assms] get_holds [OF assms] by (auto simp: entry_ok_def utxo_def IsPruned_outs [symmetric])

lemma FetchCoins_ok:
  assumes "cache_inv view held good s" "FetchCoins get s t = (it, s')"
  shows "cache_inv view held good s' \<and> cache_view view s' = cache_view view s \<and> map_option ecoins it = cache_view view s t \<and>
    (cache_held s u \<longrightarrow> cache_held s' u) \<and> (it \<noteq> None \<longrightarrow> cache_held s' t)"
proof (cases s)
  case (Pair b c)
  show ?thesis
  proof (cases "cacheCoins c t")
    case (Some e)
    then have "it = Some e" "s' = s" using assms(2) Pair by (auto simp: FetchCoins_def)
    then show ?thesis using assms(1) Pair Some by (simp add: cache_view_def cache_held_def)
  next
    case None
    obtain r b' where g: "get b t = (r, b')" by (metis prod.exhaust)
    have b: "good b" using assms(1) Pair by (simp add: cache_inv_def)
    note gv = get_view [OF b g]
    show ?thesis
    proof (cases r)
      case r: None
      then have "it = None" "s' = (b', c)" using assms(2) Pair None g by (auto simp: FetchCoins_def)
      then show ?thesis using assms(1) Pair None gv r entry_mono [OF b g]
        by (auto simp: cache_inv_def cache_view_def cache_held_def fun_eq_iff split: option.splits)
    next
      case r: (Some tmp)
      define e where "e = \<lparr>ecoins = tmp, eflags = (if IsPruned tmp then FRESH else 0)\<rparr>"
      have "it = Some e" "s' = (b', c\<lparr>cacheCoins := (cacheCoins c)(t \<mapsto> e)\<rparr>)"
        using assms(2) Pair None g r by (auto simp: FetchCoins_def e_def Let_def)
      moreover have "entry_ok view held b' t e" unfolding e_def using fetched_ok [OF b] g r by simp
      ultimately show ?thesis using assms(1) Pair None gv r entry_mono [OF b g]
        by (auto simp: cache_inv_def cache_view_def cache_held_def fun_eq_iff e_def split: option.splits)
    qed
  qed
qed

lemma cache_is_view: "coins_view (GetCoins get) (cache_view view) cache_held (cache_inv view held good)"
proof
  fix s t r s' u c
  assume good: "cache_inv view held good s"
  obtain it s'' where f: "FetchCoins get s t = (it, s'')" by (metis prod.exhaust)
  note ok = FetchCoins_ok [OF good f]
  show "GetCoins get s t = (r, s') \<Longrightarrow> cache_view view s t = r \<and> cache_view view s' = cache_view view s \<and> cache_inv view held good s'"
    using ok f by (auto simp: GetCoins_def)
  show "GetCoins get s t = (r, s') \<Longrightarrow> cache_held s u \<Longrightarrow> cache_held s' u"
    using ok f by (auto simp: GetCoins_def)
  show "GetCoins get s t = (Some c, s') \<Longrightarrow> \<not> IsPruned c \<Longrightarrow> cache_held s' t"
    using ok f by (auto simp: GetCoins_def)
qed

lemma coins_at: "cache_inv view held good (b, c) \<Longrightarrow> cacheCoins c t = Some e \<Longrightarrow> entry_ok view held b t e"
  by (simp add: cache_inv_def)

text \<open>What \<open>ModifyCoins\<close> hands out: the coins of the view, or empty ones.\<close>

lemma ModifyCoins_ok:
  assumes "cache_inv view held good (b, c)"
  obtains b' e where "ModifyCoins get (b, c) t = Ok (b', c\<lparr>cacheCoins := (cacheCoins c)(t \<mapsto> e), hasModifier := True\<rparr>)"
    "good b'" "view b' = view b" "\<And>u e. entry_ok view held b u e \<Longrightarrow> entry_ok view held b' u e"
    "eflags e AND DIRTY \<noteq> 0" "eflags e AND FRESH \<noteq> 0 \<longrightarrow> utxo (view b) t = Map.empty" "eflags e AND FRESH = 0 \<longrightarrow> held b' t"
    "ecoins e = (case cache_view view (b, c) t of None \<Rightarrow> CCoins_Clear CCoins_default | Some c \<Rightarrow> c)"
proof (cases "cacheCoins c t")
  case (Some e)
  have "\<not> hasModifier c" "good b" using assms by (simp_all add: cache_inv_def)
  then show ?thesis using that [of b "e\<lparr>eflags := eflags e OR DIRTY\<rparr>"] Some coins_at [OF assms Some]
    by (simp add: ModifyCoins_def entry_ok_def cache_view_def)
next
  case None
  obtain r b' where g: "get b t = (r, b')" by (metis prod.exhaust)
  have c: "\<not> hasModifier c" "good b" using assms by (simp_all add: cache_inv_def)
  note gv = get_view [OF c(2) g] and mono = entry_mono [OF c(2) g]
  show ?thesis
  proof (cases r)
    case r: None
    then show ?thesis using that [of b' "\<lparr>ecoins = CCoins_Clear CCoins_default, eflags = FRESH OR DIRTY\<rparr>"] None g gv c mono
      by (simp add: ModifyCoins_def cache_view_def utxo_def)
  next
    case r: (Some tmp)
    define e where "e = \<lparr>ecoins = tmp, eflags = (if IsPruned tmp then FRESH else 0)\<rparr>"
    have "entry_ok view held b' t e" unfolding e_def using fetched_ok [OF c(2)] g r by simp
    then have "eflags e AND FRESH \<noteq> 0 \<longrightarrow> utxo (view b) t = Map.empty" "eflags e AND FRESH = 0 \<longrightarrow> held b' t" "ecoins e = tmp"
      using gv by (auto simp: entry_ok_def e_def)
    moreover have "ModifyCoins get (b, c) t =
        Ok (b', c\<lparr>cacheCoins := (cacheCoins c)(t \<mapsto> e\<lparr>eflags := eflags e OR DIRTY\<rparr>), hasModifier := True\<rparr>)"
      using None g r c by (simp add: ModifyCoins_def e_def)
    ultimately show ?thesis using that [of b' "e\<lparr>eflags := eflags e OR DIRTY\<rparr>"] None gv mono r
      by (simp add: cache_view_def)
  qed
qed

lemma with_modifier_ok:
  fixes t
  assumes "cache_inv view held good s"
  defines "co \<equiv> (case cache_view view s t of None \<Rightarrow> CCoins_Clear CCoins_default | Some c \<Rightarrow> c)"
  shows "\<exists>s'. with_modifier get t f s = Ok (snd (f co), s') \<and> cache_inv view held good s' \<and>
    utxo (cache_view view s') = (utxo (cache_view view s))(t := outs_of (fst (f co)))"
proof (cases s)
  case (Pair b c)
  have inv: "cache_inv view held good (b, c)" using assms(1) Pair by simp
  obtain b' e where m: "ModifyCoins get (b, c) t = Ok (b', c\<lparr>cacheCoins := (cacheCoins c)(t \<mapsto> e), hasModifier := True\<rparr>)"
    "good b'" "view b' = view b" "\<And>u e. entry_ok view held b u e \<Longrightarrow> entry_ok view held b' u e"
    "eflags e AND DIRTY \<noteq> 0" "eflags e AND FRESH \<noteq> 0 \<longrightarrow> utxo (view b) t = Map.empty" "eflags e AND FRESH = 0 \<longrightarrow> held b' t"
    "ecoins e = co"
    using ModifyCoins_ok [OF inv, of t] unfolding co_def Pair by blast
  define x where "x = (if eflags e AND FRESH \<noteq> 0 \<and> IsPruned (Cleanup (fst (f co))) then None
    else Some (e\<lparr>ecoins := Cleanup (fst (f co))\<rparr>))"
  define c' where "c' = c\<lparr>cacheCoins := (cacheCoins c)(t := x), hasModifier := False\<rparr>"
  have "with_modifier get t f s = Ok (snd (f co), b', c')"
    using m(1,8) Pair by (auto simp: with_modifier_def CCoinsModifier_destroy_def x_def c'_def Let_def split: prod.splits)
  moreover have "cache_inv view held good (b', c')"
    using inv m(2-7) by (auto simp: cache_inv_def c'_def x_def entry_ok_def split: if_splits)
  moreover have "utxo (cache_view view (b', c')) = (utxo (cache_view view s))(t := outs_of (fst (f co)))"
    using m(3,6) by (auto simp: fun_eq_iff utxo_cache Pair c'_def x_def IsPruned_outs utxo_def cache_view_def split: option.splits)
  ultimately show ?thesis by blast
qed

text \<open>Writing an entry of a child cache to its parent never meets the assertion: an entry that is not fresh is held by the parent.\<close>

lemma batch_entry_ok:
  assumes "cache_inv view held good (b, p)" "entry_ok (cache_view view) cache_held (b, p) t e"
  obtains p' where "batch_entry t e p = Ok p'" "cache_inv view held good (b, p')"
    "utxo (cache_view view (b, p')) = (utxo (cache_view view (b, p)))(t := outs_of (ecoins e))"
    "\<And>u. u \<noteq> t \<Longrightarrow> cache_held (b, p') u = cache_held (b, p) u"
proof -
  have u: "utxo (cache_view view (b, p)) t = (case cacheCoins p t of Some e \<Rightarrow> outs_of (ecoins e) | None \<Rightarrow> utxo (view b) t)"
    by (rule utxo_cache)
  have p: "\<And>t e. cacheCoins p t = Some e \<Longrightarrow> entry_ok view held b t e" using assms(1) coins_at by blast
  define x where "x = (case cacheCoins p t of
      None \<Rightarrow> if IsPruned (ecoins e) then None else Some \<lparr>ecoins = ecoins e, eflags = DIRTY OR FRESH\<rparr>
    | Some itUs \<Rightarrow> if eflags itUs AND FRESH \<noteq> 0 \<and> IsPruned (ecoins e) then None
        else Some (itUs\<lparr>ecoins := ecoins e, eflags := eflags itUs OR DIRTY\<rparr>))"
  define p' where "p' = (if eflags e AND DIRTY \<noteq> 0 then p\<lparr>cacheCoins := (cacheCoins p)(t := x)\<rparr> else p)"
  have fresh: "cacheCoins p t = None \<Longrightarrow> eflags e AND FRESH \<noteq> 0" "eflags e AND FRESH \<noteq> 0 \<Longrightarrow> utxo (cache_view view (b, p)) t = Map.empty"
    using assms(2) by (auto simp: entry_ok_def cache_held_def)
  have pn: "cacheCoins p t = None \<Longrightarrow> p\<lparr>cacheCoins := (cacheCoins p)(t := None)\<rparr> = p" by (simp add: fun_upd_idem)
  have "batch_entry t e p = Ok p'" using fresh(1) pn by (auto simp: batch_entry_def p'_def x_def split: option.splits)
  moreover have "entry_ok view held b t y" if "x = Some y" for y
    using that p fresh u by (auto simp: x_def entry_ok_def split: option.splits if_splits)
  then have "cache_inv view held good (b, p')" using assms(1) by (auto simp: cache_inv_def p'_def)
  moreover have "(case x of Some e \<Rightarrow> outs_of (ecoins e) | None \<Rightarrow> utxo (view b) t) = outs_of (ecoins e)"
    using u fresh p by (auto simp: x_def IsPruned_outs entry_ok_def split: option.splits)
  then have "utxo (cache_view view (b, p')) = (utxo (cache_view view (b, p)))(t := outs_of (ecoins e))"
    using assms(2) by (auto simp: fun_eq_iff [of "utxo _"] utxo_cache p'_def entry_ok_def)
  moreover have "u \<noteq> t \<Longrightarrow> cache_held (b, p') u = cache_held (b, p) u" for u by (simp add: p'_def cache_held_def)
  ultimately show ?thesis using that by blast
qed

lemma batch_loop_ok:
  assumes "distinct order" "cache_inv view held good (b, p)"
    "\<And>t e. t \<in> set order \<Longrightarrow> m t = Some e \<Longrightarrow> entry_ok (cache_view view) cache_held (b, p) t e"
  shows "\<exists>p'. batch_loop order m p = Ok p' \<and> cache_inv view held good (b, p') \<and>
    (\<forall>t. utxo (cache_view view (b, p')) t =
      (case if t \<in> set order then m t else None of Some e \<Rightarrow> outs_of (ecoins e) | None \<Rightarrow> utxo (cache_view view (b, p)) t))"
  using assms
proof (induction order arbitrary: p)
  case (Cons t order)
  show ?case
  proof (cases "m t")
    case None
    then show ?thesis using Cons.IH [of p] Cons.prems by (fastforce split: option.splits if_splits)
  next
    case (Some e)
    have "entry_ok (cache_view view) cache_held (b, p) t e" using Cons.prems(3) Some by simp
    then obtain q where q: "batch_entry t e p = Ok q" "cache_inv view held good (b, q)"
      "utxo (cache_view view (b, q)) = (utxo (cache_view view (b, p)))(t := outs_of (ecoins e))"
      "\<And>u. u \<noteq> t \<Longrightarrow> cache_held (b, q) u = cache_held (b, p) u"
      using batch_entry_ok Cons.prems(2) by metis
    have "entry_ok (cache_view view) cache_held (b, q) u x" if "u \<in> set order" "m u = Some x" for u x
      using Cons.prems(1) Cons.prems(3) [of u x] that q(3,4) by (auto simp: entry_ok_def)
    then obtain p' where p': "batch_loop order m q = Ok p'" "cache_inv view held good (b, p')"
      "\<And>u. utxo (cache_view view (b, p')) u =
        (case if u \<in> set order then m u else None of Some e \<Rightarrow> outs_of (ecoins e) | None \<Rightarrow> utxo (cache_view view (b, q)) u)"
      using Cons.IH [of q] Cons.prems(1) q(2) by auto
    have "utxo (cache_view view (b, p')) u = (case if u \<in> set (t # order) then m u else None of
        Some e \<Rightarrow> outs_of (ecoins e) | None \<Rightarrow> utxo (cache_view view (b, p)) u)" for u
      using p'(3) [of u] q(3) Some Cons.prems(1) by (auto split: option.splits)
    then show ?thesis using p'(1,2) q(1) Some by auto
  qed
qed simp

lemma Flush_ok:
  assumes "cache_inv (cache_view view) cache_held (cache_inv view held good) ((b, p), c)"
    and "distinct order" "set order = dom (cacheCoins c)"
  obtains p' where "Flush order ((b, p), c) = Ok ((b, p'), c\<lparr>cacheCoins := Map.empty\<rparr>)" "hashBlock p' = hashBlock c"
    "cache_inv view held good (b, p')"
    "utxo (cache_view view (b, p')) = utxo (cache_view (cache_view view) ((b, p), c))"
proof -
  have c: "cache_inv view held good (b, p)" "\<And>t e. cacheCoins c t = Some e \<Longrightarrow> entry_ok (cache_view view) cache_held (b, p) t e"
    using assms(1) by (auto simp: cache_inv_def)
  obtain q where q: "batch_loop order (cacheCoins c) p = Ok q" "cache_inv view held good (b, q)"
    "\<And>t. utxo (cache_view view (b, q)) t =
      (case if t \<in> set order then cacheCoins c t else None of Some e \<Rightarrow> outs_of (ecoins e) | None \<Rightarrow> utxo (cache_view view (b, p)) t)"
    using batch_loop_ok [OF assms(2) c(1), of "cacheCoins c"] c(2) by metis
  let ?p = "q\<lparr>hashBlock := hashBlock c\<rparr>"
  have "Flush order ((b, p), c) = Ok ((b, ?p), c\<lparr>cacheCoins := Map.empty\<rparr>)"
    using q(1) c(1) by (simp add: Flush_def BatchWrite_def cache_inv_def)
  moreover have "cache_inv view held good (b, ?p)" using q(2) by (simp add: cache_inv_def)
  moreover have "cache_view view (b, ?p) = cache_view view (b, q)" by (simp add: cache_view_def fun_eq_iff cong: option.case_cong)
  then have "utxo (cache_view view (b, ?p)) = utxo (cache_view (cache_view view) ((b, p), c))"
    using q(3) assms(3) by (auto simp: fun_eq_iff [of "utxo _"] utxo_cache [of "cache_view view"] dom_def split: option.splits)
  ultimately show ?thesis using that [of ?p] by simp
qed

lemma AccessCoins_ok:
  assumes "cache_inv view held good s" "AccessCoins get s t = (r, s')"
  shows "cache_inv view held good s' \<and> cache_view view s' = cache_view view s \<and> r = cache_view view s t"
proof -
  obtain it s'' where f: "FetchCoins get s t = (it, s'')" by (metis prod.exhaust)
  show ?thesis using FetchCoins_ok [OF assms(1) f] assms(2) f by (auto simp: AccessCoins_def split: option.splits)
qed

lemma inputs_available_ok:
  assumes "cache_inv view held good s" "inputs_available get vs s = (r, s')"
  shows "cache_inv view held good s' \<and> cache_view view s' = cache_view view s \<and>
    (r \<longleftrightarrow> (\<forall>v \<in> set vs. \<exists>out. input_of (utxo (cache_view view s)) v = Some out \<and> \<not> IsZerocoinMint (scriptPubKey out)))"
  using assms
proof (induction vs arbitrary: s)
  case (Cons v vs)
  obtain x s'' where a: "AccessCoins get s (outhash (prevout v)) = (x, s'')" by (metis prod.exhaust)
  note ok = AccessCoins_ok [OF Cons.prems(1) a]
  show ?case
  proof (cases "\<exists>c. x = Some c \<and> IsAvailable c (unat (outn (prevout v)))")
    case True
    then have "inputs_available get vs s'' = (r, s')" using Cons.prems(2) a by auto
    moreover have "\<exists>out. input_of (utxo (cache_view view s)) v = Some out \<and> \<not> IsZerocoinMint (scriptPubKey out)"
      using True ok by (auto simp: IsAvailable_outs input_of_def utxo_def)
    ultimately show ?thesis using Cons.IH [of s''] ok by auto
  next
    case False
    then have "\<not> r" "s' = s''" using Cons.prems(2) a by (auto split: option.splits)
    moreover have "\<not> (\<exists>out. input_of (utxo (cache_view view s)) v = Some out \<and> \<not> IsZerocoinMint (scriptPubKey out))"
      using False ok by (auto simp: IsAvailable_outs input_of_def utxo_def split: option.splits)
    ultimately show ?thesis using ok by auto
  qed
qed simp

lemma value_in_ok:
  assumes "cache_inv view held good s" "0 \<le> acc"
    "\<forall>v \<in> set vs. \<exists>out. input_of (utxo (cache_view view s)) v = Some out \<and> \<not> IsZerocoinMint (scriptPubKey out) \<and> 0 \<le> sint (nValue out)"
    "acc + (\<Sum>v \<leftarrow> vs. sint (nValue (the (input_of (utxo (cache_view view s)) v)))) \<le> int64_max"
  shows "\<exists>s'. value_in get acc vs s = Ok (acc + (\<Sum>v \<leftarrow> vs. sint (nValue (the (input_of (utxo (cache_view view s)) v)))), s') \<and>
    cache_inv view held good s' \<and> cache_view view s' = cache_view view s"
  using assms
proof (induction vs arbitrary: acc s)
  case (Cons v vs)
  let ?val = "\<lambda>v. sint (nValue (the (input_of (utxo (cache_view view s)) v)))"
  obtain x q where a: "AccessCoins get s (outhash (prevout v)) = (x, q)" by (metis prod.exhaust)
  note ok = AccessCoins_ok [OF Cons.prems(1) a]
  obtain out where out: "input_of (utxo (cache_view view s)) v = Some out" "\<not> IsZerocoinMint (scriptPubKey out)" "0 \<le> sint (nValue out)"
    using Cons.prems(3) by auto
  have g: "GetOutputFor get v s = Ok (out, q)"
    using ok out(1,2) a by (auto simp: GetOutputFor_def IsAvailable_def input_of_def utxo_def outs_of_def split: option.splits if_splits)
  have nonneg: "0 \<le> (\<Sum>v \<leftarrow> vs. ?val v)" using Cons.prems(3) by (intro sum_list_nonneg) fastforce
  then have add: "add_int64 acc (sint (nValue out)) = Ok (acc + sint (nValue out))"
    using Cons.prems(2,4) out by (simp add: add_int64_def int64_min_def)
  have "\<exists>s'. value_in get (acc + sint (nValue out)) vs q = Ok (acc + sint (nValue out) + (\<Sum>v \<leftarrow> vs. ?val v), s') \<and>
      cache_inv view held good s' \<and> cache_view view s' = cache_view view q"
    using Cons.IH [of q "acc + sint (nValue out)"] ok Cons.prems(2-4) out by (simp add: add.assoc)
  then show ?case using g add out(1) ok by (auto simp: add.assoc)
qed simp

lemma spend_input_ok:
  assumes "cache_inv view held good s" "input_of (utxo (cache_view view s)) v = Some out"
  obtains undo s' where "with_modifier get (outhash (prevout v))
      (\<lambda>coins. case Spend coins (unat (outn (prevout v))) of
        None \<Rightarrow> (coins, None) | Some (coins, undo) \<Rightarrow> (coins, Some undo)) s = Ok (Some undo, s')"
    "cache_inv view held good s'" "utxout undo = out" "utxo (cache_view view s') = remove_inputs [v] (utxo (cache_view view s))"
    "uHeight undo \<noteq> 0 \<longrightarrow> remove_inputs [v] (utxo (cache_view view s)) (outhash (prevout v)) = Map.empty"
proof -
  let ?t = "outhash (prevout v)" and ?n = "unat (outn (prevout v))"
  obtain co where co: "cache_view view s ?t = Some co" "outs_of co ?n = Some out"
    using assms(2) by (auto simp: input_of_def utxo_def split: option.splits)
  obtain c' undo where sp: "Spend co ?n = Some (c', undo)" "utxout undo = out" "outs_of c' = (outs_of co)(?n := None)"
    "uHeight undo \<noteq> 0 \<longrightarrow> outs_of c' = Map.empty"
    using Spend_ok [OF co(2)] by blast
  have rm: "(utxo (cache_view view s))(?t := outs_of c') = remove_inputs [v] (utxo (cache_view view s))"
    using co(1) sp(3) by (auto simp: fun_eq_iff remove_inputs_def utxo_def)
  moreover have "remove_inputs [v] (utxo (cache_view view s)) ?t = outs_of c'" by (simp flip: rm)
  ultimately show ?thesis
    using that with_modifier_ok [OF assms(1), of ?t "\<lambda>coins. case Spend coins ?n of
        None \<Rightarrow> (coins, None) | Some (coins, undo) \<Rightarrow> (coins, Some undo)"] co(1) sp(1,2,4) by auto
qed

lemma spend_inputs_ok:
  assumes "cache_inv view held good s" "distinct (map prevout vs)"
    "\<forall>v \<in> set vs. input_of (utxo (cache_view view s)) v \<noteq> None"
  shows "\<exists>undos s'. spend_inputs get vs s = Ok (undos, s') \<and> cache_inv view held good s' \<and>
    utxo (cache_view view s') = remove_inputs vs (utxo (cache_view view s)) \<and>
    undo_data vs undos (utxo (cache_view view s)) \<and> map (\<lambda>d. Some (utxout d)) undos = map (input_of (utxo (cache_view view s))) vs"
  using assms
proof (induction vs arbitrary: s)
  case Nil
  then show ?case by (simp add: remove_inputs_def fun_eq_iff)
next
  case (Cons v vs)
  obtain out where out: "input_of (utxo (cache_view view s)) v = Some out" using Cons.prems(3) by auto
  obtain undo q where q: "with_modifier get (outhash (prevout v))
      (\<lambda>coins. case Spend coins (unat (outn (prevout v))) of
        None \<Rightarrow> (coins, None) | Some (coins, undo) \<Rightarrow> (coins, Some undo)) s = Ok (Some undo, q)"
    "cache_inv view held good q" "utxout undo = out" "utxo (cache_view view q) = remove_inputs [v] (utxo (cache_view view s))"
    "uHeight undo \<noteq> 0 \<longrightarrow> remove_inputs [v] (utxo (cache_view view s)) (outhash (prevout v)) = Map.empty"
    using spend_input_ok [OF Cons.prems(1) out] by blast
  have same: "input_of (utxo (cache_view view q)) w = input_of (utxo (cache_view view s)) w" if "w \<in> set vs" for w
  proof -
    have "prevout w \<noteq> prevout v" using that Cons.prems(2) by (auto simp: image_iff)
    then have "outhash (prevout w) \<noteq> outhash (prevout v) \<or> outn (prevout w) \<noteq> outn (prevout v)"
      using COutPoint.equality [of "prevout w" "prevout v"] by auto
    then show ?thesis by (auto simp: input_of_def q(4) remove_inputs_def word_unat_eq_iff)
  qed
  have vs: "distinct (map prevout vs)" "\<forall>w \<in> set vs. input_of (utxo (cache_view view q)) w \<noteq> None"
    using Cons.prems(2,3) same by auto
  obtain undos s' where u: "spend_inputs get vs q = Ok (undos, s')" "cache_inv view held good s'"
    "utxo (cache_view view s') = remove_inputs vs (utxo (cache_view view q))"
    "undo_data vs undos (utxo (cache_view view q))" "map (\<lambda>d. Some (utxout d)) undos = map (input_of (utxo (cache_view view q))) vs"
    using Cons.IH [OF q(2)] vs by blast
  have "remove_inputs vs (utxo (cache_view view q)) = remove_inputs (v # vs) (utxo (cache_view view s))"
    unfolding q(4) by (rule remove_inputs_Cons)
  moreover have "\<not> CTxOut_IsNull out" using out by (auto simp: input_of_def utxo_def outs_of_def split: option.splits if_splits)
  moreover have "map (\<lambda>d. Some (utxout d)) undos = map (input_of (utxo (cache_view view s))) vs" using u(5) same by simp
  moreover have "undo_data vs undos (remove_inputs [v] (utxo (cache_view view s)))" using u(4) q(4) by simp
  ultimately show ?case using q(1,3,5) u(1-3) out
    by (intro exI [of _ "undo # undos"] exI [of _ s']) (simp add: bindO_assoc)
qed

lemma UpdateCoins_ok:
  assumes "cache_inv view held good s" "tx_ok tx (utxo (cache_view view s))"
  shows "\<exists>undos s'. UpdateCoins get tx h s = Ok (undos, s') \<and> cache_inv view held good s' \<and>
    utxo (cache_view view s') = apply_tx tx (utxo (cache_view view s)) \<and>
    undo_data (tx_inputs tx) undos (utxo (cache_view view s)) \<and>
    map (\<lambda>d. Some (utxout d)) undos = map (input_of (utxo (cache_view view s))) (tx_inputs tx)"
proof -
  let ?u = "utxo (cache_view view s)" and ?ins = "tx_inputs tx"
  obtain cb z where cb: "IsCoinBase tx = Ok cb" "CTransaction_IsZerocoinSpend tx = Ok z" using tx_ok_tests [OF assms(2)] by blast
  obtain coins where coins: "FromTx tx h = Ok coins" "outs_of coins = new_outs tx" using FromTx_ok [OF cb(1)] by blast
  have ins: "distinct (map prevout ?ins)" "\<forall>v \<in> set ?ins. input_of ?u v \<noteq> None" using assms(2) by (auto simp: tx_ok_def)
  obtain undos q where q: "spend_inputs get ?ins s = Ok (undos, q)" "cache_inv view held good q"
    "utxo (cache_view view q) = remove_inputs ?ins ?u" "undo_data ?ins undos ?u"
    "map (\<lambda>d. Some (utxout d)) undos = map (input_of ?u) ?ins"
    using spend_inputs_ok [OF assms(1) ins] by blast
  obtain s' where s': "with_modifier get (txhash tx) (\<lambda>_. (coins, ())) q = Ok ((), s')" "cache_inv view held good s'"
    "utxo (cache_view view s') = (utxo (cache_view view q))(txhash tx := outs_of coins)"
    using with_modifier_ok [OF q(2), of "txhash tx" "\<lambda>_. (coins, ())"] by auto
  have "UpdateCoins get tx h s = Ok (undos, s')"
    using cb q(1) coins(1) s'(1) by (cases "cb \<or> z") (auto simp: UpdateCoins_def tx_inputs_def)
  then show ?thesis using s'(2,3) q(3-5) coins(2) by (simp add: apply_tx_def)
qed

lemma update_txs_ok:
  assumes "cache_inv view held good s" "txs_ok txs (utxo (cache_view view s))"
  shows "\<exists>undos s'. update_txs get txs h s = Ok (undos, s') \<and> cache_inv view held good s' \<and>
    utxo (cache_view view s') = fold apply_tx txs (utxo (cache_view view s)) \<and> undos_data txs undos (utxo (cache_view view s))"
  using assms
proof (induction txs arbitrary: s)
  case (Cons tx txs)
  obtain ds q where q: "UpdateCoins get tx h s = Ok (ds, q)" "cache_inv view held good q"
    "utxo (cache_view view q) = apply_tx tx (utxo (cache_view view s))" "undo_data (tx_inputs tx) ds (utxo (cache_view view s))"
    using UpdateCoins_ok [OF Cons.prems(1), of tx h] Cons.prems(2) unfolding txs_ok.simps by blast
  have "txs_ok txs (utxo (cache_view view q))" using Cons.prems(2) q(3) by simp
  then show ?case using Cons.IH [OF q(2)] q(1,3,4) by auto
qed simp

lemma restore_inputs_ok:
  assumes "undo_data vs ds u" "cache_inv view held good s" "utxo (cache_view view s) = remove_inputs vs u"
  shows "\<exists>ok s'. restore_inputs get vs ds fClean s = Ok (ok, s') \<and> cache_inv view held good s' \<and> utxo (cache_view view s') = u"
  using assms
proof (induction vs ds u rule: undo_data.induct)
  case (2 v vs d ds u)
  let ?t = "outhash (prevout v)" and ?n = "unat (outn (prevout v))"
  have d: "u ?t ?n = Some (utxout d)" "\<not> CTxOut_IsNull (utxout d)" "undo_data vs ds (remove_inputs [v] u)"
    "uHeight d \<noteq> 0 \<longrightarrow> remove_inputs [v] u ?t = Map.empty"
    using 2(2) by (simp_all add: input_of_def)
  have "utxo (cache_view view s) = remove_inputs vs (remove_inputs [v] u)" using 2(4) by (simp only: remove_inputs_Cons)
  then obtain ok q where q: "restore_inputs get vs ds fClean s = Ok (ok, q)" "cache_inv view held good q"
    "utxo (cache_view view q) = remove_inputs [v] u"
    using 2(1) [OF d(3) 2(3)] by blast
  define co where "co = (case cache_view view q ?t of None \<Rightarrow> CCoins_Clear CCoins_default | Some c \<Rightarrow> c)"
  have co: "outs_of co = remove_inputs [v] u ?t"
    unfolding q(3) [symmetric] by (simp add: co_def utxo_def split: option.splits)
  have "outs_of (fst (restore_input ?n d co)) = (outs_of co)(?n \<mapsto> utxout d)"
    using d(2,4) co by (intro restore_input_outs) simp_all
  then have "(remove_inputs [v] u)(?t := outs_of (fst (restore_input ?n d co))) = u"
    using d(1) unfolding co by (auto simp: fun_eq_iff remove_inputs_def)
  then obtain s' where "with_modifier get ?t (restore_input ?n d) q = Ok (snd (restore_input ?n d co), s')"
    "cache_inv view held good s'" "utxo (cache_view view s') = u"
    using with_modifier_ok [OF q(2), of ?t "restore_input ?n d"] unfolding co_def [symmetric] q(3) by metis
  then show ?case using q(1) by simp
qed (simp_all add: remove_inputs_def fun_eq_iff)

lemma disconnect_tx_ok:
  assumes "tx_ok tx u" "u (txhash tx) = Map.empty" "undo_data (tx_inputs tx) ds u"
    and "cache_inv view held good s" "utxo (cache_view view s) = apply_tx tx u"
  shows "\<exists>ok s'. disconnect_tx get tx h ds fClean s = Ok (ok, s') \<and> cache_inv view held good s' \<and> utxo (cache_view view s') = u"
proof -
  obtain cb z where cb: "IsCoinBase tx = Ok cb" "CTransaction_IsZerocoinSpend tx = Ok z" using tx_ok_tests [OF assms(1)] by blast
  obtain coins where coins: "FromTx tx h = Ok coins" using FromTx_ok [OF cb(1)] by blast
  have clear: "outs_of (fst (remove_outputs coins c)) = Map.empty" for c by (simp add: remove_outputs_def Let_def)
  obtain ok q where q: "with_modifier get (txhash tx) (remove_outputs coins) s = Ok (ok, q)" "cache_inv view held good q"
    "utxo (cache_view view q) = (apply_tx tx u)(txhash tx := Map.empty)"
    using with_modifier_ok [OF assms(4), of "txhash tx" "remove_outputs coins"] unfolding clear assms(5) by blast
  have "utxo (cache_view view q) = remove_inputs (tx_inputs tx) u"
    unfolding q(3) using assms(2) by (auto simp: apply_tx_def remove_inputs_def fun_eq_iff)
  then have r: "\<exists>ok s'. restore_inputs get (tx_inputs tx) ds cl q = Ok (ok, s') \<and> cache_inv view held good s' \<and>
      utxo (cache_view view s') = u" for cl
    using restore_inputs_ok [OF assms(3) q(2)] by blast
  show ?thesis
  proof (cases "cb \<or> z")
    case True
    have "disconnect_tx get tx h ds fClean s = Ok (fClean \<and> ok, q)"
      using True cb coins q(1) by (auto simp: disconnect_tx_def)
    moreover have "utxo (cache_view view q) = u" using r [of True] True cb undo_data_length [OF assms(3)] by (simp add: tx_inputs_def)
    ultimately show ?thesis using q(2) by blast
  next
    case False
    then have "disconnect_tx get tx h ds fClean s = restore_inputs get (tx_inputs tx) ds (fClean \<and> ok) q"
      using cb coins q(1) undo_data_length [OF assms(3)] by (simp add: disconnect_tx_def tx_inputs_def)
    then show ?thesis using r by simp
  qed
qed

lemma disconnect_txs_ok:
  assumes "txs_ok txs u" "overwrites_none txs u" "undos_data txs dss u"
    and "cache_inv view held good s" "utxo (cache_view view s) = fold apply_tx txs u"
  shows "\<exists>ok s'. disconnect_txs get txs h dss fClean s = Ok (ok, s') \<and> cache_inv view held good s' \<and> utxo (cache_view view s') = u"
  using assms
proof (induction txs dss u rule: undos_data.induct)
  case (2 tx txs ds dss u)
  have p: "tx_ok tx u" "txs_ok txs (apply_tx tx u)" "u (txhash tx) = Map.empty" "overwrites_none txs (apply_tx tx u)"
    "undo_data (tx_inputs tx) ds u" "undos_data txs dss (apply_tx tx u)"
    "utxo (cache_view view s) = fold apply_tx txs (apply_tx tx u)"
    using 2(2-4,6) by simp_all
  obtain ok q where q: "disconnect_txs get txs h dss fClean s = Ok (ok, q)" "cache_inv view held good q"
    "utxo (cache_view view q) = apply_tx tx u"
    using 2(1) [OF p(2,4,6) 2(5) p(7)] by blast
  then show ?case using disconnect_tx_ok [OF p(1,3,5) q(2,3)] by simp
qed simp_all

end

section \<open>The database\<close>

text \<open>
  \<open>CCoinsViewDB\<close> keeps the coins in a key-value store, which is a parameter: a state with a reading function and
  one that writes a batch of operations. Reading does not change the store. \<open>store_law\<close> says that
  reading returns what was written last.
\<close>

definition db_get :: "('d \<Rightarrow> uint256 \<Rightarrow> CCoins option) \<Rightarrow> 'd coins_getter" where
  "db_get read db txid = (read db txid, db)"

datatype batch_op = Write_coins uint256 CCoins | Erase_coins uint256 | Write_best uint256

definition BatchWriteCoins :: "uint256 \<Rightarrow> CCoins \<Rightarrow> batch_op" where
  "BatchWriteCoins h coins = (if IsPruned coins then Erase_coins h else Write_coins h coins)"

definition db_BatchWrite :: "uint256 list \<Rightarrow> (uint256 \<Rightarrow> CCoinsCacheEntry option) \<Rightarrow> uint256 \<Rightarrow> batch_op list" where
  "db_BatchWrite order mapCoins hashBlockIn =
     concat (map (\<lambda>txid. case mapCoins txid of None \<Rightarrow> []
         | Some e \<Rightarrow> if eflags e AND DIRTY \<noteq> 0 then [BatchWriteCoins txid (ecoins e)] else []) order) @
     (if hashBlockIn \<noteq> 0 then [Write_best hashBlockIn] else [])"

fun read_after :: "uint256 \<Rightarrow> CCoins option \<Rightarrow> batch_op list \<Rightarrow> CCoins option" where
  "read_after t r [] = r"
| "read_after t r (Write_coins h c # ops) = read_after t (if h = t then Some c else r) ops"
| "read_after t r (Erase_coins h # ops) = read_after t (if h = t then None else r) ops"
| "read_after t r (Write_best h # ops) = read_after t r ops"

definition store_law :: "('d \<Rightarrow> uint256 \<Rightarrow> CCoins option) \<Rightarrow> ('d \<Rightarrow> batch_op list \<Rightarrow> 'd) \<Rightarrow> bool" where
  "store_law read write \<longleftrightarrow> (\<forall>d ops t. read (write d ops) t = read_after t (read d t) ops)"

abbreviation tip_inv :: "('d \<Rightarrow> uint256 \<Rightarrow> CCoins option) \<Rightarrow> 'd \<times> CCoinsViewCache \<Rightarrow> bool" where
  "tip_inv read \<equiv> cache_inv read (\<lambda>_ _. True) (\<lambda>_. True)"

abbreviation view_inv :: "('d \<Rightarrow> uint256 \<Rightarrow> CCoins option) \<Rightarrow> ('d \<times> CCoinsViewCache) \<times> CCoinsViewCache \<Rightarrow> bool" where
  "view_inv read \<equiv> cache_inv (cache_view read) cache_held (tip_inv read)"

text \<open>The two layers of the node: the cache \<open>pcoinsTip\<close> over the database, and a view over \<open>pcoinsTip\<close>.\<close>

interpretation db: coins_view "db_get read" read "\<lambda>_ _. True" "\<lambda>_. True" for read
  by unfold_locales (auto simp: db_get_def)

interpretation tip: coins_view "GetCoins (db_get read)" "cache_view read" cache_held "tip_inv read" for read
  by (rule db.cache_is_view)

text \<open>Flushing the tip to the database keeps the set of unspent outputs.\<close>

lemma read_after_append: "read_after t r (xs @ ys) = read_after t (read_after t r xs) ys"
  by (induction t r xs rule: read_after.induct) auto

lemma read_after_batch:
  assumes "distinct order"
  shows "read_after t r (db_BatchWrite order m h) =
    (case if t \<in> set order then m t else None of None \<Rightarrow> r
     | Some e \<Rightarrow> if eflags e AND DIRTY = 0 then r else if IsPruned (ecoins e) then None else Some (ecoins e))"
proof -
  let ?b = "\<lambda>txid. case m txid of None \<Rightarrow> []
    | Some e \<Rightarrow> if eflags e AND DIRTY \<noteq> 0 then [BatchWriteCoins txid (ecoins e)] else []"
  have other: "read_after t r (?b x) = r" if "x \<noteq> t" for r x using that by (auto simp: BatchWriteCoins_def split: option.splits)
  have skip: "t \<notin> set order \<Longrightarrow> read_after t r (concat (map ?b order)) = r" for order r
    by (induction order) (auto simp: read_after_append other)
  have "read_after t r (concat (map ?b order)) = (if t \<in> set order then read_after t r (?b t) else r)" for r
    using assms
  proof (induction order arbitrary: r)
    case (Cons x order)
    then show ?case by (cases "x = t") (simp_all add: read_after_append other skip)
  qed simp
  moreover have "read_after t r (xs @ (if h \<noteq> 0 then [Write_best h] else [])) = read_after t r xs" for r xs
    by (simp add: read_after_append)
  ultimately show ?thesis by (auto simp: db_BatchWrite_def BatchWriteCoins_def split: option.splits)
qed

lemma flush_to_database:
  assumes "store_law read write" "tip_inv read (d, c)" "distinct order" "set order = dom (cacheCoins c)"
  shows "utxo (read (write d (db_BatchWrite order (cacheCoins c) (hashBlock c)))) = utxo (cache_view read (d, c))"
proof
  fix t
  have e: "entry_ok read (\<lambda>_ _. True) d t e" if "cacheCoins c t = Some e" for e using db.coins_at [OF assms(2) that] .
  have "read (write d (db_BatchWrite order (cacheCoins c) (hashBlock c))) t =
      (case cacheCoins c t of None \<Rightarrow> read d t
       | Some e \<Rightarrow> if eflags e AND DIRTY = 0 then read d t else if IsPruned (ecoins e) then None else Some (ecoins e))"
    using assms(1,4) by (auto simp: store_law_def read_after_batch [OF assms(3)] dom_def split: option.splits)
  then show "utxo (read (write d (db_BatchWrite order (cacheCoins c) (hashBlock c)))) t = utxo (cache_view read (d, c)) t"
    using e by (auto simp: entry_ok_def utxo_def cache_view_def IsPruned_outs split: option.splits)
qed

section \<open>Connecting and disconnecting\<close>

lemma new_view: "tip_inv read t \<Longrightarrow> view_inv read (t, CCoinsViewCache_new)"
  "cache_view view (t, CCoinsViewCache_new) = view t"
  by (auto simp: cache_inv_def CCoinsViewCache_new_def cache_view_def fun_eq_iff)

lemma flush_view:
  assumes "view_inv read s" "distinct order" "set order = dom (cacheCoins (snd s))"
  obtains t where "Flush order s = Ok (t, (snd s)\<lparr>cacheCoins := Map.empty\<rparr>)" "tip_inv read t"
    "utxo (cache_view read t) = utxo (cache_view (cache_view read) s)"
proof -
  obtain b p c where s: "s = ((b, p), c)" by (metis prod.exhaust)
  have a: "view_inv read ((b, p), c)" "set order = dom (cacheCoins c)" using assms unfolding s by simp_all
  obtain p' where "Flush order ((b, p), c) = Ok ((b, p'), c\<lparr>cacheCoins := Map.empty\<rparr>)" "hashBlock p' = hashBlock c"
    "tip_inv read (b, p')" "utxo (cache_view read (b, p')) = utxo (cache_view (cache_view read) ((b, p), c))"
    by (rule db.Flush_ok [OF a(1) assms(2) a(2)])
  then show ?thesis using that [of "(b, p')"] unfolding s by simp
qed

text \<open>
  C19: the cached views implement the set of unspent outputs. A list of transactions, each of which finds its
  inputs, is connected on a new view over \<open>pcoinsTip\<close>: no assertion of \<open>UpdateCoins\<close>, \<open>ModifyCoins\<close> or \<open>BatchWrite\<close>
  fails, and after \<open>Flush\<close>, in whatever order the hash map is traversed, \<open>pcoinsTip\<close> stands for the old set
  with the inputs removed and the spendable outputs added, transaction by transaction. If no transaction took an id that still had
  unspent outputs, then undoing the transactions on another new view with the undo data of \<open>UpdateCoins\<close> leads
  back to the set before.
\<close>

theorem connect_disconnect_utxo:
  assumes "tip_inv read t" "txs_ok txs (utxo (cache_view read t))"
  shows "\<exists>undos s. update_txs (GetCoins (db_get read)) txs h (t, CCoinsViewCache_new) = Ok (undos, s) \<and>
    finite (dom (cacheCoins (snd s))) \<and>
    (\<forall>order. distinct order \<and> set order = dom (cacheCoins (snd s)) \<longrightarrow>
      (\<exists>t'. Flush order s = Ok (t', (snd s)\<lparr>cacheCoins := Map.empty\<rparr>) \<and> tip_inv read t' \<and>
        utxo (cache_view read t') = fold apply_tx txs (utxo (cache_view read t)) \<and>
        (overwrites_none txs (utxo (cache_view read t)) \<longrightarrow>
          (\<exists>ok s'. disconnect_txs (GetCoins (db_get read)) txs h undos True (t', CCoinsViewCache_new) = Ok (ok, s') \<and>
            utxo (cache_view (cache_view read) s') = utxo (cache_view read t)))))"
proof -
  let ?u = "utxo (cache_view read t)"
  have ok: "txs_ok txs (utxo (cache_view (cache_view read) (t, CCoinsViewCache_new)))" using assms(2) by (simp only: new_view(2))
  obtain undos s where s: "update_txs (GetCoins (db_get read)) txs h (t, CCoinsViewCache_new) = Ok (undos, s)" "view_inv read s"
    "utxo (cache_view (cache_view read) s) = fold apply_tx txs ?u" "undos_data txs undos ?u"
    using tip.update_txs_ok [OF new_view(1) [OF assms(1)] ok] unfolding new_view(2) by blast
  have "\<exists>t'. Flush order s = Ok (t', (snd s)\<lparr>cacheCoins := Map.empty\<rparr>) \<and> tip_inv read t' \<and>
      utxo (cache_view read t') = fold apply_tx txs ?u \<and> (overwrites_none txs ?u \<longrightarrow>
        (\<exists>ok s'. disconnect_txs (GetCoins (db_get read)) txs h undos True (t', CCoinsViewCache_new) = Ok (ok, s') \<and>
          utxo (cache_view (cache_view read) s') = ?u))"
    if ord: "distinct order" "set order = dom (cacheCoins (snd s))" for order
  proof -
    obtain t' where t': "Flush order s = Ok (t', (snd s)\<lparr>cacheCoins := Map.empty\<rparr>)" "tip_inv read t'"
      "utxo (cache_view read t') = utxo (cache_view (cache_view read) s)"
      using flush_view [OF s(2) ord] by blast
    have "utxo (cache_view (cache_view read) (t', CCoinsViewCache_new)) = fold apply_tx txs ?u"
      unfolding new_view(2) using t'(3) s(3) by simp
    then have "overwrites_none txs ?u \<Longrightarrow>
        \<exists>ok s'. disconnect_txs (GetCoins (db_get read)) txs h undos True (t', CCoinsViewCache_new) = Ok (ok, s') \<and>
          utxo (cache_view (cache_view read) s') = ?u"
      using tip.disconnect_txs_ok [OF assms(2) _ s(4) new_view(1) [OF t'(2)]] by blast
    then show ?thesis using t' s(3) by auto
  qed
  moreover have "finite (dom (cacheCoins (snd s)))" using s(2) by (simp add: cache_inv_def)
  ultimately show ?thesis using s(1) by blast
qed

theorem connect_disconnect_utxo_witness:
  "let read = (\<lambda>d. d); coins = \<lparr>fCoinBase = False, fCoinStake = False, cvout = [CTxOut_of 5 [0x51]], cHeight = 3, cVersion = 1\<rparr>;
       t = (Map.empty(7 \<mapsto> coins), CCoinsViewCache_new);
       tx = CTransaction_of (CMutableTransaction_default
         \<lparr>vin := [CTxIn_default\<lparr>prevout := \<lparr>outhash = 7, outn = 0\<rparr>\<rparr>], vout := [CTxOut_of 4 [0x51]]\<rparr>)
   in \<exists>undos s. update_txs (GetCoins (db_get read)) [tx] 4 (t, CCoinsViewCache_new) = Ok (undos, s) \<and>
    (\<forall>order. distinct order \<and> set order = dom (cacheCoins (snd s)) \<longrightarrow>
      (\<exists>t'. Flush order s = Ok (t', (snd s)\<lparr>cacheCoins := Map.empty\<rparr>) \<and>
        utxo (cache_view read t') = apply_tx tx (utxo (cache_view read t))))"
proof -
  let ?read = "\<lambda>d :: uint256 \<Rightarrow> CCoins option. d"
  let ?coins = "\<lparr>fCoinBase = False, fCoinStake = False, cvout = [CTxOut_of 5 [0x51]], cHeight = 3, cVersion = 1\<rparr>"
  let ?t = "(Map.empty(7 \<mapsto> ?coins), CCoinsViewCache_new)"
  let ?tx = "CTransaction_of (CMutableTransaction_default
    \<lparr>vin := [CTxIn_default\<lparr>prevout := \<lparr>outhash = 7, outn = 0\<rparr>\<rparr>], vout := [CTxOut_of 4 [0x51]]\<rparr>)"
  have vin: "vin ?tx = [CTxIn_default\<lparr>prevout := \<lparr>outhash = 7, outn = 0\<rparr>\<rparr>]"
    by (simp add: CTransaction_of_def UpdateHash_def CMutableTransaction_default_def)
  have tests: "IsCoinBase ?tx = Ok False" "CTransaction_IsZerocoinSpend ?tx = Ok False"
    unfolding IsCoinBase_def CTransaction_IsZerocoinSpend_def vin by (simp_all add: COutPoint_IsNull_def CTxIn_default_def)
  have "input_of (utxo (cache_view ?read ?t)) (CTxIn_default\<lparr>prevout := \<lparr>outhash = 7, outn = 0\<rparr>\<rparr>) \<noteq> None"
    by (simp add: input_of_def utxo_def cache_view_def CCoinsViewCache_new_def outs_of_def CTxOut_IsNull_def CTxOut_of_def CTxIn_default_def)
  then have ok: "txs_ok [?tx] (utxo (cache_view ?read ?t))" by (simp add: tx_ok_def tx_inputs_def tests vin)
  have inv: "tip_inv ?read ?t" by (simp add: cache_inv_def CCoinsViewCache_new_def)
  obtain undos s where "update_txs (GetCoins (db_get ?read)) [?tx] 4 (?t, CCoinsViewCache_new) = Ok (undos, s)"
    "\<forall>order. distinct order \<and> set order = dom (cacheCoins (snd s)) \<longrightarrow>
      (\<exists>t'. Flush order s = Ok (t', (snd s)\<lparr>cacheCoins := Map.empty\<rparr>) \<and>
        utxo (cache_view ?read t') = fold apply_tx [?tx] (utxo (cache_view ?read ?t)))"
    using connect_disconnect_utxo [OF inv ok, of 4] by blast
  then show ?thesis unfolding Let_def by (intro exI [of _ undos] exI [of _ s]) simp
qed

end
