(* ===== verification/Rfc6979.thy ===== *)
theory Rfc6979
  imports Hash
begin

text \<open>
  The deterministic generator \<open>RFC6979_HMAC_SHA256\<close> of \<open>src/src/crypto/rfc6979_hmac_sha256.cpp\<close>, from which signing
  nonces are drawn, and the generator of RFC 6979, section 3.2, that it implements. As elsewhere the
  uninitialised buffers of the objects created on the way are an argument.
\<close>

section \<open>The class\<close>

text \<open>\<open>CHMAC_SHA256(K, 32).Write(..)...Finalize(..)\<close> with one \<open>Write\<close> for each range.\<close>

definition hmac_of :: "byte list \<Rightarrow> byte list \<Rightarrow> byte list list \<Rightarrow> byte list" where
  "hmac_of junk K ranges = CHMAC_SHA256_Finalize (foldl CHMAC_SHA256_Write (CHMAC_SHA256 junk junk junk K) ranges)"

record rfc6979 =
  rV :: "byte list"
  rK :: "byte list"
  retry :: bool

definition RFC6979_HMAC_SHA256 :: "byte list \<Rightarrow> byte list \<Rightarrow> byte list \<Rightarrow> rfc6979" where
  "RFC6979_HMAC_SHA256 junk key msg =
     (let V = replicate 32 0x01; K = replicate 32 0x00;
          K = hmac_of junk K [V, [0x00], key, msg];
          V = hmac_of junk K [V];
          K = hmac_of junk K [V, [0x01], key, msg];
          V = hmac_of junk K [V]
      in \<lparr>rV = V, rK = K, retry = False\<rparr>)"

text \<open>The loop of \<open>Generate\<close>; the value is what it writes to \<open>output\<close>, and the last \<open>V\<close>.\<close>

function generate_loop :: "byte list \<Rightarrow> byte list \<Rightarrow> byte list \<Rightarrow> nat \<Rightarrow> byte list \<times> byte list" where
  "generate_loop junk K V outputlen =
     (if outputlen > 0
      then let V = hmac_of junk K [V]; len = min outputlen 32;
               (output, V') = generate_loop junk K V (outputlen - len)
           in (take len V @ output, V')
      else ([], V))"
  by pat_completeness auto
termination
  by (relation "measure (\<lambda>(junk, K, V, n). n)") auto

declare generate_loop.simps [simp del]

definition Generate :: "byte list \<Rightarrow> nat \<Rightarrow> rfc6979 \<Rightarrow> byte list \<times> rfc6979" where
  "Generate junk outputlen g =
     (let g = (if retry g
               then let K = hmac_of junk (rK g) [rV g, [0x00]]; V = hmac_of junk K [rV g] in g\<lparr>rK := K, rV := V\<rparr>
               else g);
          (output, V) = generate_loop junk (rK g) (rV g) outputlen
      in (output, g\<lparr>rV := V, retry := True\<rparr>))"

section \<open>The generator of RFC 6979\<close>

abbreviation HMAC :: "byte list \<Rightarrow> byte list \<Rightarrow> byte list" where
  "HMAC \<equiv> rfc2104_hmac 64 fips_sha256"

text \<open>Steps b to g, the output of step h as the first \<open>n\<close> bytes of the iterates of \<open>V\<close>, and the step after a rejected output.\<close>

definition spec_seed :: "byte list \<Rightarrow> byte list \<Rightarrow> byte list \<times> byte list" where
  "spec_seed x h1 =
     (let V0 = replicate 32 1; K1 = HMAC (replicate 32 0) (V0 @ [0] @ x @ h1); V1 = HMAC K1 V0;
          K2 = HMAC K1 (V1 @ [1] @ x @ h1)
      in (K2, HMAC K2 V1))"

definition spec_output :: "nat \<Rightarrow> byte list \<times> byte list \<Rightarrow> byte list \<times> byte list \<times> byte list" where
  "spec_output n s = (case s of (K, V) \<Rightarrow>
     let m = (n + 31) div 32
     in (take n (concat (map (\<lambda>i. (HMAC K ^^ Suc i) V) [0..<m])), K, (HMAC K ^^ m) V))"

definition spec_reject :: "byte list \<times> byte list \<Rightarrow> byte list \<times> byte list" where
  "spec_reject s = (case s of (K, V) \<Rightarrow> let K' = HMAC K (V @ [0]) in (K', HMAC K' V))"

fun spec_outputs :: "nat list \<Rightarrow> byte list \<times> byte list \<Rightarrow> byte list list" where
  "spec_outputs [] s = []"
| "spec_outputs (n # ns) s = (case spec_output n s of (b, s) \<Rightarrow> b # spec_outputs ns (spec_reject s))"

fun outputs :: "byte list \<Rightarrow> nat list \<Rightarrow> rfc6979 \<Rightarrow> byte list list" where
  "outputs junk [] g = []"
| "outputs junk (n # ns) g = (case Generate junk n g of (b, g) \<Rightarrow> b # outputs junk ns g)"

lemma hmac_of_eq: "length junk = 64 \<Longrightarrow> hmac_of junk K ds = HMAC K (concat ds)"
  unfolding hmac_of_def by (rule CHMAC_SHA256_digest)

lemma length_HMAC [simp]: "length (HMAC K m) = 32"
  by (simp add: rfc2104_hmac_def Let_def)

lemma generate_loop_spec:
  assumes "length junk = 64"
  shows "generate_loop junk K V n =
    (take n (concat (map (\<lambda>i. (HMAC K ^^ Suc i) V) [0..<(n + 31) div 32])), (HMAC K ^^ ((n + 31) div 32)) V)"
proof (induction n arbitrary: V rule: less_induct)
  case (less n)
  show ?case
  proof (cases "n = 0")
    case False
    define m where "m = (n - min n 32 + 31) div 32"
    have m: "(n + 31) div 32 = Suc m" using False by (auto simp: m_def min_def)
    have "generate_loop junk K (HMAC K V) (n - min n 32) =
        (take (n - min n 32) (concat (map (\<lambda>i. (HMAC K ^^ Suc i) (HMAC K V)) [0..<m])), (HMAC K ^^ m) (HMAC K V))"
      unfolding m_def using False by (intro less) simp
    moreover have "map (\<lambda>i. (HMAC K ^^ Suc i) V) [0..<Suc m] = HMAC K V # map (\<lambda>i. (HMAC K ^^ Suc i) (HMAC K V)) [0..<m]"
      by (simp add: upt_conv_Cons map_Suc_upt [symmetric] funpow_swap1 comp_def del: upt_Suc)
    moreover have "take n (HMAC K V @ xs) = take (min n 32) (HMAC K V) @ take (n - min n 32) xs" for xs
      by (simp add: min_def)
    ultimately show ?thesis
      using False unfolding m by (subst generate_loop.simps) (simp add: hmac_of_eq [OF assms] Let_def funpow_swap1 del: upt_Suc)
  qed (simp add: generate_loop.simps)
qed

lemma outputs_spec:
  assumes "length junk = 64"
  shows "outputs junk ns g =
    spec_outputs ns (if retry g then spec_reject (rK g, rV g) else (rK g, rV g))"
proof (induction ns arbitrary: g)
  case (Cons n ns)
  then show ?case
    by (simp add: Generate_def spec_output_def spec_reject_def generate_loop_spec [OF assms] hmac_of_eq [OF assms] Let_def)
qed simp

text \<open>
  The generator is the one of RFC 6979 with HMAC-SHA-256: seeded with a key and a hashed message, the
  successive calls of \<open>Generate\<close> return, for whatever output lengths, what the standard prescribes for the
  first candidate and for each candidate after a rejected one.
\<close>

theorem rfc6979_generates:
  assumes "length junk = 64"
  shows "outputs junk ns (RFC6979_HMAC_SHA256 junk key msg) = spec_outputs ns (spec_seed key msg)"
  by (simp add: outputs_spec [OF assms] RFC6979_HMAC_SHA256_def spec_seed_def hmac_of_eq [OF assms] Let_def)

end
