(* ===== verification/Spec2Isabelle.thy ===== *)
theory Spec2Isabelle
  imports ScriptVerify Streams SigHash Pow PartialMerkle CoinsCache Rfc6979
begin

text \<open>
  A verification library for the consensus core of the Tessa node (\<open>src/src\<close>): the code that decides
  whether bytes are a transaction, whether a script authorises a spend, whether a header carries
  enough work, and which blocks form the active chain.

  \<^bold>\<open>The parts and how they interact.\<close> Blocks and transactions travel as bytes (\<open>serialize.h\<close>, \<open>streams.h\<close>,
  \<open>primitives/transaction.h\<close>). A transaction input is authorised when \<open>VerifyScript\<close>
  (\<open>script/interpreter.cpp\<close>) runs the signature script and the output script (\<open>script/script.h\<close>) to
  success; the signature opcodes hash the transaction through \<open>SignatureHash\<close>, which uses the
  serialization and the double SHA-256 of \<open>hash.h\<close> over the classes of \<open>crypto\<close>. A block commits to its
  transactions with a Merkle root (\<open>primitives/block.cpp\<close>, \<open>consensus/merkle.cpp\<close>). Its header is
  accepted when its hash meets the target that \<open>pow.cpp\<close> computes with \<open>arith_uint256\<close> from the
  preceding entries of the block index (\<open>chain.h\<close>, \<open>chain.cpp\<close>). What the transactions of the active chain
  leave unspent is kept in the views of \<open>coins.h\<close>, a cache over a cache over the database.

  \<^bold>\<open>How C++ is rendered.\<close> Integers of a fixed width are words and wrap. Signed arithmetic whose
  overflow is undefined is integer arithmetic; the range is tested, and \<open>Abort\<close> returned outside it, where the
  operands come from data: arithmetic on script numbers and their negation when they are pushed, sums of
  output and input values, heights of blocks and the step of a block locator. Three kinds of counters are plain numbers because
  something else bounds them: the \<open>int\<close> counters of the Merkle tree in memory, which fit up to \<open>2 ^ 29\<close>
  transactions (\<open>tree_counters_fit\<close>), the positions in the signature serializer, which run over the vectors of a
  transaction, and the time spans of \<open>Pow\<close>, sums of at most 24 differences of 32-bit times held in 64 bits.
  A value of the type \<open>outcome\<close> of
  \<open>Prelude\<close> is \<open>Ok\<close> for a return, \<open>Fail\<close> for a reported error code, \<open>Throw\<close> for an exception and \<open>Abort\<close>
  for a failed assertion or undefined behaviour (an index outside a vector, a null pointer). Vectors
  are lists, objects are records, pointers into the block index are addresses of a store. Loops are
  recursive functions; the ones whose end depends on the shape of the pointer graph are
  \<open>partial_function (option)\<close>, where \<open>None\<close> means that the loop does not return, and their return on a
  well-formed index is proved: \<open>tip_loop\<close> in \<open>set_tip_activates_branch\<close>, \<open>fork_loop\<close> in \<open>find_fork_is_last_common\<close>, the others in \<open>last_stake_returns\<close> and
  \<open>locator_loop_returns\<close>. No definition uses fuel.

  \<^bold>\<open>Hashes and bytes.\<close>
  \<^item> \<open>BlockHash\<close>: the buffering and padding that \<open>CSHA1\<close>, \<open>CSHA256\<close>, \<open>CSHA512\<close> and \<open>CRIPEMD160\<close> repeat,
    in the locales \<open>block_hash\<close> and \<open>padded_hash\<close>; \<open>Sha2\<close> the standard's compression function.
  \<^item> \<open>Sha1\<close>, \<open>Sha256\<close>, \<open>Sha512\<close>, \<open>Ripemd160\<close>: the unrolled transformations of \<open>crypto/*.cpp\<close> line by line,
    each class shown to compute its standard for every message and every way of cutting it into
    \<open>Write\<close> calls, whatever the uninitialised buffer holds.
  \<^item> \<open>Hash\<close>: \<open>CHash256\<close>, \<open>CHash160\<close>, HMAC, MurmurHash3 and \<open>BIP32Hash\<close>.
  \<^item> \<open>Rfc6979\<close>: the generator of signing nonces, \<open>RFC6979_HMAC_SHA256\<close>; every sequence of calls of \<open>Generate\<close>
    returns what the standard prescribes.
  \<^item> \<open>Serialize\<close>: integers, compact sizes, variable-length integers and vectors; the locale \<open>codec\<close> is the
    contract of a writer and its reader, interpreted for every type on the way to transactions.
  \<^item> \<open>Streams\<close>: \<open>CDataStream\<close> refines a queue of bytes (locale \<open>byte_queue\<close>), insertion and erasure at any
    position included.
  \<^item> \<open>Transaction\<close>: the transaction types, their round trip and the sums of output values.

  \<^bold>\<open>Scripts.\<close>
  \<^item> \<open>ScriptNum\<close> and \<open>Script\<close>: script numbers, opcodes, \<open>GetOp\<close>, pushing. \<open>GetOp\<close>
    decodes exactly the instruction grammar, and the signature-operation count is the wrapped sum over the
    decoded instructions.
  \<^item> \<open>SigEncoding\<close>: error codes, flags, and the encoding rules; strict DER is compared with a grammar.
  \<^item> \<open>Interpreter\<close>: every opcode handler, the loop of \<open>EvalScript\<close> and \<open>VerifyScript\<close>. The flags and the
    signature checker are the environment record \<open>script_env\<close>.
  \<^item> \<open>StackOps\<close>, \<open>Multisig\<close>, \<open>EvalSafety\<close>, \<open>ScriptVerify\<close>: the handlers implement their documented stack
    effects; the greedy multi-signature loop is complete; resource limits are invariants of the
    loop and evaluation is total; the two standard output forms are spent exactly as intended.
  \<^item> \<open>SigHash\<close>: the streaming signature serializer equals hashing a changed copy of the transaction. The
    ECDSA verification of the curve library is an argument of the checker.

  \<^bold>\<open>Work and chain.\<close>
  \<^item> \<open>ArithUint256\<close>, \<open>ArithValue\<close>, \<open>ArithDivision\<close>, \<open>ArithCompact\<close>: the array operators of \<open>base_uint\<close> are
    arithmetic on the number in the array, division included; the compact format and its loss.
  \<^item> \<open>ChainIndex\<close>: index entries, \<open>GetAncestor\<close> over skip pointers against a walk over \<open>pprev\<close>, linking,
    \<open>SetTip\<close> and \<open>FindFork\<close>. The hypothesis \<open>wf_store\<close> is kept by linking a new block.
  \<^item> \<open>Pow\<close>: \<open>CheckProofOfWork\<close>, \<open>GetBlockProof\<close>, \<open>GetNextWorkRequired\<close> and the trust score. The chain
    parameters are the record \<open>CChainParams\<close>.
  \<^item> \<open>MerkleTree\<close>: the tree in memory, branches and the binding of a root, up to a collision that the
    statement names; \<open>MerkleRoot\<close>: the constant-space computation of \<open>consensus/merkle.cpp\<close> returns the
    same root and the same branches, for up to \<open>2 ^ 31\<close> leaves (beyond, its counter wraps).
  \<^item> \<open>PartialMerkle\<close>: the partial trees of \<open>merkleblock.cpp\<close>, their round trip from a block through the wire to
    the extracted transactions, and what a dishonest tree can and cannot make a receiver accept.

  \<^bold>\<open>Unspent outputs.\<close>
  \<^item> \<open>Compressor\<close>: amounts and standard scripts in their compact form (\<open>compressor.cpp\<close>), shown to come back.
    The curve library's recovery of a key from its compressed form is the hypothesis \<open>curve_recovers\<close>.
  \<^item> \<open>Coins\<close>: \<open>CCoins\<close> with its serialization, spending, the undo records of \<open>undo.h\<close> and the restoring step of
    \<open>DisconnectBlock\<close>; what was spent is restored, up to the one flag the code drops.
  \<^item> \<open>CoinsCache\<close>: \<open>CCoinsViewCache\<close> with \<open>UpdateCoins\<close> and the undoing of a transaction in \<open>DisconnectBlock\<close>
    (\<open>main.cpp\<close>). The locale \<open>coins_view\<close> is the contract of the view below a cache; the database satisfies it, and
    a cache over a view that does satisfies it again. Connecting, flushing and disconnecting act on the set of
    unspent outputs as specified. The key-value store is a parameter with the law \<open>store_law\<close>.

  \<^bold>\<open>Not modelled.\<close> Everything that is I/O, threads or a user interface: the network (\<open>net.cpp\<close>,
  \<open>netbase.cpp\<close>), RPC and HTTP, the databases (\<open>txdb.cpp\<close>, \<open>dbwrapper.cpp\<close>, \<open>liblmdb\<close>), logging,
  initialisation, the Qt interface. Vendored libraries: \<open>secp256k1\<close>, \<open>relic\<close>, \<open>bls\<close>, \<open>univalue\<close>,
  \<open>json\<close>. Block connection and mempool acceptance in \<open>main.cpp\<close> interleave database access, locks
  and global state with the checks; of that file the updates
  of the coin views, their undoing, and the linking of index entries are modelled. The wallet
  and the zerocoin layer rest on the databases and on group arithmetic of an external big-number
  library, and are left out with them.
\<close>

end
